(* ===== verification/Prelude.thy ===== *)
theory Prelude
  imports Main "HOL-Library.Word" "HOL-Library.Code_Target_Nat"
begin

text \<open>
  What the components share: Go's machine integers, error values and \<open>errors.Is\<close>, results
  with panics, programs over an explicit world (a state, a result, and \<open>None\<close> for a call
  that never returns), and the parts of the standard library the sources use
  (\<open>strconv\<close>, \<open>math/big\<close> printing, \<open>strings\<close>).
\<close>

named_theorems go_simps \<open>unfolding rules for programs over an explicit world\<close>

section \<open>Machine types\<close>

type_synonym byte = "8 word"
type_synonym u64 = "64 word"

text \<open>
  \<open>common.Address\<close> is a \<open>[20]byte\<close> and \<open>common.Hash\<close> a \<open>[32]byte\<close>; both are compared
  bytewise and have an all-zero zero value, so a word of the same width carries them.
\<close>

type_synonym address = "160 word"
type_synonym hash = "256 word"

section \<open>Errors\<close>

text \<open>
  The non-error operands of a \<open>fmt.Errorf\<close> verb are kept as values, not as rendered text.
  A \<open>*big.Int\<close> operand may be nil.
\<close>

datatype earg =
    EStr string
  | EInt "int option"
  | EU64 u64
  | ENat nat
  | EAddr address
  | EStrs "string list"
  | EHash hash

text \<open>
  \<open>Sentinel\<close> is a package-level error variable, identified by its qualified name;
  \<open>Errorf\<close> is \<open>fmt.Errorf\<close> or \<open>errors.New\<close> inside a function, with its format string, its
  operands and the errors wrapped with \<open>%w\<close>; \<open>DeploymentMismatch\<close> is the struct error of
  \<open>internal/txmanager/errors.go\<close> (predicted address, actual address, hash, block).
\<close>

datatype gerr =
    Sentinel string
  | Errorf string "earg list" "gerr list"
  | DeploymentMismatch address address hash u64

text \<open>\<open>errors.Is\<close>: the error itself or one it wraps, at any depth, is the target.\<close>

fun errors_is :: "gerr \<Rightarrow> gerr \<Rightarrow> bool" where
  "errors_is (Sentinel s) t = (Sentinel s = t)"
| "errors_is (Errorf f a ws) t = (Errorf f a ws = t \<or> list_ex (\<lambda>w. errors_is w t) ws)"
| "errors_is (DeploymentMismatch p a h b) t = (DeploymentMismatch p a h b = t)"

abbreviation errmsg :: "string \<Rightarrow> gerr" where
  "errmsg s \<equiv> Errorf s [] []"

abbreviation wrapf :: "string \<Rightarrow> gerr \<Rightarrow> gerr" where
  "wrapf s e \<equiv> Errorf s [] [e]"

abbreviation context_Canceled :: gerr where
  "context_Canceled \<equiv> Sentinel ''context.Canceled''"

abbreviation context_DeadlineExceeded :: gerr where
  "context_DeadlineExceeded \<equiv> Sentinel ''context.DeadlineExceeded''"

lemma errors_is_wrapped: "w \<in> set ws \<Longrightarrow> errors_is w t \<Longrightarrow> errors_is (Errorf f a ws) t"
  by (auto simp: list_ex_iff)

lemma errors_is_refl [simp]: "errors_is e e"
  by (cases e) auto

section \<open>Results and programs\<close>

text \<open>A Go call returns a value, returns an error, or panics.\<close>

datatype 'a result = Ok 'a | Err gerr | Panic string

text \<open>
  A program reads and changes the world \<open>'w\<close>. The result \<open>None\<close> means that the call never
  returns: it blocks on a channel for ever or polls for ever.
\<close>

type_synonym ('w, 'a) prog = "'w \<Rightarrow> ('a result \<times> 'w) option"

definition gret :: "'a \<Rightarrow> ('w, 'a) prog" where
  [go_simps]: "gret x w = Some (Ok x, w)"

definition gfail :: "gerr \<Rightarrow> ('w, 'a) prog" where
  [go_simps]: "gfail e w = Some (Err e, w)"

text \<open>
  \<open>chk m h k\<close> is Go's \<open>x, err := m; if err != nil { h }; k\<close>. A panic skips both branches.
\<close>

definition chk :: "('w, 'a) prog \<Rightarrow> (gerr \<Rightarrow> ('w, 'b) prog) \<Rightarrow> ('a \<Rightarrow> ('w, 'b) prog) \<Rightarrow> ('w, 'b) prog" where
  "chk m h k w =
     (case m w of
        None \<Rightarrow> None
      | Some (Ok x, w') \<Rightarrow> k x w'
      | Some (Err e, w') \<Rightarrow> h e w'
      | Some (Panic p, w') \<Rightarrow> Some (Panic p, w'))"

lemma chk_simps [simp, go_simps]:
  "m w = None \<Longrightarrow> chk m h k w = None"
  "m w = Some (Ok x, w') \<Longrightarrow> chk m h k w = k x w'"
  "m w = Some (Err e, w') \<Longrightarrow> chk m h k w = h e w'"
  "m w = Some (Panic p, w') \<Longrightarrow> chk m h k w = Some (Panic p, w')"
  by (simp_all add: chk_def)

text \<open>The same check on a pure result.\<close>

fun chkR :: "'a result \<Rightarrow> (gerr \<Rightarrow> 'b result) \<Rightarrow> ('a \<Rightarrow> 'b result) \<Rightarrow> 'b result" where
  "chkR (Ok x) h k = k x"
| "chkR (Err e) h k = h e"
| "chkR (Panic p) h k = Panic p"

text \<open>Inversion of a checked call that returned a value, with an error branch that fails.\<close>

lemma chk_OkE:
  assumes "chk m h k w = Some (Ok y, v)" and "\<And>e w' z u. h e w' \<noteq> Some (Ok z, u)"
  obtains x w' where "m w = Some (Ok x, w')" and "k x w' = Some (Ok y, v)"
  using assms by (auto simp: chk_def split: option.splits prod.splits result.splits)

lemma chk_ErrE:
  assumes "chk m gfail k w = Some (Err e, v)"
  obtains "m w = Some (Err e, v)"
  | x w' where "m w = Some (Ok x, w')" and "k x w' = Some (Err e, v)"
  using assms by (auto simp: chk_def gfail_def split: option.splits prod.splits result.splits)

text \<open>Inversion of a checked call, whatever it returned, and when it did not panic.\<close>

lemma chk_runE:
  assumes "chk m h k w = Some (r, w')"
  obtains (ok) x v where "m w = Some (Ok x, v)" and "k x v = Some (r, w')"
  | (err) e v where "m w = Some (Err e, v)" and "h e v = Some (r, w')"
  | (panic) p where "m w = Some (Panic p, w')" and "r = Panic p"
  using assms by (auto simp: chk_def split: option.splits prod.splits result.splits)

lemma chk_cases:
  assumes "chk m h k w = Some (r, w')" and "\<forall>p. r \<noteq> Panic p"
  obtains (ok) x v where "m w = Some (Ok x, v)" and "k x v = Some (r, w')"
  | (err) e v where "m w = Some (Err e, v)" and "h e v = Some (r, w')"
  using assms by (auto simp: chk_def split: option.splits prod.splits result.splits)

text \<open>Two strings split at the first occurrence of a separator.\<close>

lemma split_first:
  "c \<notin> set xs \<Longrightarrow> c \<notin> set ys \<Longrightarrow> xs @ c # a = ys @ c # b \<longleftrightarrow> xs = ys \<and> a = b"
proof (induction xs arbitrary: ys)
  case Nil
  then show ?case by (cases ys) auto
next
  case (Cons x xs)
  then show ?case by (cases ys) auto
qed

end
