(* ===== verification/NonceSpec.thy ===== *)
theory NonceSpec
  imports Prelude
begin

text \<open>
  The contract of \<open>pkg/nonce/nonce.go\<close>: what \<open>Manager.Acquire\<close> and the three ways to resolve
  a \<open>Slot\<close> promise, as an abstract counter, and the interface between a nonce manager and
  its client as a locale whose laws the two managers discharge.
\<close>

section \<open>The abstract counter\<close>

text \<open>
  The counter is either known, so that the next \<open>Acquire\<close> hands out that nonce, or has to be
  fetched from the chain.
\<close>

datatype counter = Fetch | Next u64

text \<open>The three methods of the interface \<open>Slot\<close>.\<close>

datatype resolution = Commit | Reuse | Reclaim

text \<open>
  Their documented effect on the counter when the slot carries nonce \<open>n\<close>: \<open>Commit\<close> advances to
  \<open>n + 1\<close>, \<open>Reuse\<close> stays at \<open>n\<close>, \<open>Reclaim\<close> marks the counter for a re-fetch.
\<close>

fun resolve :: "u64 \<Rightarrow> resolution \<Rightarrow> counter" where
  "resolve n Commit = Next (n + 1)"
| "resolve n Reuse = Next n"
| "resolve n Reclaim = Fetch"

text \<open>A counter admits the nonce that an \<open>Acquire\<close> hands out.\<close>

fun admits :: "counter \<Rightarrow> u64 \<Rightarrow> bool" where
  "admits Fetch n = True"
| "admits (Next k) n = (n = k)"

text \<open>
  A sequence of acquire/resolve cycles: the nonces handed out are the ones the counter admits.
\<close>

fun spec_run :: "counter \<Rightarrow> resolution list \<Rightarrow> u64 list \<Rightarrow> counter \<Rightarrow> bool" where
  "spec_run c [] [] c' = (c' = c)"
| "spec_run c (r # rs) (n # ns) c' = (admits c n \<and> spec_run (resolve n r) rs ns c')"
| "spec_run c _ _ c' = False"

text \<open>The nonces of the committed cycles, those whose transaction was broadcast.\<close>

fun committed :: "resolution list \<Rightarrow> u64 list \<Rightarrow> u64 list" where
  "committed (Commit # rs) (n # ns) = n # committed rs ns"
| "committed (_ # rs) (n # ns) = committed rs ns"
| "committed _ _ = []"

lemma spec_run_length: "spec_run c rs ns c' \<Longrightarrow> length ns = length rs"
  by (induction c rs ns c' rule: spec_run.induct) auto

text \<open>
  As long as no broadcast fails, the committed nonces are consecutive, with neither a gap nor
  a repetition, whatever cycles were given back in between.
\<close>

lemma spec_run_committed:
  "spec_run (Next k) rs ns c' \<Longrightarrow> Reclaim \<notin> set rs \<Longrightarrow>
     committed rs ns = map (\<lambda>i. k + of_nat i) [0..<length (committed rs ns)] \<and>
     c' = Next (k + of_nat (length (committed rs ns)))"
proof (induction rs arbitrary: k ns)
  case Nil
  then show ?case by (cases ns) auto
next
  case (Cons r rs)
  then obtain n ns' where ns: "ns = n # ns'" by (cases ns) auto
  with Cons.prems have n: "n = k" and rest: "spec_run (resolve k r) rs ns' c'" by auto
  show ?case
  proof (cases r)
    case Commit
    with rest have run: "spec_run (Next (k + 1)) rs ns' c'" by simp
    from Cons.IH [OF run] Cons.prems(2)
    have comm: "committed rs ns' = map (\<lambda>i. k + 1 + of_nat i) [0..<length (committed rs ns')]"
      and c': "c' = Next (k + 1 + of_nat (length (committed rs ns')))" by auto
    have "map (\<lambda>i. k + of_nat i) [0..<Suc (length (committed rs ns'))] =
        k # map (\<lambda>i. k + 1 + of_nat i) [0..<length (committed rs ns')]"
      by (simp add: upt_conv_Cons map_Suc_upt [symmetric] add_ac del: upt_Suc)
    with comm have "k # committed rs ns' = map (\<lambda>i. k + of_nat i) [0..<Suc (length (committed rs ns'))]"
      by simp
    with Commit ns n c' show ?thesis by (simp add: add_ac)
  next
    case Reuse
    with Cons.IH [of k ns'] rest Cons.prems(2) ns n show ?thesis by simp
  next
    case Reclaim
    with Cons.prems(2) show ?thesis by simp
  qed
qed

section \<open>Slots\<close>

text \<open>
  Both managers hand out slots with an atomic \<open>resolved\<close> flag. A slot is the index of its
  flag; the unresolved ones are the slots outstanding.
\<close>

definition unresolved :: "bool list \<Rightarrow> nat set" where
  "unresolved fs = {k. k < length fs \<and> \<not> fs ! k}"

lemma unresolved_Nil [simp]: "unresolved [] = {}"
  by (simp add: unresolved_def)

lemma unresolved_append [simp]: "unresolved (fs @ [False]) = insert (length fs) (unresolved fs)"
  by (auto simp: unresolved_def nth_append less_Suc_eq)

lemma unresolved_update [simp]: "unresolved (fs[k := True]) = unresolved fs - {k}"
  by (cases "k < length fs") (auto simp: unresolved_def nth_list_update list_update_beyond split: if_splits)

lemma unresolved_iff: "k \<in> unresolved fs \<longleftrightarrow> k < length fs \<and> \<not> fs ! k"
  by (simp add: unresolved_def)

section \<open>The client of a nonce manager\<close>

text \<open>
  A client that runs its cycles one after the other: acquire a slot, resolve it, go on; an
  error of \<open>Acquire\<close> ends the session.
\<close>

fun session :: "('w, u64 \<times> 's) prog \<Rightarrow> (resolution \<Rightarrow> 's \<Rightarrow> ('w, unit) prog) \<Rightarrow> resolution list \<Rightarrow> ('w, u64 list) prog" where
  "session acq res [] = gret []"
| "session acq res (r # rs) =
     chk acq gfail (\<lambda>(n, s).
       chk (res r s) gfail (\<lambda>_.
         chk (session acq res rs) gfail (\<lambda>ns. gret (n # ns))))"

text \<open>
  The interface. \<open>idle\<close> says that no slot is outstanding, \<open>holds\<close> that a slot is outstanding
  with its nonce, \<open>settled\<close> that a slot has been resolved; \<open>ctr\<close> reads the counter, and
  \<open>supported\<close> bounds the nonces for which the slot methods work.
\<close>

locale nonce_manager =
  fixes acq :: "('w, u64 \<times> 's) prog"
    and res :: "resolution \<Rightarrow> 's \<Rightarrow> ('w, unit) prog"
    and ctr :: "'w \<Rightarrow> counter"
    and idle :: "'w \<Rightarrow> bool"
    and holds :: "'w \<Rightarrow> 's \<Rightarrow> u64 \<Rightarrow> bool"
    and settled :: "'w \<Rightarrow> 's \<Rightarrow> bool"
    and supported :: "u64 \<Rightarrow> bool"
  assumes acq_ok: "idle w \<Longrightarrow> acq w = Some (Ok (n, s), w') \<Longrightarrow> admits (ctr w) n \<and> holds w' s n"
    and res_ok: "holds w s n \<Longrightarrow> supported n \<Longrightarrow>
      \<exists>w'. res r s w = Some (Ok (), w') \<and> idle w' \<and> ctr w' = resolve n r \<and> settled w' s"
    and res_again: "settled w s \<Longrightarrow> res r s w = Some (Ok (), w)"
begin

lemma cycle:
  assumes "idle w" and "acq w = Some (Ok (n, s), w')" and "supported n"
  obtains w'' where "res r s w' = Some (Ok (), w'')" and "idle w''" and "ctr w'' = resolve n r"
  using acq_ok [OF assms(1,2)] assms(3) res_ok [of w' s n r] by blast

lemma session_spec:
  "idle w \<Longrightarrow> session acq res rs w = Some (Ok ns, w') \<Longrightarrow> \<forall>n \<in> set ns. supported n \<Longrightarrow>
     spec_run (ctr w) rs ns (ctr w') \<and> idle w'"
proof (induction rs arbitrary: w ns)
  case Nil
  then show ?case by (auto simp: gret_def)
next
  case (Cons r rs)
  from Cons.prems(2) obtain n s v where acq: "acq w = Some (Ok (n, s), v)"
    and k: "chk (res r s) gfail
      (\<lambda>_. chk (session acq res rs) gfail (\<lambda>ns. gret (n # ns))) v = Some (Ok ns, w')"
    by (auto elim!: chk_OkE simp: gfail_def)
  from k obtain u where res: "res r s v = Some (Ok (), u)"
    and run: "session acq res rs u = Some (Ok (tl ns), w')" and ns: "ns = n # tl ns"
    by (auto elim!: chk_OkE simp: gfail_def gret_def)
  from ns Cons.prems(3) have sup: "supported n" "\<forall>n \<in> set (tl ns). supported n"
    by (metis list.set_intros)+
  from cycle [OF Cons.prems(1) acq sup(1), of r] res have idle: "idle u" and ctr: "ctr u = resolve n r"
    by auto
  from Cons.IH [OF idle run sup(2)] have "spec_run (resolve n r) rs (tl ns) (ctr w')" and "idle w'"
    by (auto simp: ctr)
  with acq_ok [OF Cons.prems(1) acq] show ?case by (subst ns) simp
qed

lemma session_consecutive:
  assumes "idle w" and "ctr w = Next k" and "session acq res rs w = Some (Ok ns, w')"
    and "\<forall>n \<in> set ns. supported n" and "Reclaim \<notin> set rs"
  shows "committed rs ns = map (\<lambda>i. k + of_nat i) [0..<length (committed rs ns)] \<and>
    ctr w' = Next (k + of_nat (length (committed rs ns)))"
  using session_spec [OF assms(1,3,4)] spec_run_committed [of k rs ns "ctr w'"] assms(2,5) by simp

end

text \<open>
  A manager whose failed \<open>Acquire\<close> changes nothing that a later call can see.
\<close>

locale strict_nonce_manager = nonce_manager +
  assumes acq_err: "idle w \<Longrightarrow> acq w = Some (Err e, w') \<Longrightarrow> idle w' \<and> ctr w' = ctr w"
begin

lemma retry_after_error:
  assumes "idle w" and "acq w = Some (Err e, w')" and "acq w' = Some (Ok (n, s), w'')"
  shows "admits (ctr w) n"
  using acq_err [OF assms(1,2)] acq_ok [of w' n s w''] assms(3) by simp

end

end
