(* ===== verification/LocalNonce.thy ===== *)
theory LocalNonce
  imports NonceSpec
begin

text \<open>
  The in-process nonce manager of \<open>pkg/nonce/local\<close>: its state, \<open>NewNonceManager\<close>, \<open>Init\<close>,
  \<open>Acquire\<close>, \<open>Reset\<close>, \<open>nextNonce\<close> and the three methods of its slot, as handlers over an
  explicit world, and the proof that they implement the contract of \<open>NonceSpec\<close>.
  The interleavings of several goroutines are in \<open>LocalConc\<close>.
\<close>

section \<open>The environment of a manager\<close>

text \<open>
  \<open>internal/nonce.Source\<close> is an interface with one method, \<open>PendingNonceAt\<close>; a value of the
  interface is that method, over the environment \<open>'e\<close>, and a nil interface is \<open>None\<close>.
  A \<open>select\<close> between \<open>ctx.Done()\<close> and another case asks the context which one is taken: an
  error is the \<open>Done\<close> case with \<open>ctx.Err()\<close>, \<open>None\<close> is the other case (a channel, or a timer
  with its duration in nanoseconds).
\<close>

datatype select_other = OnChannel | OnTimer int

type_synonym 'e ctx = "select_other \<Rightarrow> 'e \<Rightarrow> gerr option \<times> 'e"

type_synonym 'e source = "'e ctx \<Rightarrow> address \<Rightarrow> ('e, u64) prog"

text \<open>\<open>internal/nonce.DefaultStaleNonceDelay\<close>, 500 ms in nanoseconds.\<close>

definition DefaultStaleNonceDelay :: int where
  "DefaultStaleNonceDelay = 500 * 1000000"

section \<open>The state of the manager\<close>

text \<open>
  \<open>inflightCh\<close> is the number of tokens buffered in the channel of capacity one. The mutex
  \<open>mu\<close> has no field: a section it guards is one step of the handler.
\<close>

record 'e local_nm =
  source :: "'e source option"
  nm_address :: address
  staleNonceDelay :: int
  nonce :: u64
  hasNonce :: bool
  dirty :: bool
  inflightCh :: nat

definition NewNonceManager :: "int \<Rightarrow> 'e local_nm" where
  "NewNonceManager optStaleNonceDelay =
     \<lparr>source = None, nm_address = 0,
      staleNonceDelay = (if optStaleNonceDelay \<le> 0 then DefaultStaleNonceDelay else optStaleNonceDelay),
      nonce = 0, hasNonce = False, dirty = False, inflightCh = 1\<rparr>"

definition Init :: "'e source option \<Rightarrow> int option \<Rightarrow> address \<Rightarrow> 'e local_nm \<Rightarrow> unit result \<times> 'e local_nm" where
  "Init src chainID a m =
     (if src = None then (Err (errmsg ''source is required''), m)
      else if chainID = None then (Err (errmsg ''chain ID is required''), m)
      else if a = 0 then (Err (errmsg ''address is required''), m)
      else (Ok (), m\<lparr>source := src, nm_address := a\<rparr>))"

text \<open>
  The world of a manager: its state, one \<open>resolved\<close> flag for every slot it has handed out
  (a slot is the index of its flag), and the environment.
\<close>

record 'e local_world =
  mgr :: "'e local_nm"
  slots :: "bool list"
  env :: 'e

section \<open>Acquire\<close>

text \<open>\<open>m.source.PendingNonceAt(ctx, m.address)\<close>; calling a nil interface panics.\<close>

definition fetch_pending :: "'e ctx \<Rightarrow> ('e local_world, u64) prog" where
  "fetch_pending ctx w =
     (case source (mgr w) of
        None \<Rightarrow> Some (Panic ''nil pointer dereference'', w)
      | Some f \<Rightarrow>
          (case f ctx (nm_address (mgr w)) (env w) of
             None \<Rightarrow> None
           | Some (r, e) \<Rightarrow> Some (r, w\<lparr>env := e\<rparr>)))"

text \<open>\<open>m.inflightCh <- struct{}{}\<close> blocks while the buffer is full.\<close>

definition send_token :: "('e local_world, unit) prog" where
  "send_token w =
     (if inflightCh (mgr w) = 0 then Some (Ok (), w\<lparr>mgr := (mgr w)\<lparr>inflightCh := 1\<rparr>\<rparr>) else None)"

definition nextNonce :: "'e ctx \<Rightarrow> ('e local_world, u64) prog" where
  "nextNonce ctx w =
     (let m = mgr w in
      if dirty m then
        (case ctx (OnTimer (staleNonceDelay m)) (env w) of
           (Some e, v) \<Rightarrow> Some (Err e, w\<lparr>env := v\<rparr>)
         | (None, v) \<Rightarrow>
             chk (fetch_pending ctx) gfail
               (\<lambda>n w. Some (Ok n, w\<lparr>mgr := (mgr w)\<lparr>nonce := n, hasNonce := True, dirty := False\<rparr>\<rparr>))
               (w\<lparr>env := v\<rparr>))
      else if \<not> hasNonce m then
        chk (fetch_pending ctx) gfail
          (\<lambda>n w. Some (Ok n, w\<lparr>mgr := (mgr w)\<lparr>nonce := n, hasNonce := True\<rparr>\<rparr>)) w
      else
        Some (Ok (nonce m + 1), w\<lparr>mgr := m\<lparr>nonce := nonce m + 1\<rparr>\<rparr>))"

definition Acquire :: "'e ctx \<Rightarrow> ('e local_world, u64 \<times> nat) prog" where
  "Acquire ctx w =
     (if source (mgr w) = None then Some (Err (errmsg ''nonce source required''), w)
      else
        (case ctx OnChannel (env w) of
           (Some e, v) \<Rightarrow> Some (Err e, w\<lparr>env := v\<rparr>)
         | (None, v) \<Rightarrow>
             (if inflightCh (mgr w) = 0 then None
              else
                chk (nextNonce ctx)
                  (\<lambda>e. chk send_token gfail (\<lambda>_. gfail (wrapf ''failed to fetch nonce: %w'' e)))
                  (\<lambda>n w. Some (Ok (n, length (slots w)), w\<lparr>slots := slots w @ [False]\<rparr>))
                  (w\<lparr>env := v, mgr := (mgr w)\<lparr>inflightCh := 0\<rparr>\<rparr>))))"

definition Reset :: "('e local_world, unit) prog" where
  "Reset w = Some (Ok (), w)"

section \<open>The slot\<close>

text \<open>
  \<open>s.resolved.CompareAndSwap(false, true)\<close> guards each method; a slot handed out by this
  manager is an index below \<open>length (slots w)\<close>.
\<close>

definition slot_Commit :: "nat \<Rightarrow> ('e local_world, unit) prog" where
  "slot_Commit s w =
     (if slots w ! s then Some (Ok (), w) else send_token (w\<lparr>slots := (slots w)[s := True]\<rparr>))"

definition slot_Reuse :: "nat \<Rightarrow> ('e local_world, unit) prog" where
  "slot_Reuse s w =
     (if slots w ! s then Some (Ok (), w)
      else
        (let m = mgr w;
             m' = (if hasNonce m then m\<lparr>nonce := nonce m - 1\<rparr> else m)
         in send_token (w\<lparr>slots := (slots w)[s := True], mgr := m'\<rparr>)))"

definition slot_Reclaim :: "nat \<Rightarrow> ('e local_world, unit) prog" where
  "slot_Reclaim s w =
     (if slots w ! s then Some (Ok (), w)
      else send_token (w\<lparr>slots := (slots w)[s := True], mgr := (mgr w)\<lparr>dirty := True\<rparr>\<rparr>))"

fun slot_resolve :: "resolution \<Rightarrow> nat \<Rightarrow> ('e local_world, unit) prog" where
  "slot_resolve Commit = slot_Commit"
| "slot_resolve Reuse = slot_Reuse"
| "slot_resolve Reclaim = slot_Reclaim"

section \<open>What the fields mean\<close>

definition counter_of :: "'e local_nm \<Rightarrow> counter" where
  "counter_of m = (if dirty m \<or> \<not> hasNonce m then Fetch else Next (nonce m + 1))"

definition is_idle :: "'e local_world \<Rightarrow> bool" where
  "is_idle w \<longleftrightarrow> inflightCh (mgr w) = 1 \<and> unresolved (slots w) = {}"

definition holds_slot :: "'e local_world \<Rightarrow> nat \<Rightarrow> u64 \<Rightarrow> bool" where
  "holds_slot w s n \<longleftrightarrow>
     inflightCh (mgr w) = 0 \<and> unresolved (slots w) = {s} \<and>
     hasNonce (mgr w) \<and> \<not> dirty (mgr w) \<and> nonce (mgr w) = n"

definition is_settled :: "'e local_world \<Rightarrow> nat \<Rightarrow> bool" where
  "is_settled w s \<longleftrightarrow> s < length (slots w) \<and> slots w ! s"

lemmas local_defs = counter_of_def is_idle_def holds_slot_def is_settled_def

lemma counter_of_inflightCh [simp]: "counter_of (m\<lparr>inflightCh := c\<rparr>) = counter_of m"
  by (simp add: counter_of_def)

text \<open>How each primitive of the handlers runs, when it returns.\<close>

lemma fetch_pending_run:
  "fetch_pending ctx w = Some (r, w') \<Longrightarrow> mgr w' = mgr w \<and> slots w' = slots w"
  by (auto simp: fetch_pending_def split: option.splits prod.splits)

lemma send_token_run [simp]:
  "inflightCh (mgr w) = 0 \<Longrightarrow> send_token w = Some (Ok (), w\<lparr>mgr := (mgr w)\<lparr>inflightCh := 1\<rparr>\<rparr>)"
  by (simp add: send_token_def)

lemma nextNonce_ok:
  assumes "nextNonce ctx w = Some (Ok n, w')"
  shows "admits (counter_of (mgr w)) n \<and> slots w' = slots w \<and>
    inflightCh (mgr w') = inflightCh (mgr w) \<and>
    hasNonce (mgr w') \<and> \<not> dirty (mgr w') \<and> nonce (mgr w') = n"
  using assms
  by (auto simp: nextNonce_def counter_of_def Let_def gfail_def elim!: chk_OkE
      dest!: fetch_pending_run split: if_splits prod.splits option.splits)

lemma nextNonce_err:
  assumes "nextNonce ctx w = Some (Err e, w')"
  shows "slots w' = slots w \<and> mgr w' = mgr w"
  using assms
  by (auto simp: nextNonce_def Let_def elim!: chk_ErrE
      dest!: fetch_pending_run split: if_splits prod.splits option.splits)

section \<open>The contract\<close>

lemma Acquire_ok:
  assumes "is_idle w" and "Acquire ctx w = Some (Ok (n, s), w')"
  shows "admits (counter_of (mgr w)) n \<and> holds_slot w' s n"
proof -
  from assms obtain v u where
    nn: "nextNonce ctx (w\<lparr>env := v, mgr := (mgr w)\<lparr>inflightCh := 0\<rparr>\<rparr>) = Some (Ok n, u)"
    and s: "s = length (slots u)" and w': "w' = u\<lparr>slots := slots u @ [False]\<rparr>"
    by (auto simp: Acquire_def gfail_def is_idle_def split: if_splits prod.splits option.splits
        elim!: chk_OkE)
  from nextNonce_ok [OF nn] assms(1) s w' show ?thesis
    by (simp add: is_idle_def holds_slot_def)
qed

lemma Acquire_err:
  assumes "is_idle w" and "Acquire ctx w = Some (Err e, w')"
  shows "is_idle w' \<and> counter_of (mgr w') = counter_of (mgr w)"
  using assms
  by (auto simp: Acquire_def chk_def gfail_def send_token_def local_defs
      dest!: nextNonce_err split: if_splits prod.splits option.splits result.splits)

lemma slot_resolve_ok:
  assumes "holds_slot w s n"
  shows "\<exists>w'. slot_resolve r s w = Some (Ok (), w') \<and> is_idle w' \<and>
    counter_of (mgr w') = resolve n r \<and> is_settled w' s"
proof -
  from assms have "s \<in> unresolved (slots w)" by (simp add: holds_slot_def)
  then have "s < length (slots w)" and "\<not> slots w ! s" by (simp_all add: unresolved_iff)
  with assms show ?thesis
    by (cases r) (auto simp: slot_Commit_def slot_Reuse_def slot_Reclaim_def local_defs Let_def)
qed

lemma slot_resolve_settled: "is_settled w s \<Longrightarrow> slot_resolve r s w = Some (Ok (), w)"
  by (cases r) (simp_all add: is_settled_def slot_Commit_def slot_Reuse_def slot_Reclaim_def)

interpretation lm: strict_nonce_manager "Acquire ctx" slot_resolve "\<lambda>w. counter_of (mgr w)"
    is_idle holds_slot is_settled "\<lambda>_. True" for ctx
  by unfold_locales
    (use Acquire_ok Acquire_err slot_resolve_ok slot_resolve_settled in blast)+

end
