(* ===== verification/LocalConc.thy ===== *)
theory LocalConc
  imports LocalNonce
begin

text \<open>
  Goroutines sharing one local nonce manager, one atomic section at a time: a section guarded
  by \<open>mu\<close>, a channel operation, a compare-and-swap, a \<open>select\<close> or a call of the source is one
  step; any goroutine may move next, and the environment may change between two steps.
  The result is that every interleaving is a history of the contract of \<open>NonceSpec\<close>.
\<close>

section \<open>Goroutines\<close>

text \<open>
  Where a goroutine is in \<open>Acquire\<close>, \<open>nextNonce\<close> and the slot methods; \<open>Idle\<close> is outside
  the manager. \<open>ResCas r k\<close> is about to run the compare-and-swap of method \<open>r\<close> on slot \<open>k\<close>.
\<close>

datatype pc =
    Idle | AcqCheck | AcqSelect | NextRead
  | DirtyWait | DirtyFetch | DirtyStore u64 | SeedFetch | SeedStore u64 | Bump
  | AcqReturn u64 | AcqFail gerr
  | ResCas resolution nat | ResUpd resolution | ResSend

text \<open>What a step shows: nothing, a nonce decided by \<open>nextNonce\<close>, or a slot resolved.\<close>

datatype event = Tau | Hand u64 | Resolved resolution

type_synonym 'e conc = "'e local_world \<times> (nat \<Rightarrow> pc)"

inductive lstep :: "(nat \<Rightarrow> 'e ctx) \<Rightarrow> 'e conc \<Rightarrow> event \<Rightarrow> 'e conc \<Rightarrow> bool" for ctxs where
  environment: "lstep ctxs (w, P) Tau (w\<lparr>env := e\<rparr>, P)"
| initialise: "Init src chainID a (mgr w) = (r, m) \<Longrightarrow> lstep ctxs (w, P) Tau (w\<lparr>mgr := m\<rparr>, P)"
| call_acquire: "P t = Idle \<Longrightarrow> lstep ctxs (w, P) Tau (w, P(t := AcqCheck))"
| call_resolve: "P t = Idle \<Longrightarrow> k < length (slots w) \<Longrightarrow> lstep ctxs (w, P) Tau (w, P(t := ResCas r k))"
| check_nil: "P t = AcqCheck \<Longrightarrow> source (mgr w) = None \<Longrightarrow> lstep ctxs (w, P) Tau (w, P(t := Idle))"
| check_ok: "P t = AcqCheck \<Longrightarrow> source (mgr w) \<noteq> None \<Longrightarrow> lstep ctxs (w, P) Tau (w, P(t := AcqSelect))"
| select_done: "P t = AcqSelect \<Longrightarrow> ctxs t OnChannel (env w) = (Some e, v) \<Longrightarrow>
    lstep ctxs (w, P) Tau (w\<lparr>env := v\<rparr>, P(t := Idle))"
| select_token: "P t = AcqSelect \<Longrightarrow> ctxs t OnChannel (env w) = (None, v) \<Longrightarrow> inflightCh (mgr w) = Suc c \<Longrightarrow>
    lstep ctxs (w, P) Tau (w\<lparr>env := v, mgr := (mgr w)\<lparr>inflightCh := c\<rparr>\<rparr>, P(t := NextRead))"
| read_dirty: "P t = NextRead \<Longrightarrow> dirty (mgr w) \<Longrightarrow> lstep ctxs (w, P) Tau (w, P(t := DirtyWait))"
| read_seed: "P t = NextRead \<Longrightarrow> \<not> dirty (mgr w) \<Longrightarrow> \<not> hasNonce (mgr w) \<Longrightarrow>
    lstep ctxs (w, P) Tau (w, P(t := SeedFetch))"
| read_bump: "P t = NextRead \<Longrightarrow> \<not> dirty (mgr w) \<Longrightarrow> hasNonce (mgr w) \<Longrightarrow>
    lstep ctxs (w, P) Tau (w, P(t := Bump))"
| wait_done: "P t = DirtyWait \<Longrightarrow> ctxs t (OnTimer (staleNonceDelay (mgr w))) (env w) = (Some e, v) \<Longrightarrow>
    lstep ctxs (w, P) Tau (w\<lparr>env := v\<rparr>, P(t := AcqFail e))"
| wait_timer: "P t = DirtyWait \<Longrightarrow> ctxs t (OnTimer (staleNonceDelay (mgr w))) (env w) = (None, v) \<Longrightarrow>
    lstep ctxs (w, P) Tau (w\<lparr>env := v\<rparr>, P(t := DirtyFetch))"
| dirty_fetched: "P t = DirtyFetch \<Longrightarrow> fetch_pending (ctxs t) w = Some (Ok n, w') \<Longrightarrow>
    lstep ctxs (w, P) Tau (w', P(t := DirtyStore n))"
| dirty_failed: "P t = DirtyFetch \<Longrightarrow> fetch_pending (ctxs t) w = Some (Err e, w') \<Longrightarrow>
    lstep ctxs (w, P) Tau (w', P(t := AcqFail e))"
| dirty_store: "P t = DirtyStore n \<Longrightarrow>
    lstep ctxs (w, P) (Hand n)
      (w\<lparr>mgr := (mgr w)\<lparr>nonce := n, hasNonce := True, dirty := False\<rparr>\<rparr>, P(t := AcqReturn n))"
| seed_fetched: "P t = SeedFetch \<Longrightarrow> fetch_pending (ctxs t) w = Some (Ok n, w') \<Longrightarrow>
    lstep ctxs (w, P) Tau (w', P(t := SeedStore n))"
| seed_failed: "P t = SeedFetch \<Longrightarrow> fetch_pending (ctxs t) w = Some (Err e, w') \<Longrightarrow>
    lstep ctxs (w, P) Tau (w', P(t := AcqFail e))"
| seed_store: "P t = SeedStore n \<Longrightarrow>
    lstep ctxs (w, P) (Hand n) (w\<lparr>mgr := (mgr w)\<lparr>nonce := n, hasNonce := True\<rparr>\<rparr>, P(t := AcqReturn n))"
| bump: "P t = Bump \<Longrightarrow>
    lstep ctxs (w, P) (Hand (nonce (mgr w) + 1))
      (w\<lparr>mgr := (mgr w)\<lparr>nonce := nonce (mgr w) + 1\<rparr>\<rparr>, P(t := AcqReturn (nonce (mgr w) + 1)))"
| acq_return: "P t = AcqReturn n \<Longrightarrow> lstep ctxs (w, P) Tau (w\<lparr>slots := slots w @ [False]\<rparr>, P(t := Idle))"
| acq_fail: "P t = AcqFail e \<Longrightarrow> inflightCh (mgr w) = 0 \<Longrightarrow>
    lstep ctxs (w, P) Tau (w\<lparr>mgr := (mgr w)\<lparr>inflightCh := 1\<rparr>\<rparr>, P(t := Idle))"
| cas_lost: "P t = ResCas r k \<Longrightarrow> slots w ! k \<Longrightarrow> lstep ctxs (w, P) Tau (w, P(t := Idle))"
| cas_commit: "P t = ResCas Commit k \<Longrightarrow> \<not> slots w ! k \<Longrightarrow>
    lstep ctxs (w, P) (Resolved Commit) (w\<lparr>slots := (slots w)[k := True]\<rparr>, P(t := ResSend))"
| cas_other: "P t = ResCas r k \<Longrightarrow> r \<noteq> Commit \<Longrightarrow> \<not> slots w ! k \<Longrightarrow>
    lstep ctxs (w, P) Tau (w\<lparr>slots := (slots w)[k := True]\<rparr>, P(t := ResUpd r))"
| update_reuse: "P t = ResUpd Reuse \<Longrightarrow>
    lstep ctxs (w, P) (Resolved Reuse)
      (w\<lparr>mgr := (if hasNonce (mgr w) then (mgr w)\<lparr>nonce := nonce (mgr w) - 1\<rparr> else mgr w)\<rparr>, P(t := ResSend))"
| update_reclaim: "P t = ResUpd Reclaim \<Longrightarrow>
    lstep ctxs (w, P) (Resolved Reclaim) (w\<lparr>mgr := (mgr w)\<lparr>dirty := True\<rparr>\<rparr>, P(t := ResSend))"
| res_send: "P t = ResSend \<Longrightarrow> inflightCh (mgr w) = 0 \<Longrightarrow>
    lstep ctxs (w, P) Tau (w\<lparr>mgr := (mgr w)\<lparr>inflightCh := 1\<rparr>\<rparr>, P(t := Idle))"

text \<open>A history records the visible events of a run.\<close>

definition visible :: "event \<Rightarrow> event list" where
  "visible e = (if e = Tau then [] else [e])"

inductive lrun :: "(nat \<Rightarrow> 'e ctx) \<Rightarrow> 'e conc \<Rightarrow> event list \<Rightarrow> 'e conc \<Rightarrow> bool" for ctxs where
  stop: "lrun ctxs s [] s"
| more: "lrun ctxs s es s' \<Longrightarrow> lstep ctxs s' e s'' \<Longrightarrow> lrun ctxs s (es @ visible e) s''"

text \<open>The start: a new manager, no slot handed out, every goroutine outside.\<close>

definition start :: "int \<Rightarrow> 'e \<Rightarrow> 'e conc" where
  "start delay e = (\<lparr>mgr = NewNonceManager delay, slots = [], env = e\<rparr>, \<lambda>_. Idle)"

section \<open>Ownership of the token\<close>

fun critical :: "pc \<Rightarrow> bool" where
  "critical Idle = False"
| "critical AcqCheck = False"
| "critical AcqSelect = False"
| "critical (ResCas r k) = False"
| "critical _ = True"

text \<open>What the owner may rely on at each point of its critical section.\<close>

fun fields_ok :: "'e local_nm \<Rightarrow> pc \<Rightarrow> bool" where
  "fields_ok m DirtyWait = dirty m"
| "fields_ok m DirtyFetch = dirty m"
| "fields_ok m (DirtyStore n) = dirty m"
| "fields_ok m SeedFetch = (\<not> dirty m \<and> \<not> hasNonce m)"
| "fields_ok m (SeedStore n) = (\<not> dirty m \<and> \<not> hasNonce m)"
| "fields_ok m Bump = (\<not> dirty m \<and> hasNonce m)"
| "fields_ok m (AcqReturn n) = (\<not> dirty m \<and> hasNonce m \<and> nonce m = n)"
| "fields_ok m (ResUpd r) = (\<not> dirty m \<and> hasNonce m \<and> r \<noteq> Commit)"
| "fields_ok m _ = True"

datatype owner = Nobody | Goroutine nat | Slot nat

text \<open>
  Exactly one of these owns the manager at any time: the channel (its token is buffered), a
  goroutine inside its critical section, or a slot that nobody has resolved.
\<close>

definition owned_by :: "owner \<Rightarrow> 'e conc \<Rightarrow> bool" where
  "owned_by own = (\<lambda>(w, P).
     inflightCh (mgr w) = (if own = Nobody then 1 else 0) \<and>
     (\<forall>t. critical (P t) \<longleftrightarrow> own = Goroutine t) \<and>
     (\<forall>k. k \<in> unresolved (slots w) \<longleftrightarrow> own = Slot k) \<and>
     (\<forall>t. fields_ok (mgr w) (P t)) \<and>
     (unresolved (slots w) \<noteq> {} \<longrightarrow> \<not> dirty (mgr w) \<and> hasNonce (mgr w)))"

definition local_inv :: "'e conc \<Rightarrow> bool" where
  "local_inv s \<longleftrightarrow> (\<exists>own. owned_by own s)"

lemma fields_ok_outside: "\<not> critical p \<Longrightarrow> fields_ok m p"
  by (cases p) auto

lemma fields_ok_cong:
  "dirty m' = dirty m \<Longrightarrow> hasNonce m' = hasNonce m \<Longrightarrow> nonce m' = nonce m \<Longrightarrow>
     fields_ok m' p = fields_ok m p"
  by (cases p) auto

text \<open>The six ways a step moves or keeps the ownership.\<close>

lemma owner_goroutine: "owned_by own (w, P) \<Longrightarrow> critical (P t) \<Longrightarrow> own = Goroutine t"
  by (simp add: owned_by_def)

lemma own_stay:
  assumes "owned_by (Goroutine t) (w, P)" and "critical p" and "fields_ok (mgr w') p"
    and "slots w' = slots w" and "inflightCh (mgr w') = inflightCh (mgr w)"
  shows "owned_by (Goroutine t) (w', P(t := p))"
  using assms unfolding owned_by_def by (auto simp: fields_ok_outside split: if_splits)

lemma own_outside:
  assumes "owned_by own (w, P)" and "\<not> critical (P t)" and "\<not> critical p"
    and "mgr w' = mgr w" and "slots w' = slots w"
  shows "owned_by own (w', P(t := p))"
  using assms fields_ok_outside unfolding owned_by_def by (auto split: if_splits)

lemma own_take:
  assumes "owned_by own (w, P)" and "\<not> critical (P t)" and "inflightCh (mgr w) = Suc c"
    and "slots w' = slots w" and "inflightCh (mgr w') = c" and "critical p" and "fields_ok (mgr w') p"
  shows "owned_by (Goroutine t) (w', P(t := p))"
  using assms fields_ok_outside unfolding owned_by_def by (auto split: if_splits)

lemma own_put:
  assumes "owned_by (Goroutine t) (w, P)" and "\<not> critical p"
    and "slots w' = slots w" and "inflightCh (mgr w') = 1"
  shows "owned_by Nobody (w', P(t := p))"
  using assms fields_ok_outside unfolding owned_by_def by (auto split: if_splits)

lemma own_to_slot:
  assumes "owned_by (Goroutine t) (w, P)" and "P t = AcqReturn n"
  shows "owned_by (Slot (length (slots w))) (w\<lparr>slots := slots w @ [False]\<rparr>, P(t := Idle))"
proof -
  from assms have "fields_ok (mgr w) (P t)" unfolding owned_by_def by blast
  with assms show ?thesis
    using fields_ok_outside unfolding owned_by_def by (auto split: if_splits)
qed

lemma own_from_slot:
  assumes "owned_by own (w, P)" and "\<not> critical (P t)" and "k < length (slots w)" and "\<not> slots w ! k"
    and "critical p" and "\<not> dirty (mgr w) \<Longrightarrow> hasNonce (mgr w) \<Longrightarrow> fields_ok (mgr w) p"
  shows "owned_by (Goroutine t) (w\<lparr>slots := (slots w)[k := True]\<rparr>, P(t := p))"
proof -
  from assms(3,4) have "k \<in> unresolved (slots w)" by (simp add: unresolved_iff)
  with assms show ?thesis
    using fields_ok_outside unfolding owned_by_def by (auto split: if_splits)
qed

text \<open>The same moves on the invariant.\<close>

lemma inv_stay:
  assumes "local_inv (w, P)" and "critical (P t)" and "critical p"
    and "fields_ok (mgr w) (P t) \<Longrightarrow> fields_ok (mgr w') p"
    and "slots w' = slots w" and "inflightCh (mgr w') = inflightCh (mgr w)"
  shows "local_inv (w', P(t := p))"
proof -
  from assms(1) obtain own where own: "owned_by own (w, P)" by (auto simp: local_inv_def)
  with assms(2) have "own = Goroutine t" by (simp add: owner_goroutine)
  moreover from own have "fields_ok (mgr w) (P t)" by (simp add: owned_by_def)
  ultimately show ?thesis using own_stay [of t w P p w'] own assms unfolding local_inv_def by blast
qed

lemma inv_outside:
  assumes "local_inv (w, P)" and "\<not> critical (P t)" and "\<not> critical p"
    and "mgr w' = mgr w" and "slots w' = slots w"
  shows "local_inv (w', P(t := p))"
  using assms own_outside unfolding local_inv_def by blast

lemma inv_take:
  assumes "local_inv (w, P)" and "\<not> critical (P t)" and "inflightCh (mgr w) = Suc c"
    and "slots w' = slots w" and "inflightCh (mgr w') = c" and "critical p" and "fields_ok (mgr w') p"
  shows "local_inv (w', P(t := p))"
  using assms own_take unfolding local_inv_def by blast

lemma inv_put:
  assumes "local_inv (w, P)" and "critical (P t)" and "\<not> critical p"
    and "slots w' = slots w" and "inflightCh (mgr w') = 1"
  shows "local_inv (w', P(t := p))"
  using assms own_put owner_goroutine unfolding local_inv_def by blast

lemma inv_return:
  assumes "local_inv (w, P)" and "P t = AcqReturn n"
  shows "local_inv (w\<lparr>slots := slots w @ [False]\<rparr>, P(t := Idle))"
proof -
  from assms(1) obtain own where own: "owned_by own (w, P)" by (auto simp: local_inv_def)
  with assms(2) have "own = Goroutine t" by (simp add: owner_goroutine)
  with own own_to_slot [of t w P n, OF _ assms(2)] show ?thesis unfolding local_inv_def by blast
qed

lemma inv_cas:
  assumes "local_inv (w, P)" and "\<not> critical (P t)" and "k < length (slots w)" and "\<not> slots w ! k"
    and "critical p" and "\<not> dirty (mgr w) \<Longrightarrow> hasNonce (mgr w) \<Longrightarrow> fields_ok (mgr w) p"
  shows "local_inv (w\<lparr>slots := (slots w)[k := True]\<rparr>, P(t := p))"
  using assms own_from_slot unfolding local_inv_def by blast

text \<open>A slot that is about to be resolved exists.\<close>

definition slots_exist :: "'e conc \<Rightarrow> bool" where
  "slots_exist = (\<lambda>(w, P). \<forall>t r k. P t = ResCas r k \<longrightarrow> k < length (slots w))"

lemma slots_exist_step: "lstep ctxs s e s' \<Longrightarrow> slots_exist s \<Longrightarrow> slots_exist s'"
  by (induction rule: lstep.induct)
    (auto simp: slots_exist_def less_Suc_eq dest!: fetch_pending_run)

lemma Init_fields:
  "Init src chainID a m = (r, m') \<Longrightarrow>
     dirty m' = dirty m \<and> hasNonce m' = hasNonce m \<and> nonce m' = nonce m \<and> inflightCh m' = inflightCh m"
  by (auto simp: Init_def split: if_splits)

lemma lstep_inv:
  assumes "lstep ctxs s e s'" and "local_inv s" and "slots_exist s"
  shows "local_inv s'"
  using assms
proof (induction rule: lstep.induct)
  case (environment w P e)
  then show ?case by (simp add: local_inv_def owned_by_def)
next
  case (initialise src chainID a w r m P)
  have "fields_ok m p = fields_ok (mgr w) p" for p
    using Init_fields [OF initialise.hyps] by (intro fields_ok_cong) auto
  with initialise Init_fields [OF initialise.hyps] show ?case
    by (simp add: local_inv_def owned_by_def)
next
  case (select_token P t w v c)
  then show ?case by (intro inv_take [where c = c]) auto
qed ((rule inv_outside, assumption; force) | (rule inv_put, assumption; force) | (rule inv_return; assumption) |
    (rule inv_cas, assumption; force simp: slots_exist_def) | (erule inv_stay; auto dest!: fetch_pending_run))+

text \<open>Hence in every state that a run from the start can reach.\<close>

lemma start_inv: "local_inv (start delay e)"
  by (auto simp: local_inv_def owned_by_def start_def NewNonceManager_def intro!: exI [of _ Nobody])

lemma start_slots_exist: "slots_exist (start delay e)"
  by (simp add: slots_exist_def start_def)

lemma lrun_inv:
  "lrun ctxs s es s' \<Longrightarrow> local_inv s \<Longrightarrow> slots_exist s \<Longrightarrow> local_inv s' \<and> slots_exist s'"
  by (induction rule: lrun.induct) (auto dest: lstep_inv slots_exist_step)

section \<open>Every interleaving is a history of the contract\<close>

text \<open>
  The abstract manager: free with a counter, or held with the nonce it has handed out.
\<close>

datatype spec = Free counter | Held u64

inductive spec_step :: "spec \<Rightarrow> event \<Rightarrow> spec \<Rightarrow> bool" where
  spec_tau: "spec_step x Tau x"
| spec_hand: "admits c n \<Longrightarrow> spec_step (Free c) (Hand n) (Held n)"
| spec_resolve: "spec_step (Held n) (Resolved r) (Free (resolve n r))"

inductive_simps spec_step_Tau [simp]: "spec_step x Tau y"
inductive_simps spec_step_Hand: "spec_step x (Hand n) y"
inductive_simps spec_step_Resolved: "spec_step x (Resolved r) y"

fun handed :: "pc \<Rightarrow> bool" where
  "handed (AcqReturn n) = True"
| "handed (ResUpd r) = True"
| "handed _ = False"

definition spec_of :: "'e conc \<Rightarrow> spec" where
  "spec_of = (\<lambda>(w, P).
     if (\<exists>t. handed (P t)) \<or> unresolved (slots w) \<noteq> {} then Held (nonce (mgr w))
     else Free (counter_of (mgr w)))"

lemma handed_critical: "handed p \<Longrightarrow> critical p"
  by (cases p) auto

text \<open>The abstraction, read off from the owner.\<close>

lemma owned_spec_of:
  assumes "owned_by own (w, P)"
  shows "spec_of (w, P) =
    (case own of
       Nobody \<Rightarrow> Free (counter_of (mgr w))
     | Goroutine t \<Rightarrow> (if handed (P t) then Held (nonce (mgr w)) else Free (counter_of (mgr w)))
     | Slot k \<Rightarrow> Held (nonce (mgr w)))"
proof -
  have handed: "handed (P t) \<Longrightarrow> own = Goroutine t" for t
    using assms handed_critical owner_goroutine by blast
  have slot: "k \<in> unresolved (slots w) \<longleftrightarrow> own = Slot k" for k
    using assms by (simp add: owned_by_def)
  show ?thesis
    using handed slot by (cases own) (auto simp: spec_of_def)
qed

lemma spec_of_critical:
  "local_inv (w, P) \<Longrightarrow> critical (P t) \<Longrightarrow>
     spec_of (w, P) = (if handed (P t) then Held (nonce (mgr w)) else Free (counter_of (mgr w)))"
  using owner_goroutine owned_spec_of unfolding local_inv_def by fastforce

lemma spec_of_slot: "k \<in> unresolved (slots w) \<Longrightarrow> spec_of (w, P) = Held (nonce (mgr w))"
  by (auto simp: spec_of_def)

lemma spec_of_token:
  "local_inv (w, P) \<Longrightarrow> inflightCh (mgr w) = Suc c \<Longrightarrow> spec_of (w, P) = Free (counter_of (mgr w))"
  by (auto simp: local_inv_def owned_spec_of) (auto simp: owned_by_def split: if_splits)

lemma refine_put:
  assumes "local_inv (w, P)" and "critical (P t)" and "\<not> handed (P t)"
    and "local_inv (w\<lparr>mgr := (mgr w)\<lparr>inflightCh := 1\<rparr>\<rparr>, P(t := p))"
  shows "spec_step (spec_of (w, P)) Tau (spec_of (w\<lparr>mgr := (mgr w)\<lparr>inflightCh := 1\<rparr>\<rparr>, P(t := p)))"
  using assms spec_of_critical [of w P t] spec_of_token [OF assms(4), of 0] by simp

lemma spec_of_cas:
  assumes "local_inv (w, P)" and "k \<in> unresolved (slots w)"
    and "local_inv (w\<lparr>slots := fs\<rparr>, P(t := p))" and "critical p"
  shows "spec_of (w, P) = Held (nonce (mgr w)) \<and>
    spec_of (w\<lparr>slots := fs\<rparr>, P(t := p)) =
      (if handed p then Held (nonce (mgr w)) else Free (Next (nonce (mgr w) + 1)))"
  using assms spec_of_slot [OF assms(2)] spec_of_critical [OF assms(3), of t]
  by (auto simp: counter_of_def local_inv_def owned_by_def)

lemma refine_outside:
  assumes "\<not> critical (P t)" and "\<not> critical p" and "mgr w' = mgr w" and "slots w' = slots w"
  shows "spec_step (spec_of (w, P)) Tau (spec_of (w', P(t := p)))"
proof -
  have "(\<exists>u. handed ((P(t := p)) u)) \<longleftrightarrow> (\<exists>u. handed (P u))"
    using assms(1,2) handed_critical by (metis fun_upd_apply)
  with assms(3,4) show ?thesis by (simp add: spec_of_def)
qed

lemma inv_slot_fresh:
  "local_inv (w, P) \<Longrightarrow> k \<in> unresolved (slots w) \<Longrightarrow> \<not> dirty (mgr w) \<and> hasNonce (mgr w)"
  by (auto simp: local_inv_def owned_by_def)

lemma inv_fields_ok: "local_inv (w, P) \<Longrightarrow> fields_ok (mgr w) (P t)"
  by (auto simp: local_inv_def owned_by_def)

lemma refine_inside:
  assumes "local_inv (w, P)" and "critical (P t)" and "local_inv (w', P(t := p))" and "critical p"
    and "fields_ok (mgr w) (P t) \<Longrightarrow>
      spec_step (if handed (P t) then Held (nonce (mgr w)) else Free (counter_of (mgr w))) e
        (if handed p then Held (nonce (mgr w')) else Free (counter_of (mgr w')))"
  shows "spec_step (spec_of (w, P)) e (spec_of (w', P(t := p)))"
  using assms spec_of_critical [of w P t] spec_of_critical [of w' "P(t := p)" t] inv_fields_ok [of w P t]
  by simp

lemma lstep_refines:
  assumes step: "lstep ctxs s e s'" and "local_inv s" and "slots_exist s"
  shows "spec_step (spec_of s) e (spec_of s')"
proof -
  from assms have inv': "local_inv s'" by (rule lstep_inv)
  from step \<open>local_inv s\<close> \<open>slots_exist s\<close> inv' show ?thesis
  proof (induction rule: lstep.induct)
    case (environment w P e)
    then show ?case by (simp add: spec_of_def)
  next
    case (initialise src chainID a w r m P)
    then show ?case using Init_fields [OF initialise.hyps]
      by (simp add: spec_of_def counter_of_def)
  next
    case (select_token P t w v c)
    then have "spec_of (w, P) = Free (counter_of (mgr w))"
      using spec_of_token by blast
    with select_token show ?case
      using spec_of_critical [of "w\<lparr>env := v, mgr := (mgr w)\<lparr>inflightCh := c\<rparr>\<rparr>" "P(t := NextRead)" t] by simp
  next
    case (acq_return P t n w)
    then show ?case
      using spec_of_critical [of w P t]
        spec_of_slot [of "length (slots w)" "w\<lparr>slots := slots w @ [False]\<rparr>"] by simp
  next
    case (cas_commit P t k w)
    then have "k \<in> unresolved (slots w)" by (auto simp: slots_exist_def unresolved_iff)
    with cas_commit show ?case
      using spec_of_cas [of w P k "(slots w)[k := True]" t ResSend] by (simp add: spec_step_Resolved)
  next
    case (cas_other P t r k w)
    then have "k \<in> unresolved (slots w)" by (auto simp: slots_exist_def unresolved_iff)
    with cas_other show ?case
      using spec_of_cas [of w P k "(slots w)[k := True]" t "ResUpd r"] by simp
  qed ((rule refine_put; force) | (rule refine_outside; force) |
      (rule refine_inside; auto simp: counter_of_def spec_step_Hand spec_step_Resolved
         dest!: fetch_pending_run))+
qed

section \<open>Histories\<close>

fun spec_next :: "spec \<Rightarrow> event \<Rightarrow> spec option" where
  "spec_next x Tau = Some x"
| "spec_next (Free c) (Hand n) = (if admits c n then Some (Held n) else None)"
| "spec_next (Held n) (Resolved r) = Some (Free (resolve n r))"
| "spec_next _ _ = None"

fun spec_after :: "spec \<Rightarrow> event list \<Rightarrow> spec option" where
  "spec_after x [] = Some x"
| "spec_after x (e # es) = (case spec_next x e of None \<Rightarrow> None | Some y \<Rightarrow> spec_after y es)"

lemma spec_after_append:
  "spec_after x (es @ fs) = (case spec_after x es of None \<Rightarrow> None | Some y \<Rightarrow> spec_after y fs)"
  by (induction es arbitrary: x) (auto split: option.splits)

lemma spec_step_after: "spec_step x e y \<Longrightarrow> spec_after x (visible e) = Some y"
  by (auto simp: visible_def elim: spec_step.cases)

lemma start_spec_of [simp]: "spec_of (start delay e) = Free Fetch"
  by (simp add: spec_of_def start_def NewNonceManager_def counter_of_def)

lemma lrun_spec_after:
  "lrun ctxs s es s' \<Longrightarrow> local_inv s \<Longrightarrow> slots_exist s \<Longrightarrow> spec_after (spec_of s) es = Some (spec_of s')"
  by (induction rule: lrun.induct)
    (auto simp: spec_after_append dest!: spec_step_after lstep_refines dest: lrun_inv)

text \<open>The history of a sequence of complete acquire/resolve cycles.\<close>

fun cycles :: "resolution list \<Rightarrow> u64 list \<Rightarrow> event list" where
  "cycles (r # rs) (n # ns) = Hand n # Resolved r # cycles rs ns"
| "cycles _ _ = []"

lemma spec_after_cycles:
  assumes "spec_after (Free c) es = Some x" and "Tau \<notin> set es"
  shows "\<exists>rs ns c'. spec_run c rs ns c' \<and>
    (es = cycles rs ns \<and> x = Free c' \<or> (\<exists>n. admits c' n \<and> es = cycles rs ns @ [Hand n] \<and> x = Held n))"
  using assms
proof (induction es arbitrary: c rule: length_induct)
  case (1 es)
  show ?case
  proof (cases es)
    case Nil
    with 1 show ?thesis by (intro exI [of _ "[]"]) auto
  next
    case (Cons e es')
    with 1 obtain n where e: "e = Hand n" and adm: "admits c n"
      and rest: "spec_after (Held n) es' = Some x"
      by (cases e) (auto split: if_splits)
    show ?thesis
    proof (cases es')
      case Nil
      with rest e adm Cons show ?thesis by (intro exI [of _ "[]"] exI [of _ c]) auto
    next
      case (Cons f es'')
      with rest 1 \<open>es = e # es'\<close> obtain r where f: "f = Resolved r"
        and tail: "spec_after (Free (resolve n r)) es'' = Some x" and "Tau \<notin> set es''"
        by (cases f) auto
      with "1.IH" [rule_format, of es'' "resolve n r"] \<open>es = e # es'\<close> Cons obtain rs ns c'
        where "spec_run (resolve n r) rs ns c'"
          and "es'' = cycles rs ns \<and> x = Free c' \<or>
            (\<exists>k. admits c' k \<and> es'' = cycles rs ns @ [Hand k] \<and> x = Held k)" by auto
      with e f adm Cons \<open>es = e # es'\<close> show ?thesis
        by (intro exI [of _ "r # rs"] exI [of _ "n # ns"] exI [of _ c']) auto
    qed
  qed
qed

lemma lrun_visible: "lrun ctxs s es s' \<Longrightarrow> Tau \<notin> set es"
  by (induction rule: lrun.induct) (auto simp: visible_def split: if_splits)

lemma lrun_cycles:
  assumes "lrun ctxs (start delay e) es s'"
  shows "\<exists>rs ns c'. spec_run Fetch rs ns c' \<and>
    (es = cycles rs ns \<and> spec_of s' = Free c' \<or>
     (\<exists>n. admits c' n \<and> es = cycles rs ns @ [Hand n] \<and> spec_of s' = Held n))"
  using spec_after_cycles [of Fetch es "spec_of s'"] lrun_spec_after [OF assms start_inv start_slots_exist]
    lrun_visible [OF assms] by simp

section \<open>The handlers are runs of one goroutine\<close>

lemma lrun_trans: "lrun ctxs s' fs s'' \<Longrightarrow> lrun ctxs s es s' \<Longrightarrow> lrun ctxs s (es @ fs) s''"
  by (induction rule: lrun.induct) (auto simp: append_assoc [symmetric] simp del: append_assoc intro: more)

lemma lrun_first: "lstep ctxs s e s' \<Longrightarrow> lrun ctxs s' es s'' \<Longrightarrow> lrun ctxs s (visible e @ es) s''"
  using lrun_trans [of ctxs s' es s'' s "visible e"] more [OF stop, of ctxs s e s'] by simp

lemma lrun_tau: "lstep ctxs s Tau s' \<Longrightarrow> lrun ctxs s' es s'' \<Longrightarrow> lrun ctxs s es s''"
  using lrun_first [of ctxs s Tau s' es s''] by (simp add: visible_def)

lemma lrun_show: "lstep ctxs s e s' \<Longrightarrow> e \<noteq> Tau \<Longrightarrow> lrun ctxs s [e] s'"
  using more [OF stop, of ctxs s e s'] by (simp add: visible_def)

text \<open>One goroutine inside \<open>nextNonce\<close>: each step moves its program counter from \<open>a\<close> to \<open>b\<close>.\<close>

lemma nextNonce_run_dirty:
  assumes "nextNonce (ctxs t) w = Some (Ok n, w')" and dirty: "dirty (mgr w)"
  shows "lrun ctxs (w, P(t := NextRead)) [Hand n] (w', P(t := AcqReturn n))"
proof -
  from assms obtain v u where timer: "ctxs t (OnTimer (staleNonceDelay (mgr w))) (env w) = (None, v)"
    and fetch: "fetch_pending (ctxs t) (w\<lparr>env := v\<rparr>) = Some (Ok n, u)"
    and w': "w' = u\<lparr>mgr := (mgr u)\<lparr>nonce := n, hasNonce := True, dirty := False\<rparr>\<rparr>"
    by (auto simp: nextNonce_def Let_def gfail_def elim!: chk_OkE split: prod.splits option.splits)
  have "lstep ctxs (w, P(t := NextRead)) Tau (w, P(t := DirtyWait))"
    using read_dirty [of "P(t := NextRead)" t w ctxs] dirty by simp
  moreover have "lstep ctxs (w, P(t := DirtyWait)) Tau (w\<lparr>env := v\<rparr>, P(t := DirtyFetch))"
    using wait_timer [of "P(t := DirtyWait)" t ctxs w v] timer by simp
  moreover have "lstep ctxs (w\<lparr>env := v\<rparr>, P(t := DirtyFetch)) Tau (u, P(t := DirtyStore n))"
    using dirty_fetched [of "P(t := DirtyFetch)" t ctxs "w\<lparr>env := v\<rparr>" n u] fetch by simp
  moreover have "lstep ctxs (u, P(t := DirtyStore n)) (Hand n) (w', P(t := AcqReturn n))"
    using dirty_store [of "P(t := DirtyStore n)" t n ctxs u] w' by simp
  ultimately show ?thesis by (blast intro: lrun_tau lrun_show)
qed

lemma nextNonce_run_bump:
  assumes "nextNonce (ctxs t) w = Some (Ok n, w')" and clean: "\<not> dirty (mgr w)" and has: "hasNonce (mgr w)"
  shows "lrun ctxs (w, P(t := NextRead)) [Hand n] (w', P(t := AcqReturn n))"
proof -
  from assms have n: "n = nonce (mgr w) + 1" and w': "w' = w\<lparr>mgr := (mgr w)\<lparr>nonce := nonce (mgr w) + 1\<rparr>\<rparr>"
    by (auto simp: nextNonce_def Let_def)
  have "lstep ctxs (w, P(t := NextRead)) Tau (w, P(t := Bump))"
    using read_bump [of "P(t := NextRead)" t w ctxs] clean has by simp
  moreover have "lstep ctxs (w, P(t := Bump)) (Hand n) (w', P(t := AcqReturn n))"
    using bump [of "P(t := Bump)" t ctxs w] n w' by simp
  ultimately show ?thesis by (blast intro: lrun_tau lrun_show)
qed

lemma nextNonce_run_seed:
  assumes "nextNonce (ctxs t) w = Some (Ok n, w')" and clean: "\<not> dirty (mgr w)" and none: "\<not> hasNonce (mgr w)"
  shows "lrun ctxs (w, P(t := NextRead)) [Hand n] (w', P(t := AcqReturn n))"
proof -
  from assms obtain u where fetch: "fetch_pending (ctxs t) w = Some (Ok n, u)"
    and w': "w' = u\<lparr>mgr := (mgr u)\<lparr>nonce := n, hasNonce := True\<rparr>\<rparr>"
    by (auto simp: nextNonce_def Let_def gfail_def elim!: chk_OkE)
  have "lstep ctxs (w, P(t := NextRead)) Tau (w, P(t := SeedFetch))"
    using read_seed [of "P(t := NextRead)" t w ctxs] clean none by simp
  moreover have "lstep ctxs (w, P(t := SeedFetch)) Tau (u, P(t := SeedStore n))"
    using seed_fetched [of "P(t := SeedFetch)" t ctxs w n u] fetch by simp
  moreover have "lstep ctxs (u, P(t := SeedStore n)) (Hand n) (w', P(t := AcqReturn n))"
    using seed_store [of "P(t := SeedStore n)" t n ctxs u] w' by simp
  ultimately show ?thesis by (blast intro: lrun_tau lrun_show)
qed

lemma nextNonce_run:
  "nextNonce (ctxs t) w = Some (Ok n, w') \<Longrightarrow> lrun ctxs (w, P(t := NextRead)) [Hand n] (w', P(t := AcqReturn n))"
  using nextNonce_run_dirty nextNonce_run_bump nextNonce_run_seed by blast

lemma Acquire_run:
  assumes "Acquire (ctxs t) w = Some (Ok (n, k), w')" and "P t = Idle" and "inflightCh (mgr w) \<le> 1"
  shows "lrun ctxs (w, P) [Hand n] (w', P)"
proof -
  from assms obtain v u where chan: "ctxs t OnChannel (env w) = (None, v)"
    and src: "source (mgr w) \<noteq> None" and tok: "inflightCh (mgr w) = Suc 0"
    and nn: "nextNonce (ctxs t) (w\<lparr>env := v, mgr := (mgr w)\<lparr>inflightCh := 0\<rparr>\<rparr>) = Some (Ok n, u)"
    and w': "w' = u\<lparr>slots := slots u @ [False]\<rparr>"
    by (auto simp: Acquire_def gfail_def le_Suc_eq split: if_splits prod.splits option.splits elim!: chk_OkE)
  let ?w = "w\<lparr>env := v, mgr := (mgr w)\<lparr>inflightCh := 0\<rparr>\<rparr>"
  have "lstep ctxs (w, P) Tau (w, P(t := AcqCheck))"
    using assms(2) by (rule call_acquire)
  moreover have "lstep ctxs (w, P(t := AcqCheck)) Tau (w, P(t := AcqSelect))"
    using check_ok [of "P(t := AcqCheck)" t w ctxs] src by simp
  moreover have "lstep ctxs (w, P(t := AcqSelect)) Tau (?w, P(t := NextRead))"
    using select_token [of "P(t := AcqSelect)" t ctxs w v 0] chan tok by simp
  moreover have "lrun ctxs (?w, P(t := NextRead)) [Hand n] (w', P)"
  proof -
    have "P(t := Idle) = P" using assms(2) by (simp add: fun_upd_idem)
    then have "lstep ctxs (u, P(t := AcqReturn n)) Tau (w', P)"
      using acq_return [of "P(t := AcqReturn n)" t n ctxs u] w' by simp
    with nextNonce_run [where ctxs = ctxs and t = t and P = P, OF nn] show ?thesis
      using more [of ctxs _ "[Hand n]" _ Tau] by (fastforce simp: visible_def)
  qed
  ultimately show ?thesis by (blast intro: lrun_tau)
qed

text \<open>The compare-and-swap that wins, and the update that follows it, up to the return of the token.\<close>

lemma slot_update_run:
  assumes "slot_resolve r k w = Some (Ok (), w')" and "P t = Idle" and "k < length (slots w)" and False: "\<not> slots w ! k"
  shows "\<exists>u. lrun ctxs (w, P) [Resolved r] (u, P(t := ResSend)) \<and>
    inflightCh (mgr u) = 0 \<and> w' = u\<lparr>mgr := (mgr u)\<lparr>inflightCh := 1\<rparr>\<rparr>"
proof -
  have call: "lstep ctxs (w, P) Tau (w, P(t := ResCas r k))"
    using assms(2,3) by (rule call_resolve)
  let ?u = "w\<lparr>slots := (slots w)[k := True]\<rparr>"
  have other: "r \<noteq> Commit \<Longrightarrow> lstep ctxs (w, P(t := ResCas r k)) Tau (?u, P(t := ResUpd r))"
    using cas_other [of "P(t := ResCas r k)" t r k w ctxs] False by simp
  show ?thesis
  proof (cases r)
    case Commit
    have "lstep ctxs (w, P(t := ResCas r k)) (Resolved r) (?u, P(t := ResSend))"
      using cas_commit [of "P(t := ResCas r k)" t k w ctxs] False Commit by simp
    with assms(1) False call Commit show ?thesis
      by (intro exI [of _ ?u]) (auto simp: slot_Commit_def send_token_def split: if_splits
          intro: lrun_tau lrun_show)
  next
    case Reuse
    let ?v = "?u\<lparr>mgr := (if hasNonce (mgr w) then (mgr w)\<lparr>nonce := nonce (mgr w) - 1\<rparr> else mgr w)\<rparr>"
    have "lstep ctxs (?u, P(t := ResUpd r)) (Resolved r) (?v, P(t := ResSend))"
      using update_reuse [of "P(t := ResUpd r)" t ctxs ?u] Reuse
      by (cases "hasNonce (mgr w)") simp_all
    then have "lrun ctxs (w, P) [Resolved r] (?v, P(t := ResSend))"
      using call other Reuse by (intro lrun_tau [OF call] lrun_tau [OF other] lrun_show) auto
    with assms(1) False Reuse show ?thesis
      by (intro exI [of _ ?v]) (auto simp: slot_Reuse_def send_token_def Let_def split: if_splits)
  next
    case Reclaim
    let ?v = "?u\<lparr>mgr := (mgr w)\<lparr>dirty := True\<rparr>\<rparr>"
    have "lstep ctxs (?u, P(t := ResUpd r)) (Resolved r) (?v, P(t := ResSend))"
      using update_reclaim [of "P(t := ResUpd r)" t ctxs ?u] Reclaim by simp
    then have "lrun ctxs (w, P) [Resolved r] (?v, P(t := ResSend))"
      using call other Reclaim by (intro lrun_tau [OF call] lrun_tau [OF other] lrun_show) auto
    with assms(1) False Reclaim show ?thesis
      by (intro exI [of _ ?v]) (auto simp: slot_Reclaim_def send_token_def Let_def split: if_splits)
  qed
qed

lemma slot_resolve_run:
  assumes "slot_resolve r k w = Some (Ok (), w')" and "P t = Idle" and "k < length (slots w)"
  shows "lrun ctxs (w, P) (if slots w ! k then [] else [Resolved r]) (w', P)"
proof -
  have idle: "P(t := Idle) = P" using assms(2) by (simp add: fun_upd_idem)
  have call: "lstep ctxs (w, P) Tau (w, P(t := ResCas r k))"
    using assms(2,3) by (rule call_resolve)
  have send: "inflightCh (mgr u) = 0 \<Longrightarrow> w' = u\<lparr>mgr := (mgr u)\<lparr>inflightCh := 1\<rparr>\<rparr> \<Longrightarrow>
      lstep ctxs (u, P(t := ResSend)) Tau (w', P)" for u
    using res_send [of "P(t := ResSend)" t u ctxs] idle by simp
  show ?thesis
  proof (cases "slots w ! k")
    case True
    with assms(1) have "w' = w"
      by (cases r) (simp_all add: slot_Commit_def slot_Reuse_def slot_Reclaim_def)
    moreover have "lstep ctxs (w, P(t := ResCas r k)) Tau (w, P)"
      using cas_lost [of "P(t := ResCas r k)" t r k w ctxs] True idle by simp
    ultimately show ?thesis using True call by (auto intro: lrun_tau stop)
  next
    case False
    from slot_update_run [where P = P and t = t and ctxs = ctxs, OF assms this] show ?thesis
      using False send more [of ctxs "(w, P)" "[Resolved r]" _ Tau] by (fastforce simp: visible_def)
  qed
qed

section \<open>Broadcast nonces of a history\<close>

text \<open>The nonces whose slot was committed, read off a history.\<close>

fun broadcast :: "event list \<Rightarrow> u64 list" where
  "broadcast (Hand n # Resolved Commit # es) = n # broadcast es"
| "broadcast (e # es) = broadcast es"
| "broadcast [] = []"

lemma broadcast_cycles:
  "length rs = length ns \<Longrightarrow> broadcast (cycles rs ns) = committed rs ns"
  "length rs = length ns \<Longrightarrow> broadcast (cycles rs ns @ [Hand n]) = committed rs ns"
proof (induction rs ns rule: list_induct2)
  case (Cons r rs n' ns)
  { case 1 with Cons show ?case by (cases r) auto }
  { case 2 with Cons show ?case by (cases r) auto }
qed simp_all

lemma set_cycles: "length rs = length ns \<Longrightarrow> set (cycles rs ns) = Hand ` set ns \<union> Resolved ` set rs"
  by (induction rs ns rule: list_induct2) auto

lemma spec_run_fetch_committed:
  assumes "spec_run Fetch rs ns c'" and "Reclaim \<notin> set rs"
  shows "\<exists>k. committed rs ns = map (\<lambda>i. k + of_nat i) [0..<length (committed rs ns)]"
proof (cases ns)
  case Nil
  with spec_run_length [OF assms(1)] show ?thesis by simp
next
  case (Cons n ns')
  with assms(1) have "spec_run (Next n) rs ns c'" by (cases rs) auto
  with spec_run_committed assms(2) show ?thesis by blast
qed

section \<open>A run of two goroutines, for concrete instances\<close>

definition demo_ctx :: "unit ctx" where
  "demo_ctx sel e = (None, e)"

definition demo_source :: "unit source" where
  "demo_source ctx a e = Some (Ok 7, e)"

definition demo_world :: "u64 \<Rightarrow> bool \<Rightarrow> bool \<Rightarrow> nat \<Rightarrow> bool list \<Rightarrow> unit local_world" where
  "demo_world n has d c fs =
     \<lparr>mgr = \<lparr>source = Some demo_source, nm_address = 1, staleNonceDelay = DefaultStaleNonceDelay,
        nonce = n, hasNonce = has, dirty = d, inflightCh = c\<rparr>, slots = fs, env = ()\<rparr>"

lemmas demo_defs = demo_ctx_def demo_source_def demo_world_def Acquire_def nextNonce_def fetch_pending_def
  slot_Commit_def slot_Reuse_def slot_Reclaim_def send_token_def Let_def

lemma demo_steps:
  "Acquire demo_ctx (demo_world 0 False False 1 []) = Some (Ok (7, 0), demo_world 7 True False 0 [False])"
  "slot_resolve Commit 0 (demo_world 7 True False 0 [False]) = Some (Ok (), demo_world 7 True False 1 [True])"
  "Acquire demo_ctx (demo_world 7 True False 1 [True]) = Some (Ok (8, 1), demo_world 8 True False 0 [True, False])"
  "slot_resolve Reuse 1 (demo_world 8 True False 0 [True, False]) = Some (Ok (), demo_world 7 True False 1 [True, True])"
  "Acquire demo_ctx (demo_world 7 True False 1 [True, True]) = Some (Ok (8, 2), demo_world 8 True False 0 [True, True, False])"
  "slot_resolve Commit 2 (demo_world 8 True False 0 [True, True, False]) =
     Some (Ok (), demo_world 8 True False 1 [True, True, True])"
  by (simp_all add: demo_defs)

lemma demo_start: "lrun (\<lambda>_. demo_ctx) (start 0 ()) [] (demo_world 0 False False 1 [], \<lambda>_. Idle)"
proof -
  have "lstep (\<lambda>_. demo_ctx) (start 0 ()) Tau (demo_world 0 False False 1 [], \<lambda>_. Idle)"
    using initialise [of "Some demo_source" "Some 1" 1 "fst (start 0 ())" "Ok ()"
        "mgr (demo_world 0 False False 1 [])" "\<lambda>_. demo_ctx" "\<lambda>_. Idle"]
    by (simp add: start_def demo_world_def NewNonceManager_def Init_def)
  then show ?thesis by (auto intro: lrun_tau stop)
qed

lemma demo_held: "lrun (\<lambda>_. demo_ctx) (start 0 ()) [Hand 7] (demo_world 7 True False 0 [False], \<lambda>_. Idle)"
  using lrun_trans [OF Acquire_run [where ctxs = "\<lambda>_. demo_ctx" and P = "\<lambda>_. Idle", OF demo_steps(1)] demo_start]
  by (simp add: demo_world_def)

lemma demo_history:
  "lrun (\<lambda>_. demo_ctx) (start 0 ())
     [Hand 7, Resolved Commit, Hand 8, Resolved Reuse, Hand 8, Resolved Commit]
     (demo_world 8 True False 1 [True, True, True], \<lambda>_. Idle)"
proof -
  let ?P = "\<lambda>_::nat. Idle" and ?c = "\<lambda>_::nat. demo_ctx"
  have r2: "lrun ?c (demo_world 7 True False 0 [False], ?P) [Resolved Commit] (demo_world 7 True False 1 [True], ?P)"
    using slot_resolve_run [where ctxs = ?c and P = ?P, OF demo_steps(2)] by (simp add: demo_world_def)
  have r3: "lrun ?c (demo_world 7 True False 1 [True], ?P) [Hand 8] (demo_world 8 True False 0 [True, False], ?P)"
    using Acquire_run [where ctxs = ?c and P = ?P, OF demo_steps(3)] by (simp add: demo_world_def)
  have r4: "lrun ?c (demo_world 8 True False 0 [True, False], ?P) [Resolved Reuse] (demo_world 7 True False 1 [True, True], ?P)"
    using slot_resolve_run [where ctxs = ?c and P = ?P, OF demo_steps(4)] by (simp add: demo_world_def)
  have r5: "lrun ?c (demo_world 7 True False 1 [True, True], ?P) [Hand 8] (demo_world 8 True False 0 [True, True, False], ?P)"
    using Acquire_run [where ctxs = ?c and P = ?P, OF demo_steps(5)] by (simp add: demo_world_def)
  have r6: "lrun ?c (demo_world 8 True False 0 [True, True, False], ?P) [Resolved Commit]
      (demo_world 8 True False 1 [True, True, True], ?P)"
    using slot_resolve_run [where ctxs = ?c and P = ?P, OF demo_steps(6)] by (simp add: demo_world_def)
  show ?thesis
    using lrun_trans [OF r6 lrun_trans [OF r5 lrun_trans [OF r4 lrun_trans [OF r3 lrun_trans [OF r2 demo_held]]]]]
    by simp
qed

section \<open>Properties of the local manager\<close>

text \<open>
  C4: whatever the interleaving of goroutines, context cancellations, failed fetches and double
  resolutions, the visible history of a new local manager is a sequence of acquire/resolve
  cycles of the documented contract (\<open>Commit\<close> advances, \<open>Reuse\<close> stays, \<open>Reclaim\<close>
  re-fetches), at most one more nonce being handed out and not yet resolved.
\<close>

theorem local_history:
  assumes "lrun ctxs (start delay e) es s'"
  shows "\<exists>rs ns c'. spec_run Fetch rs ns c' \<and>
    (es = cycles rs ns \<and> spec_of s' = Free c' \<or>
     (\<exists>n. admits c' n \<and> es = cycles rs ns @ [Hand n] \<and> spec_of s' = Held n))"
  using assms by (rule lrun_cycles)

theorem local_history_witness:
  "\<exists>rs ns c'. spec_run Fetch rs ns c' \<and>
    ([Hand 7] = cycles rs ns \<and> spec_of (demo_world 7 True False 0 [False], \<lambda>_. Idle) = Free c' \<or>
     (\<exists>n. admits c' n \<and> [Hand 7] = cycles rs ns @ [Hand n] \<and>
       spec_of (demo_world 7 True False 0 [False], \<lambda>_. Idle) = Held n))"
  using local_history [OF demo_held] .

text \<open>
  As long as no broadcast fails, the nonces that concurrent goroutines broadcast are
  consecutive from the first one fetched: no nonce is skipped and none is used twice (the
  counter wraps at \<open>2 ^ 64\<close>), however many slots were given back with \<open>Reuse\<close> in between.
\<close>

theorem local_broadcast_consecutive:
  assumes "lrun ctxs (start delay e) es s'" and "Resolved Reclaim \<notin> set es"
  shows "\<exists>k. broadcast es = map (\<lambda>i. k + of_nat i) [0..<length (broadcast es)]"
proof -
  from lrun_cycles [OF assms(1)] obtain rs ns c' tl where run: "spec_run Fetch rs ns c'"
    and es: "es = cycles rs ns @ tl" and tl: "tl = [] \<or> (\<exists>n. tl = [Hand n])" by auto
  from run have len: "length rs = length ns" by (simp add: spec_run_length)
  with es assms(2) have "Reclaim \<notin> set rs" by (auto simp: set_cycles)
  moreover from es tl len have "broadcast es = committed rs ns" by (auto simp: broadcast_cycles)
  ultimately show ?thesis using spec_run_fetch_committed [OF run] by simp
qed

theorem local_broadcast_consecutive_witness:
  "\<exists>k. broadcast [Hand 7, Resolved Commit, Hand 8, Resolved Reuse, Hand 8, Resolved Commit] =
     map (\<lambda>i. k + of_nat i) [0..<length (broadcast [Hand 7, Resolved Commit, Hand 8, Resolved Reuse, Hand 8, Resolved Commit])]"
  by (rule local_broadcast_consecutive [OF demo_history]) simp

text \<open>
  C15: mutual exclusion without a lost token. In every reachable state exactly one of these
  owns the manager: the buffered token, one goroutine inside its critical section, or one
  slot that nobody has resolved.
\<close>

theorem local_one_owner:
  assumes "lrun ctxs (start delay e) es (w, P)"
  shows "\<exists>!own. inflightCh (mgr w) = (if own = Nobody then 1 else 0) \<and>
    (\<forall>t. critical (P t) \<longleftrightarrow> own = Goroutine t) \<and> (\<forall>k. k \<in> unresolved (slots w) \<longleftrightarrow> own = Slot k)"
proof -
  from lrun_inv [OF assms start_inv start_slots_exist] obtain own where own: "owned_by own (w, P)"
    by (auto simp: local_inv_def)
  show ?thesis
  proof (rule ex1I [of _ own])
    show "inflightCh (mgr w) = (if own = Nobody then 1 else 0) \<and>
      (\<forall>t. critical (P t) \<longleftrightarrow> own = Goroutine t) \<and> (\<forall>k. k \<in> unresolved (slots w) \<longleftrightarrow> own = Slot k)"
      using own by (simp add: owned_by_def)
  next
    fix other
    assume "inflightCh (mgr w) = (if other = Nobody then 1 else 0) \<and>
      (\<forall>t. critical (P t) \<longleftrightarrow> other = Goroutine t) \<and> (\<forall>k. k \<in> unresolved (slots w) \<longleftrightarrow> other = Slot k)"
    with own show "other = own"
      by (cases own; cases other) (auto simp: owned_by_def)
  qed
qed

theorem local_one_owner_witness:
  "\<exists>!own. inflightCh (mgr (demo_world 7 True False 0 [False])) = (if own = Nobody then 1 else 0) \<and>
    (\<forall>t. critical Idle \<longleftrightarrow> own = Goroutine t) \<and>
    (\<forall>k. k \<in> unresolved (slots (demo_world 7 True False 0 [False])) \<longleftrightarrow> own = Slot k)"
  using local_one_owner [OF demo_held] .

text \<open>
  Handing the token back never blocks. A goroutine that is about to return the token,
  after a failed \<open>nextNonce\<close> or at the end of \<open>Commit\<close>, \<open>Reuse\<close> or \<open>Reclaim\<close>, finds the
  channel empty and can take its step at once.
\<close>

theorem local_release_enabled:
  assumes "lrun ctxs (start delay e) es (w, P)" and "P t = ResSend \<or> P t = AcqFail err"
  shows "lstep ctxs (w, P) Tau (w\<lparr>mgr := (mgr w)\<lparr>inflightCh := 1\<rparr>\<rparr>, P(t := Idle))"
proof -
  from lrun_inv [OF assms(1) start_inv start_slots_exist] obtain own where own: "owned_by own (w, P)"
    by (auto simp: local_inv_def)
  moreover from assms(2) have "critical (P t)" by auto
  ultimately have "own = Goroutine t" by (rule owner_goroutine)
  with own have "inflightCh (mgr w) = 0" by (simp add: owned_by_def)
  with assms(2) acq_fail [of P t err w ctxs] res_send [of P t w ctxs] show ?thesis by blast
qed

lemma demo_releasing:
  "lrun (\<lambda>_. demo_ctx) (start 0 ()) [Hand 7, Resolved Commit]
     (demo_world 7 True False 0 [True], (\<lambda>_. Idle)(0 := ResSend))"
proof -
  let ?w = "demo_world 7 True False 0 [False]" and ?P = "\<lambda>_::nat. Idle"
  have "lstep (\<lambda>_. demo_ctx) (?w, ?P) Tau (?w, ?P(0 := ResCas Commit 0))"
    by (rule call_resolve) (simp_all add: demo_world_def)
  moreover have "lstep (\<lambda>_. demo_ctx) (?w, ?P(0 := ResCas Commit 0)) (Resolved Commit)
      (demo_world 7 True False 0 [True], ?P(0 := ResSend))"
    using cas_commit [of "?P(0 := ResCas Commit 0)" 0 0 ?w "\<lambda>_. demo_ctx"] by (simp add: demo_world_def)
  ultimately have "lrun (\<lambda>_. demo_ctx) (?w, ?P) [Resolved Commit] (demo_world 7 True False 0 [True], ?P(0 := ResSend))"
    by (auto intro: lrun_tau lrun_show)
  from lrun_trans [OF this demo_held] show ?thesis by simp
qed

theorem local_release_enabled_witness:
  "lstep (\<lambda>_. demo_ctx) (demo_world 7 True False 0 [True], (\<lambda>_. Idle)(0 := ResSend)) Tau
     ((demo_world 7 True False 0 [True])\<lparr>mgr := (mgr (demo_world 7 True False 0 [True]))\<lparr>inflightCh := 1\<rparr>\<rparr>,
      ((\<lambda>_. Idle)(0 := ResSend))(0 := Idle))"
  by (rule local_release_enabled [OF demo_releasing]) simp

text \<open>
  The handlers and the interleaving model agree. A call of \<open>Acquire\<close> that returns nonce \<open>n\<close>
  is a run of one goroutine, from outside the manager to outside, whose only visible event is
  that \<open>n\<close> is handed out.
\<close>

theorem Acquire_is_run:
  assumes "Acquire (ctxs t) w = Some (Ok (n, k), w')" and "P t = Idle" and "inflightCh (mgr w) \<le> 1"
  shows "lrun ctxs (w, P) [Hand n] (w', P)"
  using assms by (rule Acquire_run)

theorem Acquire_is_run_witness:
  "lrun (\<lambda>_. demo_ctx) (demo_world 0 False False 1 [], \<lambda>_. Idle) [Hand 7] (demo_world 7 True False 0 [False], \<lambda>_. Idle)"
  by (rule Acquire_is_run [where ctxs = "\<lambda>_. demo_ctx" and t = 0, OF demo_steps(1)]) (simp_all add: demo_world_def)

text \<open>
  A client that runs acquire/resolve cycles one after the other against the local manager
  sees exactly the contract: the nonces returned and the counter left behind are those of the
  abstract counter, and the manager is idle again.
\<close>

theorem local_session:
  assumes "is_idle w" and "session (Acquire ctx) slot_resolve rs w = Some (Ok ns, w')"
  shows "spec_run (counter_of (mgr w)) rs ns (counter_of (mgr w')) \<and> is_idle w'"
  using lm.session_spec [OF assms] by simp

theorem local_session_witness:
  "spec_run (counter_of (mgr (demo_world 0 False False 1 []))) [Commit, Reuse, Commit] [7, 8, 8]
     (counter_of (mgr (demo_world 8 True False 1 [True, True, True]))) \<and>
   is_idle (demo_world 8 True False 1 [True, True, True])"
  by (rule local_session [where ctx = demo_ctx])
    (use demo_steps in \<open>simp_all add: is_idle_def demo_world_def gret_def\<close>)



end
