(* ===== verification/GoStd.thy ===== *)
theory GoStd
  imports Prelude
begin

text \<open>
  The parts of Go's standard library that the sources call, over strings as byte sequences:
  decimal printing of \<open>math/big.Int\<close> and \<open>uint64\<close>, \<open>strconv.ParseUint\<close> in base ten,
  \<open>strings.TrimSpace\<close>, \<open>TrimPrefix\<close>, \<open>ToLower\<close> and \<open>EqualFold\<close>, and \<open>encoding/hex\<close>.
\<close>

section \<open>Decimal numbers\<close>

definition digit :: "nat \<Rightarrow> char" where
  "digit d = char_of (48 + d)"

definition is_digit :: "char \<Rightarrow> bool" where
  "is_digit c \<longleftrightarrow> 48 \<le> (of_char c :: nat) \<and> (of_char c :: nat) \<le> 57"

definition digit_val :: "char \<Rightarrow> nat" where
  "digit_val c = of_char c - 48"

fun dec_nat :: "nat \<Rightarrow> string" where
  "dec_nat n = (if n < 10 then [digit n] else dec_nat (n div 10) @ [digit (n mod 10)])"

declare dec_nat.simps [simp del]

definition dec_int :: "int \<Rightarrow> string" where
  "dec_int i = (if i < 0 then CHR ''-'' # dec_nat (nat (- i)) else dec_nat (nat i))"

text \<open>\<open>(*big.Int).String\<close>, which prints a nil pointer as \<open><nil>\<close>.\<close>

fun big_String :: "int option \<Rightarrow> string" where
  "big_String None = ''<nil>''"
| "big_String (Some i) = dec_int i"

definition FormatUint :: "u64 \<Rightarrow> string" where
  "FormatUint w = dec_nat (unat w)"

definition ErrSyntax :: gerr where "ErrSyntax = Sentinel ''strconv.ErrSyntax''"
definition ErrRange :: gerr where "ErrRange = Sentinel ''strconv.ErrRange''"

text \<open>
  The loop of \<open>strconv.ParseUint(s, 10, 64)\<close>: a byte that is no digit is a syntax error, a
  value of \<open>2 ^ 64\<close> or more a range error, whichever comes first.
\<close>

fun parse_digits :: "nat \<Rightarrow> string \<Rightarrow> nat result" where
  "parse_digits n [] = Ok n"
| "parse_digits n (c # cs) =
     (if \<not> is_digit c then Err ErrSyntax
      else if 2 ^ 64 \<le> 10 * n + digit_val c then Err ErrRange
      else parse_digits (10 * n + digit_val c) cs)"

definition ParseUint :: "string \<Rightarrow> u64 result" where
  "ParseUint s =
     (if s = [] then Err ErrSyntax
      else (case parse_digits 0 s of Ok n \<Rightarrow> Ok (of_nat n) | Err e \<Rightarrow> Err e | Panic p \<Rightarrow> Panic p))"

lemma digit_code: "d < 10 \<Longrightarrow> (of_char (digit d) :: nat) = 48 + d"
  by (simp add: digit_def of_char_of)

lemma is_digit_digit [simp]: "d < 10 \<Longrightarrow> is_digit (digit d)"
  by (simp add: is_digit_def digit_code)

lemma digit_val_digit [simp]: "d < 10 \<Longrightarrow> digit_val (digit d) = d"
  by (simp add: digit_val_def digit_code)

lemma dec_nat_nonempty [simp]: "dec_nat n \<noteq> []"
  by (subst dec_nat.simps) simp

lemma dec_nat_nonempty' [simp]: "[] \<noteq> dec_nat n"
  using dec_nat_nonempty [of n] by metis

lemma dec_nat_digits: "c \<in> set (dec_nat n) \<Longrightarrow> is_digit c"
  by (induction n rule: dec_nat.induct) (subst (asm) (2) dec_nat.simps, auto split: if_splits)

lemma parse_digits_append:
  "parse_digits n (xs @ ys) =
     (case parse_digits n xs of Ok m \<Rightarrow> parse_digits m ys | Err e \<Rightarrow> Err e | Panic p \<Rightarrow> Panic p)"
  by (induction xs arbitrary: n) auto

lemma parse_digits_dec_nat: "n < 2 ^ 64 \<Longrightarrow> parse_digits 0 (dec_nat n) = Ok n"
proof (induction n rule: dec_nat.induct)
  case (1 n)
  show ?case
  proof (cases "n < 10")
    case True
    then show ?thesis by (subst dec_nat.simps) simp
  next
    case False
    with 1 have "parse_digits 0 (dec_nat (n div 10)) = Ok (n div 10)" by simp
    moreover have "10 * (n div 10) + n mod 10 = n" by simp
    ultimately show ?thesis using False "1.prems"
      by (subst dec_nat.simps) (simp add: parse_digits_append)
  qed
qed

text \<open>Printing and parsing a \<open>uint64\<close>.\<close>

lemma ParseUint_FormatUint [simp]: "ParseUint (FormatUint w) = Ok w"
proof -
  have "unat w < 2 ^ 64" using unsigned_less [of w, where ?'a = nat] by simp
  then show ?thesis by (simp add: ParseUint_def FormatUint_def parse_digits_dec_nat)
qed

lemma digit_inj: "d < 10 \<Longrightarrow> e < 10 \<Longrightarrow> digit d = digit e \<Longrightarrow> d = e"
  by (metis digit_val_digit)

lemma dec_nat_inj: "dec_nat m = dec_nat n \<Longrightarrow> m = n"
proof (induction m arbitrary: n rule: dec_nat.induct)
  case (1 m)
  show ?case
  proof (cases "m < 10 \<or> n < 10")
    case True
    with "1.prems" show ?thesis
      by (subst (asm) dec_nat.simps, subst (asm) (2) dec_nat.simps) (auto split: if_splits dest: digit_inj)
  next
    case False
    with "1.prems" have "dec_nat (m div 10) @ [digit (m mod 10)] = dec_nat (n div 10) @ [digit (n mod 10)]"
      by (metis dec_nat.simps)
    then have "dec_nat (m div 10) = dec_nat (n div 10)" and "m mod 10 = n mod 10"
      by (auto intro: digit_inj)
    with False "1.IH" have "m div 10 = n div 10" by simp
    with \<open>m mod 10 = n mod 10\<close> show ?thesis by (metis div_mult_mod_eq)
  qed
qed

lemma minus_no_digit [simp]: "\<not> is_digit (CHR ''-'')"
  by (simp add: is_digit_def)

lemma dec_nat_no_minus [simp]: "dec_nat m \<noteq> CHR ''-'' # xs" "CHR ''-'' # xs \<noteq> dec_nat m"
  using dec_nat_digits [of "CHR ''-''" m] by (metis list.set_intros(1) minus_no_digit)+

lemma dec_int_inj: "dec_int i = dec_int j \<Longrightarrow> i = j"
  by (auto simp: dec_int_def split: if_splits dest!: dec_nat_inj)

lemma dec_int_chars: "c \<in> set (dec_int i) \<Longrightarrow> is_digit c \<or> c = CHR ''-''"
  by (auto simp: dec_int_def split: if_splits dest: dec_nat_digits)

lemma dec_int_not_nil [simp]: "dec_int i \<noteq> ''<nil>''" "''<nil>'' \<noteq> dec_int i"
proof -
  have "CHR ''<'' \<notin> set (dec_int i)"
    using dec_int_chars [of "CHR ''<''" i] by (auto simp: is_digit_def)
  then show "dec_int i \<noteq> ''<nil>''" "''<nil>'' \<noteq> dec_int i"
    by (metis list.set_intros(1))+
qed

lemma big_String_inj: "big_String a = big_String b \<Longrightarrow> a = b"
  by (cases a; cases b) (auto dest: dec_int_inj)

section \<open>Strings\<close>

definition codes :: "string \<Rightarrow> nat list" where
  "codes = map of_char"

text \<open>
  How many bytes the white-space rune at the front of a UTF-8 string takes (0 if the first
  rune is no white space): the ASCII ones, U+0085 and U+00A0 in two bytes, U+1680, U+2000 to
  U+200A, U+2028, U+2029, U+202F, U+205F and U+3000 in three. The last argument order of
  \<open>space_back\<close> is the same rune read from the end of the string.
\<close>

definition space3 :: "nat \<Rightarrow> nat \<Rightarrow> nat \<Rightarrow> bool" where
  "space3 b c d \<longleftrightarrow>
     (b = 0xE1 \<and> c = 0x9A \<and> d = 0x80) \<or>
     (b = 0xE2 \<and> c = 0x80 \<and> (0x80 \<le> d \<and> d \<le> 0x8A \<or> d = 0xA8 \<or> d = 0xA9 \<or> d = 0xAF)) \<or>
     (b = 0xE2 \<and> c = 0x81 \<and> d = 0x9F) \<or>
     (b = 0xE3 \<and> c = 0x80 \<and> d = 0x80)"

definition space2 :: "nat \<Rightarrow> nat \<Rightarrow> bool" where
  "space2 b c \<longleftrightarrow> b = 0xC2 \<and> (c = 0x85 \<or> c = 0xA0)"

definition space1 :: "nat \<Rightarrow> bool" where
  "space1 b \<longleftrightarrow> (9 \<le> b \<and> b \<le> 13) \<or> b = 32"

fun space_front :: "nat list \<Rightarrow> nat" where
  "space_front (b # c # d # _) = (if space1 b then 1 else if space2 b c then 2 else if space3 b c d then 3 else 0)"
| "space_front [b, c] = (if space1 b then 1 else if space2 b c then 2 else 0)"
| "space_front [b] = (if space1 b then 1 else 0)"
| "space_front [] = 0"

fun space_back :: "nat list \<Rightarrow> nat" where
  "space_back (d # c # b # _) = (if space1 d then 1 else if space2 c d then 2 else if space3 b c d then 3 else 0)"
| "space_back [d, c] = (if space1 d then 1 else if space2 c d then 2 else 0)"
| "space_back [d] = (if space1 d then 1 else 0)"
| "space_back [] = 0"

function trim_by :: "(nat list \<Rightarrow> nat) \<Rightarrow> string \<Rightarrow> string" where
  "trim_by f s = (if f (codes s) = 0 \<or> s = [] then s else trim_by f (drop (f (codes s)) s))"
  by pat_completeness auto
termination
  by (relation "measure (\<lambda>(f, s). length s)") auto

declare trim_by.simps [simp del]

definition TrimSpace :: "string \<Rightarrow> string" where
  "TrimSpace s = rev (trim_by space_back (rev (trim_by space_front s)))"

definition TrimPrefix :: "string \<Rightarrow> string \<Rightarrow> string" where
  "TrimPrefix s p = (if take (length p) s = p then drop (length p) s else s)"

text \<open>\<open>strings.ToLower\<close>, used by the sources on ASCII strings only.\<close>

definition to_lower :: "char \<Rightarrow> char" where
  "to_lower c = (let n = of_char c :: nat in if 65 \<le> n \<and> n \<le> 90 then char_of (n + 32) else c)"

definition ToLower :: "string \<Rightarrow> string" where
  "ToLower = map to_lower"

text \<open>
  \<open>strings.EqualFold\<close> against an ASCII string: ASCII letters fold to lower case, and of the
  other runes only U+212A (Kelvin sign, bytes E2 84 AA) and U+017F (long s, bytes C5 BF) fold
  to an ASCII letter.
\<close>

fun fold_codes :: "nat list \<Rightarrow> nat list" where
  "fold_codes (b # c # d # bs) =
     (if b = 0xE2 \<and> c = 0x84 \<and> d = 0xAA then 107 # fold_codes bs
      else if b = 0xC5 \<and> c = 0xBF then 115 # fold_codes (d # bs)
      else (if 65 \<le> b \<and> b \<le> 90 then b + 32 else b) # fold_codes (c # d # bs))"
| "fold_codes [b, c] =
     (if b = 0xC5 \<and> c = 0xBF then [115]
      else (if 65 \<le> b \<and> b \<le> 90 then b + 32 else b) # fold_codes [c])"
| "fold_codes [b] = [if 65 \<le> b \<and> b \<le> 90 then b + 32 else b]"
| "fold_codes [] = []"

definition EqualFold :: "string \<Rightarrow> string \<Rightarrow> bool" where
  "EqualFold s ascii \<longleftrightarrow> fold_codes (codes s) = fold_codes (codes ascii)"

lemma EqualFold_refl [simp]: "EqualFold s s"
  by (simp add: EqualFold_def)

lemma EqualFold_example: "EqualFold ''ZkSync'' ''zksync''" "\<not> EqualFold ''canonical'' ''zksync''"
  "\<not> EqualFold [] ''zksync''"
  by (simp_all add: EqualFold_def codes_def)

lemma TrimSpace_examples:
  "TrimSpace '' ab '' = ''ab''" "TrimSpace ''  '' = []" "TrimSpace [] = []"
  by (simp_all add: TrimSpace_def trim_by.simps codes_def space1_def space2_def space3_def)

text \<open>The UTF-8 bytes of the em dash, which some error messages contain.\<close>

definition em_dash :: string where
  "em_dash = map char_of [0xE2, 0x80, 0x94 :: nat]"

section \<open>encoding/hex\<close>

definition hex_val :: "char \<Rightarrow> nat option" where
  "hex_val ch =
     (let n = of_char ch :: nat in
      if 48 \<le> n \<and> n \<le> 57 then Some (n - 48)
      else if 97 \<le> n \<and> n \<le> 102 then Some (n - 87)
      else if 65 \<le> n \<and> n \<le> 70 then Some (n - 55)
      else None)"

definition ErrLength :: gerr where "ErrLength = Sentinel ''hex.ErrLength''"

text \<open>\<open>hex.DecodeString\<close>: an invalid byte is reported before an odd length.\<close>

fun hex_DecodeString :: "string \<Rightarrow> byte list result" where
  "hex_DecodeString [] = Ok []"
| "hex_DecodeString [c] =
     (if hex_val c = None then Err (Errorf ''hex: invalid byte'' [EStr [c]] []) else Err ErrLength)"
| "hex_DecodeString (c # d # cs) =
     (case (hex_val c, hex_val d) of
        (Some a, Some b) \<Rightarrow>
          (case hex_DecodeString cs of Ok bs \<Rightarrow> Ok (of_nat (16 * a + b) # bs) | r \<Rightarrow> r)
      | (None, _) \<Rightarrow> Err (Errorf ''hex: invalid byte'' [EStr [c]] [])
      | (Some _, None) \<Rightarrow> Err (Errorf ''hex: invalid byte'' [EStr [d]] []))"

text \<open>Lower-case hexadecimal printing, the verb \<open>%x\<close> of a byte slice.\<close>

definition hex_digit :: "nat \<Rightarrow> char" where
  "hex_digit d = (if d < 10 then char_of (48 + d) else char_of (87 + d))"

definition hex_of_bytes :: "byte list \<Rightarrow> string" where
  "hex_of_bytes bs = concat (map (\<lambda>b. [hex_digit (unat b div 16), hex_digit (unat b mod 16)]) bs)"

lemma hex_val_digit [simp]: "d < 16 \<Longrightarrow> hex_val (hex_digit d) = Some d"
  by (auto simp: hex_val_def hex_digit_def of_char_of Let_def)

lemma hex_of_bytes_Cons:
  "hex_of_bytes (b # bs) = hex_digit (unat b div 16) # hex_digit (unat b mod 16) # hex_of_bytes bs"
  by (simp add: hex_of_bytes_def)

lemma hex_round_trip [simp]: "hex_DecodeString (hex_of_bytes bs) = Ok bs"
proof (induction bs)
  case Nil
  then show ?case by (simp add: hex_of_bytes_def)
next
  case (Cons b bs)
  have "unat b < 256" using unsigned_less [of b, where ?'a = nat] by simp
  then have "unat b div 16 < 16" by simp
  with Cons show ?case by (simp add: hex_of_bytes_Cons)
qed

lemma hex_of_bytes_inj: "hex_of_bytes a = hex_of_bytes b \<Longrightarrow> a = b"
  by (metis hex_round_trip result.inject(1))

lemma length_hex_of_bytes [simp]: "length (hex_of_bytes bs) = 2 * length bs"
  by (induction bs) (simp_all add: hex_of_bytes_def)

end
