(* ===== verification/Json.thy ===== *)
theory Json
  imports GoStd
begin

text \<open>
  What \<open>internal/versions/loader.go\<close> uses of \<open>encoding/json\<close>: the syntax of RFC 8259 as
  Go's scanner accepts it (nesting at most 10000 deep), string literals with their escapes and
  with invalid UTF-8 replaced by U+FFFD, and members of objects that keep their source text,
  which is what a \<open>json.RawMessage\<close> holds.
\<close>

section \<open>Values\<close>

datatype json =
    JNull
  | JBool bool
  | JNum string
  | JStr string
  | JArr "json list"
  | JObj "(string \<times> string \<times> json) list"

section \<open>String literals\<close>

abbreviation code_of :: "char \<Rightarrow> nat" where
  "code_of c \<equiv> of_char c"

text \<open>The UTF-8 bytes of a code point.\<close>

definition utf8 :: "nat \<Rightarrow> string" where
  "utf8 r = map char_of
     (if r < 0x80 then [r]
      else if r < 0x800 then [0xC0 + r div 64, 0x80 + r mod 64]
      else if r < 0x10000 then [0xE0 + r div 4096, 0x80 + r div 64 mod 64, 0x80 + r mod 64]
      else [0xF0 + r div 262144, 0x80 + r div 4096 mod 64, 0x80 + r div 64 mod 64, 0x80 + r mod 64])"

text \<open>The length of the UTF-8 sequence at the front of a byte list, 0 if it is not valid.\<close>

definition cont :: "nat \<Rightarrow> bool" where
  "cont b \<longleftrightarrow> 0x80 \<le> b \<and> b \<le> 0xBF"

fun rune_len :: "nat list \<Rightarrow> nat" where
  "rune_len (b # bs) =
     (if b < 0x80 then 1
      else
        (case bs of
           [] \<Rightarrow> 0
         | c # cs \<Rightarrow>
             if 0xC2 \<le> b \<and> b \<le> 0xDF then (if cont c then 2 else 0)
             else
               (case cs of
                  [] \<Rightarrow> 0
                | d # ds \<Rightarrow>
                    if 0xE0 \<le> b \<and> b \<le> 0xEF then
                      (if cont c \<and> cont d \<and> (b = 0xE0 \<longrightarrow> 0xA0 \<le> c) \<and> (b = 0xED \<longrightarrow> c \<le> 0x9F) then 3 else 0)
                    else
                      (case ds of
                         [] \<Rightarrow> 0
                       | e # _ \<Rightarrow>
                           if 0xF0 \<le> b \<and> b \<le> 0xF4 \<and> cont c \<and> cont d \<and> cont e \<and>
                              (b = 0xF0 \<longrightarrow> 0x90 \<le> c) \<and> (b = 0xF4 \<longrightarrow> c \<le> 0x8F) then 4 else 0))))"
| "rune_len [] = 0"

text \<open>Four hexadecimal digits after \<open>\u\<close>.\<close>

fun hex4 :: "string \<Rightarrow> nat option" where
  "hex4 (a # b # c # d # _) =
     (case (hex_val a, hex_val b, hex_val c, hex_val d) of
        (Some w, Some x, Some y, Some z) \<Rightarrow> Some (((w * 16 + x) * 16 + y) * 16 + z)
      | _ \<Rightarrow> None)"
| "hex4 _ = None"

definition escapes :: "(char \<times> nat) list" where
  "escapes =
     [(CHR 0x22, 0x22), (CHR 0x5C, 0x5C), (CHR ''/'', 0x2F), (CHR ''b'', 8), (CHR ''f'', 12),
      (CHR ''n'', 10), (CHR ''r'', 13), (CHR ''t'', 9)]"

text \<open>
  The code point of an escape \<open>\uXXXX\<close> whose digits start the text, and how many characters it takes:
  a surrogate pair counts as one, a lone surrogate is U+FFFD.
\<close>

definition unicode_escape :: "string \<Rightarrow> (nat \<times> nat) option" where
  "unicode_escape cs =
     (case hex4 cs of
        None \<Rightarrow> None
      | Some r \<Rightarrow>
          if 0xD800 \<le> r \<and> r \<le> 0xDFFF then
            (case (if take 2 (drop 4 cs) = [CHR 0x5C, CHR ''u''] then hex4 (drop 6 cs) else None) of
               Some l \<Rightarrow>
                 if r \<le> 0xDBFF \<and> 0xDC00 \<le> l \<and> l \<le> 0xDFFF
                 then Some (0x10000 + (r - 0xD800) * 1024 + (l - 0xDC00), 10)
                 else Some (0xFFFD, 4)
             | None \<Rightarrow> Some (0xFFFD, 4))
          else Some (r, 4))"

text \<open>The rest of a string literal after its opening quote: its value and what follows it.\<close>

fun parse_string :: "string \<Rightarrow> (string \<times> string) option" where
  "parse_string [] = None"
| "parse_string (c # cs) =
     (if c = CHR 0x22 then Some ([], cs)
      else if c = CHR 0x5C then
        (case cs of
           [] \<Rightarrow> None
         | e # ds \<Rightarrow>
             if e = CHR ''u'' then
               (case unicode_escape ds of
                  None \<Rightarrow> None
                | Some (r, n) \<Rightarrow> map_option (apfst (append (utf8 r))) (parse_string (drop n ds)))
             else
               (case map_of escapes e of
                  None \<Rightarrow> None
                | Some r \<Rightarrow> map_option (apfst (append (utf8 r))) (parse_string ds)))
      else if code_of c < 0x20 then None
      else
        (case rune_len (codes (c # cs)) of
           0 \<Rightarrow> map_option (apfst (append (utf8 0xFFFD))) (parse_string cs)
         | Suc n \<Rightarrow> map_option (apfst (append (c # take n cs))) (parse_string (drop n cs))))"

section \<open>Numbers and literals\<close>

definition take_digits :: "string \<Rightarrow> string \<times> string" where
  "take_digits s = (takeWhile is_digit s, dropWhile is_digit s)"

text \<open>An optional part: a mark, an optional sign, and at least one digit.\<close>

definition parse_part :: "char list \<Rightarrow> char list \<Rightarrow> string \<Rightarrow> (string \<times> string) option" where
  "parse_part marks signs s =
     (case s of
        [] \<Rightarrow> Some ([], s)
      | c # cs \<Rightarrow>
          if c \<notin> set marks then Some ([], s)
          else
            (let sgn = (case cs of d # _ \<Rightarrow> if d \<in> set signs then [d] else [] | [] \<Rightarrow> []);
                 (ds, rest) = take_digits (drop (length sgn) cs)
             in if ds = [] then None else Some (c # sgn @ ds, rest)))"

definition parse_number :: "string \<Rightarrow> (string \<times> string) option" where
  "parse_number s =
     (let sgn = (if take 1 s = ''-'' then ''-'' else []);
          (ds, r1) = take_digits (drop (length sgn) s)
      in if ds = [] then None
         else
           (let (int, r2) = (if hd ds = CHR ''0'' then ([hd ds], tl ds @ r1) else (ds, r1))
            in case parse_part ''.'' [] r2 of
                 None \<Rightarrow> None
               | Some (frac, r3) \<Rightarrow>
                   (case parse_part ''eE'' ''+-'' r3 of
                      None \<Rightarrow> None
                    | Some (ex, r4) \<Rightarrow> Some (sgn @ int @ frac @ ex, r4))))"

section \<open>Documents\<close>

definition is_space :: "char \<Rightarrow> bool" where
  "is_space c \<longleftrightarrow> code_of c \<in> {9, 10, 13, 32}"

definition skip :: "string \<Rightarrow> string" where
  "skip = dropWhile is_space"

definition before :: "string \<Rightarrow> string \<Rightarrow> string" where
  "before s rest = take (length s - length rest) s"

text \<open>
  A value at the front of a text, with what follows it; the elements of an array and the
  members of an object up to the closing bracket. The first number is fuel, the second the
  nesting still allowed.
\<close>

fun parse_value :: "nat \<Rightarrow> nat \<Rightarrow> string \<Rightarrow> (json \<times> string) option"
  and parse_elems :: "nat \<Rightarrow> nat \<Rightarrow> string \<Rightarrow> (json list \<times> string) option"
  and parse_members :: "nat \<Rightarrow> nat \<Rightarrow> string \<Rightarrow> ((string \<times> string \<times> json) list \<times> string) option" where
  "parse_value 0 d s = None"
| "parse_value (Suc n) d s =
     (case s of
        [] \<Rightarrow> None
      | c # cs \<Rightarrow>
          if c = CHR 0x22 then map_option (apfst JStr) (parse_string cs)
          else if c = CHR ''['' then
            (if d = 0 then None
             else if take 1 (skip cs) = '']'' then Some (JArr [], drop 1 (skip cs))
             else map_option (apfst JArr) (parse_elems n (d - 1) (skip cs)))
          else if c = CHR ''{'' then
            (if d = 0 then None
             else if take 1 (skip cs) = ''}'' then Some (JObj [], drop 1 (skip cs))
             else map_option (apfst JObj) (parse_members n (d - 1) (skip cs)))
          else if take 4 s = ''null'' then Some (JNull, drop 4 s)
          else if take 4 s = ''true'' then Some (JBool True, drop 4 s)
          else if take 5 s = ''false'' then Some (JBool False, drop 5 s)
          else map_option (apfst JNum) (parse_number s))"
| "parse_elems 0 d s = None"
| "parse_elems (Suc n) d s =
     (case parse_value n d s of
        None \<Rightarrow> None
      | Some (v, r) \<Rightarrow>
          (case skip r of
             [] \<Rightarrow> None
           | c # cs \<Rightarrow>
               if c = CHR '','' then map_option (apfst (Cons v)) (parse_elems n d (skip cs))
               else if c = CHR '']'' then Some ([v], cs)
               else None))"
| "parse_members 0 d s = None"
| "parse_members (Suc n) d s =
     (if take 1 s \<noteq> [CHR 0x22] then None
      else
        (case parse_string (drop 1 s) of
           None \<Rightarrow> None
         | Some (k, r) \<Rightarrow>
             if take 1 (skip r) \<noteq> '':'' then None
             else
               (let t = skip (drop 1 (skip r))
                in case parse_value n d t of
                     None \<Rightarrow> None
                   | Some (v, u) \<Rightarrow>
                       (case skip u of
                          [] \<Rightarrow> None
                        | c # cs \<Rightarrow>
                            if c = CHR '','' then
                              map_option (apfst (Cons (k, before t u, v))) (parse_members n d (skip cs))
                            else if c = CHR ''}'' then Some ([(k, before t u, v)], cs)
                            else None))))"

definition max_depth :: nat where "max_depth = 10000"

definition parse_fuel :: "string \<Rightarrow> nat" where
  "parse_fuel s = 2 * length s + 1"

definition parse_json :: "string \<Rightarrow> json option" where
  "parse_json s =
     (case parse_value (parse_fuel s) max_depth (skip s) of
        None \<Rightarrow> None
      | Some (v, r) \<Rightarrow> if skip r = [] then Some v else None)"

section \<open>The fuel is enough\<close>

lemma skip_length: "length (skip s) \<le> length s"
  by (simp add: skip_def length_dropWhile_le)

lemma parse_string_shrinks: "parse_string s = Some (v, r) \<Longrightarrow> length r < length s"
  by (induction s arbitrary: v r rule: parse_string.induct)
    (fastforce split: if_splits list.splits option.splits nat.splits prod.splits simp: less_Suc_eq_le)+

lemma take_digits_length: "take_digits s = (ds, r) \<Longrightarrow> length s = length ds + length r"
  by (auto simp: take_digits_def length_append [symmetric] simp del: length_append)

lemma parse_part_shrinks: "parse_part ms ss s = Some (v, r) \<Longrightarrow> length r \<le> length s"
  by (auto simp: parse_part_def Let_def split: list.splits if_splits prod.splits dest!: take_digits_length)

lemma parse_number_shrinks: "parse_number s = Some (v, r) \<Longrightarrow> length r < length s"
  by (auto simp: parse_number_def Let_def neq_Nil_conv split: if_splits prod.splits option.splits
      dest!: take_digits_length parse_part_shrinks)

lemma skip_shrinks: "skip s = c # cs \<Longrightarrow> length cs < length s"
  using skip_length [of s] by simp

text \<open>What \<open>n\<close> units of fuel parse is shorter than the text.\<close>

definition shrinks :: "nat \<Rightarrow> bool" where
  "shrinks n \<longleftrightarrow>
     (\<forall>d s v r. parse_value n d s = Some (v, r) \<longrightarrow> length r < length s) \<and>
     (\<forall>d s vs r. parse_elems n d s = Some (vs, r) \<longrightarrow> length r < length s) \<and>
     (\<forall>d s ms r. parse_members n d s = Some (ms, r) \<longrightarrow> length r < length s)"

lemma shrinksD:
  assumes "shrinks n"
  shows "parse_value n d s = Some (v, r) \<Longrightarrow> length r < length s"
    and "parse_elems n d (skip s) = Some (vs, r) \<Longrightarrow> length r < length s"
    and "parse_members n d (skip s) = Some (ms, r) \<Longrightarrow> length r < length s"
  using assms skip_length [of s] unfolding shrinks_def by (blast intro: less_le_trans)+

lemma value_shrinks:
  assumes "shrinks n" and "parse_value (Suc n) d s = Some (v, r)"
  shows "length r < length s"
proof (cases s)
  case (Cons c cs)
  moreover have "length (skip cs) - 1 < Suc (length cs)" using skip_length [of cs] by simp
  ultimately show ?thesis using assms(2) shrinksD(2,3) [OF assms(1), of _ cs]
    by (auto split: if_splits dest!: parse_string_shrinks parse_number_shrinks intro: less_SucI)
qed (use assms(2) in simp)

lemma elems_shrinks:
  assumes n: "shrinks n" and run: "parse_elems (Suc n) d s = Some (vs, r)"
  shows "length r < length s"
proof -
  from run obtain v u c cs where val: "parse_value n d s = Some (v, u)" and u: "skip u = c # cs"
    and rest: "r = cs \<or> (\<exists>ws. parse_elems n d (skip cs) = Some (ws, r))"
    by (auto split: option.splits list.splits if_splits)
  from rest have "length r \<le> length cs" using shrinksD(2) [OF n, of d cs] by auto
  with skip_shrinks [OF u] shrinksD(1) [OF n val] show ?thesis by linarith
qed

lemma members_shrinks:
  assumes n: "shrinks n" and run: "parse_members (Suc n) d s = Some (ms, r)"
  shows "length r < length s"
proof -
  from run obtain k u v x c cs where key: "parse_string (drop 1 s) = Some (k, u)"
    and val: "parse_value n d (skip (drop 1 (skip u))) = Some (v, x)" and x: "skip x = c # cs"
    and rest: "r = cs \<or> (\<exists>ws. parse_members n d (skip cs) = Some (ws, r))"
    by (auto simp: Let_def split: option.splits list.splits if_splits)
  from rest have "length r \<le> length cs" using shrinksD(3) [OF n, of d cs] by auto
  with skip_shrinks [OF x] shrinksD(1) [OF n val] parse_string_shrinks [OF key] skip_length [of "drop 1 (skip u)"] skip_length [of u]
  show ?thesis by simp
qed

lemma all_shrinks: "shrinks n"
proof (induction n)
  case 0
  then show ?case by (simp add: shrinks_def)
next
  case (Suc n)
  from value_shrinks [OF Suc] elems_shrinks [OF Suc] members_shrinks [OF Suc] show ?case unfolding shrinks_def by blast
qed

text \<open>From \<open>parse_fuel\<close> on, the fuel makes no difference.\<close>

text \<open>Two amounts of fuel that read the same of every text they are enough for.\<close>

definition agree :: "nat \<Rightarrow> nat \<Rightarrow> bool" where
  "agree n m \<longleftrightarrow> (\<forall>d s.
     (2 * length s < n \<longrightarrow> 2 * length s < m \<longrightarrow> parse_value n d s = parse_value m d s) \<and>
     (2 * length s + 1 < n \<longrightarrow> 2 * length s + 1 < m \<longrightarrow>
        parse_elems n d s = parse_elems m d s \<and> parse_members n d s = parse_members m d s))"

lemma agreeD:
  assumes "agree n m"
  shows "2 * length s < n \<Longrightarrow> 2 * length s < m \<Longrightarrow> parse_value n d s = parse_value m d s"
    and "2 * length s + 1 < n \<Longrightarrow> 2 * length s + 1 < m \<Longrightarrow> parse_elems n d (skip s) = parse_elems m d (skip s)"
    and "2 * length s + 1 < n \<Longrightarrow> 2 * length s + 1 < m \<Longrightarrow> parse_members n d (skip s) = parse_members m d (skip s)"
  using assms skip_length [of s] unfolding agree_def by force+

lemma value_agrees:
  assumes "agree n m" and "2 * length s < Suc n" and "2 * length s < Suc m"
  shows "parse_value (Suc n) d s = parse_value (Suc m) d s"
proof (cases s)
  case (Cons c cs)
  with assms(2,3) agreeD(2,3) [OF assms(1), of cs "d - 1"] show ?thesis by simp
qed simp

lemma elems_agrees:
  assumes a: "agree n m" and n: "2 * length s + 1 < Suc n" and m: "2 * length s + 1 < Suc m"
  shows "parse_elems (Suc n) d s = parse_elems (Suc m) d s"
proof -
  have val: "parse_value n d s = parse_value m d s" using agreeD(1) [OF a] n m by simp
  have rest: "parse_elems n d (skip cs) = parse_elems m d (skip cs)"
    if "parse_value m d s = Some (v, r)" and "skip r = c # cs" for v r c cs
    using agreeD(2) [OF a, of cs d] skip_shrinks [OF that(2)] shrinksD(1) [OF all_shrinks that(1)] n m by linarith
  show ?thesis unfolding parse_elems.simps val using rest by (simp split: option.split list.split)
qed

lemma members_agrees:
  assumes a: "agree n m" and n: "2 * length s + 1 < Suc n" and m: "2 * length s + 1 < Suc m"
  shows "parse_members (Suc n) d s = parse_members (Suc m) d s"
proof (cases "parse_string (drop 1 s)")
  case (Some ku)
  obtain k u where ku: "ku = (k, u)" by (cases ku)
  let ?t = "skip (drop 1 (skip u))"
  have t: "length ?t < length s"
    using parse_string_shrinks [of "drop 1 s" k u] skip_length [of "drop 1 (skip u)"] skip_length [of u] Some ku by simp
  have val: "parse_value n d ?t = parse_value m d ?t" using agreeD(1) [OF a] n m t by simp
  have rest: "parse_members n d (skip cs) = parse_members m d (skip cs)"
    if "parse_value m d ?t = Some (v, r)" and "skip r = c # cs" for v r c cs
    using agreeD(3) [OF a, of cs d] skip_shrinks [OF that(2)] shrinksD(1) [OF all_shrinks that(1)] t n m by linarith
  show ?thesis unfolding parse_members.simps Some ku Let_def option.case prod.case val using rest
    by (simp split: option.split list.split)
qed simp

lemma all_agree: "agree n m"
proof (induction n arbitrary: m)
  case 0
  then show ?case by (simp add: agree_def)
next
  case (Suc n)
  show ?case
  proof (cases m)
    case (Suc k)
    with value_agrees [OF Suc.IH] elems_agrees [OF Suc.IH] members_agrees [OF Suc.IH] show ?thesis
      unfolding agree_def by blast
  qed (simp add: agree_def)
qed

lemma parse_fuel_enough: "2 * length s < n \<Longrightarrow> 2 * length s < m \<Longrightarrow> parse_value n d s = parse_value m d s"
  using all_agree [of n m] unfolding agree_def by blast

lemma parse_json_fuel:
  assumes "parse_fuel s \<le> n"
  shows "parse_value n max_depth (skip s) = parse_value (parse_fuel s) max_depth (skip s)"
  using assms skip_length [of s] by (intro parse_fuel_enough) (simp_all add: parse_fuel_def)

end
