(* ===== verification/Geth.thy ===== *)
theory Geth
  imports GoStd
begin

text \<open>
  What the sources use of go-ethereum's pure packages (\<open>common\<close>, \<open>crypto\<close>, \<open>accounts/abi\<close>),
  which are not part of this repository: a record of functions that the definitions take as an
  argument, the documented behaviour the code relies on as the predicate \<open>geth_laws\<close>, and a
  small concrete instance on which theorems with that hypothesis are applied.
\<close>

section \<open>The functions\<close>

text \<open>A Go value handed to \<open>abi.ABI.Pack\<close>.\<close>

datatype abi_value =
    VAddress address
  | VAddresses "address list"
  | VUint int
  | VBytes "byte list"

text \<open>
  \<open>'abi\<close> is the type \<open>abi.ABI\<close>. \<open>EventID\<close> is the lookup \<open>ABI.Events[name].ID\<close>; \<open>Keccak256\<close>
  takes several slices; the remaining names are go-ethereum's.
\<close>

record 'abi geth =
  Hex :: "address \<Rightarrow> string"
  AddressBytes :: "address \<Rightarrow> byte list"
  BytesToAddress :: "byte list \<Rightarrow> address"
  HexToAddress :: "string \<Rightarrow> address"
  LeftPadBytes :: "byte list \<Rightarrow> nat \<Rightarrow> byte list"
  HashBytes :: "hash \<Rightarrow> byte list"
  BytesToHash :: "byte list \<Rightarrow> hash"
  Keccak256 :: "byte list list \<Rightarrow> byte list"
  abi_JSON :: "string \<Rightarrow> 'abi result"
  Pack :: "'abi \<Rightarrow> string \<Rightarrow> abi_value list \<Rightarrow> byte list result"
  EventID :: "'abi \<Rightarrow> string \<Rightarrow> hash option"

section \<open>What they document\<close>

text \<open>
  An address is its 20 bytes; \<open>BytesToAddress\<close> keeps the last 20 bytes of a longer slice and pads
  a shorter one on the left; \<open>LeftPadBytes\<close> pads with zeros; \<open>Keccak256\<close> hashes the
  concatenation of its arguments to 32 bytes; \<open>Hex\<close> prints \<open>0x\<close> and the hexadecimal digits, in
  mixed case.
\<close>

definition geth_laws :: "('abi, 'z) geth_scheme \<Rightarrow> bool" where
  "geth_laws g \<longleftrightarrow>
     (\<forall>a. length (AddressBytes g a) = 20) \<and>
     (\<forall>a. BytesToAddress g (AddressBytes g a) = a) \<and>
     (\<forall>bs. length bs = 20 \<longrightarrow> AddressBytes g (BytesToAddress g bs) = bs) \<and>
     (\<forall>bs. 20 < length bs \<longrightarrow> BytesToAddress g bs = BytesToAddress g (drop (length bs - 20) bs)) \<and>
     (\<forall>bs. length bs < 20 \<longrightarrow> BytesToAddress g bs = BytesToAddress g (replicate (20 - length bs) 0 @ bs)) \<and>
     (\<forall>bs n. LeftPadBytes g bs n = replicate (n - length bs) 0 @ bs) \<and>
     (\<forall>bs. HexToAddress g (''0x'' @ hex_of_bytes bs) = BytesToAddress g bs) \<and>
     (\<forall>h. length (HashBytes g h) = 32) \<and>
     (\<forall>h. BytesToHash g (HashBytes g h) = h) \<and>
     (\<forall>bs. length bs = 32 \<longrightarrow> HashBytes g (BytesToHash g bs) = bs) \<and>
     (\<forall>xs. length (Keccak256 g xs) = 32) \<and>
     (\<forall>xs. Keccak256 g xs = Keccak256 g [concat xs]) \<and>
     (\<forall>a. ToLower (Hex g a) = ''0x'' @ hex_of_bytes (AddressBytes g a))"

lemma geth_lawsD:
  assumes "geth_laws g"
  shows "length (AddressBytes g a) = 20"
    and "BytesToAddress g (AddressBytes g a) = a"
    and "length bs = 20 \<Longrightarrow> AddressBytes g (BytesToAddress g bs) = bs"
    and "LeftPadBytes g bs n = replicate (n - length bs) 0 @ bs"
    and "HexToAddress g (''0x'' @ hex_of_bytes bs) = BytesToAddress g bs"
    and "length (HashBytes g h) = 32"
    and "BytesToHash g (HashBytes g h) = h"
    and "length (Keccak256 g xs) = 32"
    and "Keccak256 g xs = Keccak256 g [concat xs]"
    and "ToLower (Hex g a) = ''0x'' @ hex_of_bytes (AddressBytes g a)"
  using assms unfolding geth_laws_def
  by - ((elim conjE, erule spec) | (elim conjE, erule allE, erule spec) | (elim conjE, erule allE, erule mp, assumption))+

lemma geth_AddressBytes_inj: "geth_laws g \<Longrightarrow> inj (AddressBytes g)"
  by (rule inj_on_inverseI [where g = "BytesToAddress g"]) (simp add: geth_lawsD)

section \<open>A concrete instance\<close>

text \<open>Big-endian bytes of a word, and back.\<close>

definition word_bytes :: "nat \<Rightarrow> 'a::len word \<Rightarrow> byte list" where
  "word_bytes n w = map (\<lambda>i. ucast (drop_bit (8 * i) w)) (rev [0..<n])"

fun bytes_nat :: "byte list \<Rightarrow> nat" where
  "bytes_nat [] = 0"
| "bytes_nat (b # bs) = unat b * 256 ^ length bs + bytes_nat bs"

lemma length_word_bytes [simp]: "length (word_bytes n w) = n"
  by (simp add: word_bytes_def)

lemma word_bytes_Suc: "word_bytes (Suc n) w = ucast (drop_bit (8 * n) w) # word_bytes n w"
  by (simp add: word_bytes_def)

lemma unat_byte_of: "unat (ucast (drop_bit k w) :: byte) = (unat w div 2 ^ k) mod 256"
proof -
  have "unat (drop_bit k w) = unat w div 2 ^ k"
    by (rule trans [OF unat_drop_bit_eq drop_bit_eq_div])
  moreover have "unat (ucast (drop_bit k w) :: byte) = unat (drop_bit k w) mod 2 ^ 8"
    by (simp add: unsigned_ucast_eq take_bit_eq_mod del: drop_bit_eq_div)
  ultimately show ?thesis by simp
qed

lemma word_bytes_code [code]: "word_bytes n w = map (\<lambda>i. of_nat (unat w div 256 ^ i mod 256)) (rev [0..<n])"
proof -
  have "ucast (drop_bit (8 * i) w) = (of_nat (unat w div 256 ^ i mod 256) :: byte)" for i
  proof -
    have u: "unat (ucast (drop_bit (8 * i) w) :: byte) = unat w div 256 ^ i mod 256"
      unfolding unat_byte_of by (simp add: power_mult)
    have "ucast (drop_bit (8 * i) w) = (of_nat (unat (ucast (drop_bit (8 * i) w) :: byte)) :: byte)"
      by simp
    then show ?thesis unfolding u .
  qed
  then show ?thesis by (simp add: word_bytes_def)
qed

lemma bytes_nat_word_bytes: "bytes_nat (word_bytes n w) = unat w mod 256 ^ n"
proof (induction n)
  case 0
  then show ?case by (simp add: word_bytes_def)
next
  case (Suc n)
  have "(2::nat) ^ (8 * n) = 256 ^ n" by (simp add: power_mult)
  then show ?case
    using mod_mult2_eq [of "unat w" "256 ^ n" 256]
    by (simp add: word_bytes_Suc unat_byte_of Suc mult.commute)
qed

lemma bytes_nat_bound: "bytes_nat bs < 256 ^ length bs"
proof (induction bs)
  case (Cons b bs)
  have "unat b \<le> 255" using unsigned_less [of b, where ?'a = nat] by simp
  then have "unat b * 256 ^ length bs \<le> 255 * 256 ^ length bs" by (rule mult_right_mono) simp
  moreover have "256 ^ length (b # bs) = 255 * 256 ^ length bs + (256 ^ length bs :: nat)" by simp
  ultimately show ?case using Cons unfolding bytes_nat.simps by linarith
qed simp

lemma word_bytes_of_nat: "n = length bs \<Longrightarrow> LENGTH('a::len) = 8 * n \<Longrightarrow> word_bytes n (of_nat (bytes_nat bs) :: 'a word) = bs"
proof -
  assume n: "n = length bs" and len: "LENGTH('a) = 8 * n"
  have inj: "bytes_nat xs = bytes_nat ys \<Longrightarrow> length xs = length ys \<Longrightarrow> xs = ys" for xs ys
  proof (induction xs arbitrary: ys)
    case (Cons x xs)
    then obtain y zs where ys: "ys = y # zs" and l: "length xs = length zs" by (cases ys) auto
    let ?m = "256 ^ length zs :: nat"
    from Cons.prems ys l have eq: "unat x * ?m + bytes_nat xs = unat y * ?m + bytes_nat zs" by simp
    have bx: "bytes_nat xs < ?m" and bz: "bytes_nat zs < ?m"
      using bytes_nat_bound [of xs] bytes_nat_bound [of zs] l by simp_all
    from eq bx bz have "(unat x * ?m + bytes_nat xs) mod ?m = bytes_nat zs"
      and "(unat x * ?m + bytes_nat xs) div ?m = unat y" by simp_all
    with bx have "bytes_nat xs = bytes_nat zs" and "unat x = unat y" by simp_all
    with Cons.IH l ys show ?case by (simp add: word_unat_eq_iff)
  qed simp
  have "(256::nat) ^ n = 2 ^ (8 * n)" by (simp add: power_mult)
  with bytes_nat_bound [of bs] n len have "unat (of_nat (bytes_nat bs) :: 'a word) = bytes_nat bs"
    by (simp add: unat_of_nat)
  with bytes_nat_word_bytes [of n "of_nat (bytes_nat bs) :: 'a word"] bytes_nat_bound [of bs] n
  show ?thesis by (intro inj) simp_all
qed

lemma bytes_nat_zeros [simp]: "bytes_nat (replicate k 0 @ bs) = bytes_nat bs"
  by (induction k) simp_all

lemma word_bytes_20 [simp]:
  "length bs = 20 \<Longrightarrow> word_bytes 20 (of_nat (bytes_nat bs) :: address) = bs"
  "length bs = 32 \<Longrightarrow> word_bytes 32 (of_nat (bytes_nat bs) :: hash) = bs"
  by (simp_all add: word_bytes_of_nat)

lemma of_nat_word_bytes [simp]:
  "of_nat (bytes_nat (word_bytes 20 a)) = (a :: address)"
  "of_nat (bytes_nat (word_bytes 32 h)) = (h :: hash)"
proof -
  have "unat a < 256 ^ 20" using unsigned_less [of a, where ?'a = nat] by simp
  then show "of_nat (bytes_nat (word_bytes 20 a)) = a" unfolding bytes_nat_word_bytes by simp
  have "unat h < 256 ^ 32" using unsigned_less [of h, where ?'a = nat] by simp
  then show "of_nat (bytes_nat (word_bytes 32 h)) = h" unfolding bytes_nat_word_bytes by simp
qed

text \<open>
  The instance: addresses and hashes in big-endian bytes, a checksum in place of the hash
  function, ABI values encoded as the concatenation of their words, and the text of an
  ABI as its value.
\<close>

definition last_bytes :: "nat \<Rightarrow> byte list \<Rightarrow> byte list" where
  "last_bytes n bs = drop (length bs - n) bs"

definition demo_address :: "byte list \<Rightarrow> address" where
  "demo_address bs = of_nat (bytes_nat (last_bytes 20 bs))"

definition demo_hash :: "byte list \<Rightarrow> byte list" where
  "demo_hash bs =
     (let s = foldl (\<lambda>h b. (3 * h + unat b + 1) mod 65536) 0 bs
      in replicate 30 0 @ [of_nat (s div 256), of_nat (s mod 256)])"

definition demo_hex :: "string \<Rightarrow> address" where
  "demo_hex s = (case hex_DecodeString (TrimPrefix s ''0x'') of Ok bs \<Rightarrow> demo_address bs | _ \<Rightarrow> 0)"

fun demo_encode :: "abi_value \<Rightarrow> byte list" where
  "demo_encode (VAddress a) = word_bytes 20 a"
| "demo_encode (VAddresses as) = of_nat (length as) # concat (map (word_bytes 20) as)"
| "demo_encode (VUint i) = word_bytes 32 (of_int i :: hash)"
| "demo_encode (VBytes bs) = of_nat (length bs) # bs"

definition demo_geth :: "string geth" where
  "demo_geth =
     \<lparr>Hex = \<lambda>a. ''0x'' @ hex_of_bytes (word_bytes 20 a),
      AddressBytes = word_bytes 20,
      BytesToAddress = demo_address,
      HexToAddress = demo_hex,
      LeftPadBytes = \<lambda>bs n. replicate (n - length bs) 0 @ bs,
      HashBytes = word_bytes 32,
      BytesToHash = \<lambda>bs. of_nat (bytes_nat (last_bytes 32 bs)),
      Keccak256 = \<lambda>xs. demo_hash (concat xs),
      abi_JSON = \<lambda>s. if s = [] then Err (errmsg ''EOF'') else Ok s,
      Pack = \<lambda>a f vs. Ok (concat (map demo_encode vs)),
      EventID = \<lambda>a e. if e = ''ProxyCreation'' then Some 77 else None\<rparr>"

lemma to_lower_hex_digit [simp]: "d < 16 \<Longrightarrow> to_lower (hex_digit d) = hex_digit d"
  by (auto simp: to_lower_def hex_digit_def of_char_of Let_def)

lemma ToLower_hex [simp]: "ToLower (hex_of_bytes bs) = hex_of_bytes bs"
proof (induction bs)
  case (Cons b bs)
  have "unat b < 256" using unsigned_less [of b, where ?'a = nat] by simp
  then have "unat b div 16 < 16" by simp
  with Cons show ?case by (simp add: ToLower_def hex_of_bytes_Cons)
qed (simp add: ToLower_def hex_of_bytes_def)

lemma ToLower_append: "ToLower (a @ b) = ToLower a @ ToLower b"
  by (simp add: ToLower_def)

lemma ToLower_0x: "ToLower ''0x'' = ''0x''"
  by (simp add: ToLower_def to_lower_def)

lemma last_bytes_all [simp]: "length bs = n \<Longrightarrow> last_bytes n bs = bs"
  by (simp add: last_bytes_def)

lemma demo_geth_laws: "geth_laws demo_geth"
  unfolding geth_laws_def
proof (intro conjI allI impI)
  fix a :: address
  show "ToLower (Hex demo_geth a) = ''0x'' @ hex_of_bytes (AddressBytes demo_geth a)"
    unfolding demo_geth_def using ToLower_0x ToLower_append [of "''0x''"] by simp
qed (auto simp: demo_geth_def demo_address_def demo_hash_def Let_def demo_hex_def last_bytes_def TrimPrefix_def)

lemma demo_abi_JSON [simp]: "abi_JSON demo_geth t = (if t = [] then Err (errmsg ''EOF'') else Ok t)"
  by (simp add: demo_geth_def)

lemma demo_Pack [simp]: "Pack demo_geth a f vs = Ok (concat (map demo_encode vs))"
  by (simp add: demo_geth_def)

lemma demo_Keccak256: "Keccak256 demo_geth xs = demo_hash (concat xs)"
  by (simp add: demo_geth_def)

lemma demo_AddressBytes: "AddressBytes demo_geth = word_bytes 20"
  by (simp add: demo_geth_def)

end
