(* ===== verification/Chain.thy ===== *)
theory Chain
  imports GoStd
begin

text \<open>
  \<open>pkg/chain\<close>: the chain record, the built-in chains and the process-wide registry with its
  operations \<open>Register\<close>, \<open>Lookup\<close>, \<open>Fork\<close> and \<open>Deregister\<close>. A pointer to a chain is an option
  (nil is \<open>None\<close>); the registry maps the decimal chain ID to the chain it points to. The
  read-write mutex makes each operation one step. No function of the sources writes to a
  chain after it has been registered (\<open>Fork\<close> copies), so a pointer is its contents.
\<close>

section \<open>Registries\<close>

text \<open>
  The contract that the chain registry and the version registry share: a later registration
  of the same key replaces an earlier one and no other entry changes.
\<close>

locale registry =
  fixes key :: "'v \<Rightarrow> 'k"
    and valid :: "'v \<Rightarrow> bool"
    and put :: "'v \<Rightarrow> 'r \<Rightarrow> 'r"
    and get :: "'k \<Rightarrow> 'r \<Rightarrow> 'v option"
  assumes get_put: "valid v \<Longrightarrow> get k (put v r) = (if k = key v then Some v else get k r)"
    and put_invalid: "\<not> valid v \<Longrightarrow> put v r = r"
begin

lemma get_fold_other: "k \<notin> key ` set vs \<Longrightarrow> get k (fold put vs r) = get k r"
proof (induction vs arbitrary: r)
  case (Cons v vs)
  then show ?case by (cases "valid v") (simp_all add: get_put put_invalid)
qed simp

lemma get_fold:
  "distinct (map key vs) \<Longrightarrow> v \<in> set vs \<Longrightarrow> valid v \<Longrightarrow> get (key v) (fold put vs r) = Some v"
proof (induction vs arbitrary: r)
  case (Cons u vs)
  show ?case
  proof (cases "v = u")
    case True
    with Cons.prems have "key v \<notin> key ` set vs" by simp
    with True Cons.prems(3) show ?thesis by (simp add: get_fold_other get_put)
  next
    case False
    with Cons show ?thesis by simp
  qed
qed simp

lemma put_put: "valid u \<Longrightarrow> valid v \<Longrightarrow> key u = key v \<Longrightarrow> get k (put v (put u r)) = get k (put v r)"
  by (simp add: get_put)

end

section \<open>Chains\<close>

record chain =
  ID :: "int option"
  Name :: string
  IsL2 :: bool
  forksChainID :: "int option"

definition ForksChainID :: "chain \<Rightarrow> int option" where
  "ForksChainID c = forksChainID c"

definition known :: "int \<Rightarrow> string \<Rightarrow> bool \<Rightarrow> chain" where
  "known i n l2 = \<lparr>ID = Some i, Name = n, IsL2 = l2, forksChainID = None\<rparr>"

definition Local :: chain where "Local = known 31337 ''Local'' False"
definition Ethereum :: chain where "Ethereum = known 1 ''Ethereum'' False"
definition Sepolia :: chain where "Sepolia = known 11155111 ''Sepolia'' False"
definition Polygon :: chain where "Polygon = known 137 ''Polygon'' True"
definition PolygonZkEVM :: chain where "PolygonZkEVM = known 1101 ''Polygon zkEVM'' True"
definition PolygonAmoy :: chain where "PolygonAmoy = known 80002 ''Polygon Amoy'' True"
definition ArbitrumOne :: chain where "ArbitrumOne = known 42161 ''Arbitrum One'' True"
definition ArbitrumNova :: chain where "ArbitrumNova = known 42170 ''Arbitrum Nova'' True"
definition ArbitrumSepolia :: chain where "ArbitrumSepolia = known 421614 ''Arbitrum Sepolia'' True"
definition Base :: chain where "Base = known 8453 ''Base'' True"
definition BaseSepolia :: chain where "BaseSepolia = known 84532 ''Base Sepolia'' True"
definition Optimism :: chain where "Optimism = known 10 ''Optimism'' True"
definition OptimismSepolia :: chain where "OptimismSepolia = known 11155420 ''Optimism Sepolia'' True"
definition BNBSmartChain :: chain where "BNBSmartChain = known 56 ''BNB Smart Chain'' False"
definition BNBSmartChainTestnet :: chain where "BNBSmartChainTestnet = known 97 ''BNB Smart Chain Testnet'' False"

definition known_chains :: "chain list" where
  "known_chains =
     [Local, Ethereum, Sepolia, Polygon, PolygonZkEVM, PolygonAmoy, ArbitrumOne, ArbitrumNova, ArbitrumSepolia, Base, BaseSepolia, Optimism, OptimismSepolia, BNBSmartChain, BNBSmartChainTestnet]"

lemmas known_defs = known_def Local_def Ethereum_def Sepolia_def Polygon_def PolygonZkEVM_def PolygonAmoy_def ArbitrumOne_def ArbitrumNova_def ArbitrumSepolia_def Base_def BaseSepolia_def Optimism_def OptimismSepolia_def BNBSmartChain_def BNBSmartChainTestnet_def

section \<open>The registry\<close>

type_synonym chain_registry = "string \<rightharpoonup> chain"

text \<open>The package's \<open>init\<close> stores the built-in chains, in this order, without any check.\<close>

definition init_registry :: chain_registry where
  "init_registry = fold (\<lambda>c r. r(big_String (ID c) \<mapsto> c)) known_chains Map.empty"

definition Register :: "chain option \<Rightarrow> chain_registry \<Rightarrow> unit result \<times> chain_registry" where
  "Register c r =
     (case c of
        None \<Rightarrow> (Err (errmsg ''cannot register a nil chain''), r)
      | Some c \<Rightarrow>
          if ID c = None then (Err (errmsg ''cannot register a chain with a nil ID''), r)
          else if TrimSpace (Name c) = [] then (Err (errmsg ''cannot register a chain with an empty name''), r)
          else (Ok (), r(big_String (ID c) \<mapsto> c)))"

definition Lookup :: "int option \<Rightarrow> chain_registry \<Rightarrow> chain result" where
  "Lookup i r =
     (if i = None then Err (errmsg ''lookup called with nil ID'')
      else
        (case r (big_String i) of
           None \<Rightarrow> Err (Errorf (''chain ID %s is not registered '' @ em_dash @ '' use chain.Register() to add it'') [EInt i] [])
         | Some c \<Rightarrow> Ok c))"

text \<open>\<open>Fork\<close> dereferences both pointers before any check.\<close>

definition Fork :: "chain option \<Rightarrow> chain option \<Rightarrow> chain_registry \<Rightarrow> chain result \<times> chain_registry" where
  "Fork c src r =
     (case (c, src) of
        (Some c, Some s) \<Rightarrow>
          (let forked = c\<lparr>forksChainID := ID s\<rparr> in
           (case Register (Some forked) r of
              (Err e, r') \<Rightarrow> (Err e, r')
            | (Panic p, r') \<Rightarrow> (Panic p, r')
            | (Ok _, r') \<Rightarrow> (Ok forked, r')))
      | _ \<Rightarrow> (Panic ''nil pointer dereference'', r))"

definition Deregister :: "int option \<Rightarrow> chain_registry \<Rightarrow> chain_registry" where
  "Deregister i r = r(big_String i := None)"

section \<open>What the registry guarantees\<close>

definition registrable :: "chain \<Rightarrow> bool" where
  "registrable c \<longleftrightarrow> ID c \<noteq> None \<and> TrimSpace (Name c) \<noteq> []"

lemma Register_ok: "registrable c \<Longrightarrow> Register (Some c) r = (Ok (), r(big_String (ID c) \<mapsto> c))"
  by (simp add: registrable_def Register_def)

lemma Register_bad: "\<not> registrable c \<Longrightarrow> snd (Register (Some c) r) = r \<and> (\<exists>e. fst (Register (Some c) r) = Err e)"
  by (auto simp: registrable_def Register_def)

lemma big_String_eq [simp]: "big_String a = big_String b \<longleftrightarrow> a = b"
  using big_String_inj by blast

definition found :: "int option \<Rightarrow> chain_registry \<Rightarrow> chain option" where
  "found i r = (case Lookup i r of Ok c \<Rightarrow> Some c | _ \<Rightarrow> None)"

lemma found_def': "found i r = (if i = None then None else r (big_String i))"
  by (simp add: found_def Lookup_def split: option.splits)

interpretation chains: registry ID registrable "\<lambda>c r. snd (Register (Some c) r)" found
proof unfold_locales
  fix v r k
  assume "registrable v"
  then show "found k (snd (Register (Some v) r)) = (if k = ID v then Some v else found k r)"
    by (auto simp: Register_ok found_def' registrable_def)
next
  fix v r
  assume "\<not> registrable v"
  then show "snd (Register (Some v) r) = r" by (simp add: Register_bad)
qed

text \<open>Every entry is a registrable chain stored under its own ID.\<close>

definition registry_ok :: "chain_registry \<Rightarrow> bool" where
  "registry_ok r \<longleftrightarrow> (\<forall>k c. r k = Some c \<longrightarrow> registrable c \<and> k = big_String (ID c))"

lemma Register_registry_ok: "registry_ok r \<Longrightarrow> registry_ok (snd (Register c r))"
  by (auto simp: registry_ok_def Register_def registrable_def split: option.splits)

lemma Fork_registry_ok: "registry_ok r \<Longrightarrow> registry_ok (snd (Fork c s r))"
  using Register_registry_ok by (auto simp: Fork_def Let_def split: option.splits prod.splits result.splits)
    (metis snd_conv)+

lemma Deregister_registry_ok: "registry_ok r \<Longrightarrow> registry_ok (Deregister i r)"
  by (simp add: registry_ok_def Deregister_def)

lemma known_chains_registrable: "\<forall>c \<in> set known_chains. registrable c"
  by (simp add: known_chains_def known_defs registrable_def TrimSpace_def trim_by.simps codes_def
      space1_def space2_def space3_def)

lemma known_chains_distinct: "distinct (map ID known_chains)"
  by (simp add: known_chains_def known_defs)

lemma init_registry_Register: "init_registry = fold (\<lambda>c r. snd (Register (Some c) r)) known_chains Map.empty"
proof -
  have "\<forall>c \<in> set cs. registrable c \<Longrightarrow>
      fold (\<lambda>c r. r(big_String (ID c) \<mapsto> c)) cs r = fold (\<lambda>c r. snd (Register (Some c) r)) cs r" for cs r
    by (induction cs arbitrary: r) (simp_all add: Register_ok)
  with known_chains_registrable show ?thesis by (simp add: init_registry_def)
qed

lemma fold_Register_ok:
  "registry_ok r \<Longrightarrow> registry_ok (fold (\<lambda>c r. snd (Register (Some c) r)) cs r)"
  by (induction cs arbitrary: r) (auto simp: Register_registry_ok)

lemma init_registry_ok: "registry_ok init_registry"
  unfolding init_registry_Register by (rule fold_Register_ok) (simp add: registry_ok_def)

text \<open>The operations a program can apply to the registry.\<close>

datatype registry_op = DoRegister "chain option" | DoFork "chain option" "chain option" | DoDeregister "int option"

fun apply_op :: "registry_op \<Rightarrow> chain_registry \<Rightarrow> chain_registry" where
  "apply_op (DoRegister c) r = snd (Register c r)"
| "apply_op (DoFork c s) r = snd (Fork c s r)"
| "apply_op (DoDeregister i) r = Deregister i r"

text \<open>
  C40: after the package's initialisation and any sequence of registrations, forks and
  deregistrations, what \<open>Lookup\<close> returns for an ID is a chain with exactly that ID and a name
  that is not blank.
\<close>

theorem chain_lookup_sound:
  assumes "Lookup i (fold apply_op ops init_registry) = Ok c"
  shows "ID c = i \<and> i \<noteq> None \<and> TrimSpace (Name c) \<noteq> []"
proof -
  have "registry_ok (fold apply_op ops r)" if "registry_ok r" for r
    using that
  proof (induction ops arbitrary: r)
    case (Cons op ops)
    from Cons.prems have "registry_ok (apply_op op r)"
      by (cases op) (auto intro: Register_registry_ok Fork_registry_ok Deregister_registry_ok)
    then show ?case using Cons.IH by simp
  qed simp
  from this [OF init_registry_ok] have ok: "registry_ok (fold apply_op ops init_registry)" .
  from assms have i: "i \<noteq> None" and "fold apply_op ops init_registry (big_String i) = Some c"
    by (simp_all add: Lookup_def split: if_splits option.splits)
  with ok have "registrable c" and "big_String i = big_String (ID c)" by (simp_all add: registry_ok_def)
  with i show ?thesis using big_String_inj by (metis registrable_def)
qed

theorem chain_lookup_sound_witness:
  "let r = fold apply_op [DoFork (Some Local) (Some Ethereum), DoDeregister (Some 1)] init_registry
   in \<exists>c. Lookup (Some 31337) r = Ok c \<and> ID c = Some 31337 \<and> TrimSpace (Name c) \<noteq> []"
proof -
  let ?ops = "[DoFork (Some Local) (Some Ethereum), DoDeregister (Some 1)]"
  have "registrable (Local\<lparr>forksChainID := Some 1\<rparr>)"
    using known_chains_registrable by (simp add: known_chains_def registrable_def)
  then have "Lookup (Some 31337) (fold apply_op ?ops init_registry) = Ok (Local\<lparr>forksChainID := Some 1\<rparr>)"
    using dec_int_inj [of 31337 1]
    by (simp add: Fork_def Let_def Register_ok Ethereum_def Deregister_def Lookup_def Local_def known_def)
      (metis dec_int_inj numeral_eq_one_iff semiring_norm(86))
  from this chain_lookup_sound [OF this] show ?thesis by (simp add: Let_def)
qed

text \<open>
  The fifteen built-in chains are all found after initialisation, each under its own ID:
  no two of them share an ID, so none hides another.
\<close>

theorem known_chains_found:
  "length known_chains = 15 \<and> (\<forall>c \<in> set known_chains. Lookup (ID c) init_registry = Ok c)"
proof
  show "length known_chains = 15" by (simp add: known_chains_def)
  show "\<forall>c \<in> set known_chains. Lookup (ID c) init_registry = Ok c"
  proof
    fix c
    assume c: "c \<in> set known_chains"
    with known_chains_registrable have "registrable c" by blast
    with chains.get_fold [OF known_chains_distinct c] have "found (ID c) init_registry = Some c"
      by (simp add: init_registry_Register)
    then show "Lookup (ID c) init_registry = Ok c"
      by (auto simp: found_def split: result.splits)
  qed
qed

theorem known_chains_found_witness: "Lookup (Some 137) init_registry = Ok Polygon"
  using known_chains_found by (auto simp: known_chains_def Polygon_def known_def)

text \<open>
  A fork keeps every property of the chain but the ID whose contracts it uses, it is what
  \<open>Lookup\<close> returns for the chain's ID from then on, and every other entry, the source
  included, is untouched.
\<close>

theorem fork_registers:
  assumes "Fork (Some c) (Some s) r = (Ok f, r')"
  shows "f = c\<lparr>forksChainID := ID s\<rparr> \<and> Lookup (ID c) r' = Ok f \<and>
    (\<forall>i. i \<noteq> ID c \<longrightarrow> Lookup i r' = Lookup i r)"
proof -
  let ?f = "c\<lparr>forksChainID := ID s\<rparr>"
  have reg: "registrable ?f"
  proof (rule ccontr)
    assume "\<not> registrable ?f"
    then have "\<exists>e. fst (Register (Some ?f) r) = Err e" by (simp add: Register_bad)
    with assms show False by (auto simp: Fork_def Let_def split: prod.splits result.splits)
  qed
  with assms have f: "f = ?f" and r': "r' = r(big_String (ID c) \<mapsto> ?f)"
    by (auto simp: Fork_def Let_def Register_ok)
  with reg show ?thesis by (auto simp: Lookup_def registrable_def)
qed

theorem fork_registers_witness:
  "Local\<lparr>forksChainID := Some 11155111\<rparr> = Local\<lparr>forksChainID := ID Sepolia\<rparr> \<and>
   Lookup (Some 31337) (snd (Fork (Some Local) (Some Sepolia) init_registry)) =
     Ok (Local\<lparr>forksChainID := Some 11155111\<rparr>) \<and>
   Lookup (Some 1) (snd (Fork (Some Local) (Some Sepolia) init_registry)) = Lookup (Some 1) init_registry"
proof -
  have "registrable (Local\<lparr>forksChainID := Some 11155111\<rparr>)"
    using known_chains_registrable by (simp add: known_chains_def registrable_def)
  then have "Fork (Some Local) (Some Sepolia) init_registry =
      (Ok (Local\<lparr>forksChainID := Some 11155111\<rparr>),
       snd (Fork (Some Local) (Some Sepolia) init_registry))"
    by (simp add: Fork_def Let_def Register_ok Sepolia_def known_def)
  from fork_registers [OF this] show ?thesis by (simp add: Local_def Sepolia_def known_def)
qed

end
