(* ===== verification/Versions.thy ===== *)
theory Versions
  imports Json Geth Chain
begin

text \<open>
  \<open>internal/versions\<close> and \<open>pkg/version\<close>: decoding Safe's deployment files, \<open>Load\<close>, the
  deployments with their caches, the resolution of forked chains, the registry of versions and
  the three embedded versions. The ABI parser and the address parser are go-ethereum's.
\<close>

section \<open>Decoding a deployment file\<close>

record deploymentEntry =
  de_Address :: string
  de_CodeHash :: string

record deploymentJSON =
  Deployments :: "string \<rightharpoonup> deploymentEntry"
  NetworkAddresses :: "string \<rightharpoonup> string list"
  d_ABI :: string

definition UnmarshalTypeError :: gerr where
  "UnmarshalTypeError = Errorf ''json: cannot unmarshal value'' [] []"

text \<open>A JSON value decoded into a variable of type \<open>string\<close> that holds \<open>cur\<close>.\<close>

fun decode_string :: "string \<Rightarrow> json \<Rightarrow> string option" where
  "decode_string cur (JStr s) = Some s"
| "decode_string cur JNull = Some cur"
| "decode_string cur _ = None"

fun decode_strings :: "json \<Rightarrow> string list option" where
  "decode_strings (JArr vs) = those (map (decode_string []) vs)"
| "decode_strings JNull = Some []"
| "decode_strings _ = None"

text \<open>\<open>networkAddressMap.UnmarshalJSON\<close>: a value is an array of types or a single type.\<close>

definition decode_types :: "json \<Rightarrow> string list option" where
  "decode_types v =
     (case decode_strings v of
        Some arr \<Rightarrow> Some arr
      | None \<Rightarrow> map_option (\<lambda>s. [s]) (decode_string [] v))"

type_synonym members = "(string \<times> string \<times> json) list"

text \<open>The map a JSON object decodes to: a later member replaces an earlier one of the same name.\<close>

definition member_map :: "members \<Rightarrow> string \<rightharpoonup> json" where
  "member_map ms = map_of (rev (map (\<lambda>(k, raw, v). (k, v)) ms))"

definition bad_types :: "members \<Rightarrow> string list" where
  "bad_types ms = filter (\<lambda>k. Option.bind (member_map ms k) decode_types = None) (map fst ms)"

text \<open>
  The loop runs over a Go map, in no fixed order; of several malformed entries the model
  reports the one that comes first in the file.
\<close>

definition networkAddressMap_UnmarshalJSON :: "json \<Rightarrow> (string \<rightharpoonup> string list) result" where
  "networkAddressMap_UnmarshalJSON data =
     (case data of
        JNull \<Rightarrow> Ok Map.empty
      | JObj ms \<Rightarrow>
          (case bad_types ms of
             [] \<Rightarrow> Ok (\<lambda>k. Option.bind (member_map ms k) decode_types)
           | k # _ \<Rightarrow> Err (Errorf ''unexpected format for networkAddresses[%s]'' [EStr k] []))
      | _ \<Rightarrow> Err (wrapf ''failed to parse networkAddresses: %w'' UnmarshalTypeError))"

definition field :: "string \<Rightarrow> string \<Rightarrow> bool" where
  "field k name \<longleftrightarrow> EqualFold k name"

fun decode_entry_members :: "deploymentEntry \<Rightarrow> members \<Rightarrow> deploymentEntry option" where
  "decode_entry_members e [] = Some e"
| "decode_entry_members e ((k, raw, v) # ms) =
     (if field k ''address'' then
        Option.bind (decode_string (de_Address e) v) (\<lambda>s. decode_entry_members (e\<lparr>de_Address := s\<rparr>) ms)
      else if field k ''codeHash'' then
        Option.bind (decode_string (de_CodeHash e) v) (\<lambda>s. decode_entry_members (e\<lparr>de_CodeHash := s\<rparr>) ms)
      else decode_entry_members e ms)"

definition no_entry :: deploymentEntry where
  "no_entry = \<lparr>de_Address = [], de_CodeHash = []\<rparr>"

definition decode_entry :: "json \<Rightarrow> deploymentEntry option" where
  "decode_entry v =
     (case v of JNull \<Rightarrow> Some no_entry | JObj ms \<Rightarrow> decode_entry_members no_entry ms | _ \<Rightarrow> None)"

fun decode_entries :: "(string \<rightharpoonup> deploymentEntry) \<Rightarrow> members \<Rightarrow> (string \<rightharpoonup> deploymentEntry) option" where
  "decode_entries m [] = Some m"
| "decode_entries m ((k, raw, v) # ms) =
     Option.bind (decode_entry v) (\<lambda>e. decode_entries (m(k \<mapsto> e)) ms)"

text \<open>
  The members of the document, in order. A value of the wrong type is an error that the decoder keeps
  (\<open>saved\<close>) and reports when it is done; an error of \<open>UnmarshalJSON\<close> ends the decoding at once.
\<close>

fun decode_members :: "bool \<Rightarrow> deploymentJSON \<Rightarrow> members \<Rightarrow> deploymentJSON result" where
  "decode_members saved d [] = (if saved then Err UnmarshalTypeError else Ok d)"
| "decode_members saved d ((k, raw, v) # ms) =
     (if field k ''deployments'' then
        (case v of
           JNull \<Rightarrow> decode_members saved (d\<lparr>Deployments := Map.empty\<rparr>) ms
         | JObj es \<Rightarrow>
             (case decode_entries (Deployments d) es of
                Some m \<Rightarrow> decode_members saved (d\<lparr>Deployments := m\<rparr>) ms
              | None \<Rightarrow> decode_members True d ms)
         | _ \<Rightarrow> decode_members True d ms)
      else if field k ''networkAddresses'' then
        chkR (networkAddressMap_UnmarshalJSON v) Err (\<lambda>m. decode_members saved (d\<lparr>NetworkAddresses := m\<rparr>) ms)
      else if field k ''abi'' then decode_members saved (d\<lparr>d_ABI := raw\<rparr>) ms
      else decode_members saved d ms)"

definition no_deployment :: deploymentJSON where
  "no_deployment = \<lparr>Deployments = Map.empty, NetworkAddresses = Map.empty, d_ABI = []\<rparr>"

definition Unmarshal_deployment :: "string \<Rightarrow> deploymentJSON result" where
  "Unmarshal_deployment text =
     (case parse_json text of
        None \<Rightarrow> Err (Errorf ''json: syntax error'' [] [])
      | Some JNull \<Rightarrow> Ok no_deployment
      | Some (JObj ms) \<Rightarrow> decode_members False no_deployment ms
      | Some _ \<Rightarrow> Err UnmarshalTypeError)"

section \<open>Load\<close>

record 'abi ParsedDeployment =
  Address :: address
  ABI :: 'abi

definition ErrUnknownVersion :: gerr where "ErrUnknownVersion = Sentinel ''versions.ErrUnknownVersion''"
definition ErrVersionNotOnChain :: gerr where "ErrVersionNotOnChain = Sentinel ''versions.ErrVersionNotOnChain''"

definition zksyncDeploymentType :: string where
  "zksyncDeploymentType = ''zksync''"

text \<open>The loop that chooses the type; the empty string stands for none, as in the code.\<close>

fun preferred_type :: "string list \<Rightarrow> string" where
  "preferred_type [] = []"
| "preferred_type (dt # dts) = (if EqualFold dt zksyncDeploymentType then preferred_type dts else dt)"

definition Load :: "('abi, 'z) geth_scheme \<Rightarrow> string \<Rightarrow> int option \<Rightarrow> 'abi ParsedDeployment result" where
  "Load g jsonBytes chainID =
     chkR (Unmarshal_deployment jsonBytes) (\<lambda>e. Err (wrapf ''failed to parse deployment JSON: %w'' e)) (\<lambda>d.
       case NetworkAddresses d (big_String chainID) of
         None \<Rightarrow> Err (Errorf ''%w: chain ID %s is not supported in this Safe version'' [EInt chainID] [ErrVersionNotOnChain])
       | Some deploymentTypes \<Rightarrow>
           if deploymentTypes = [] then
             Err (Errorf ''%w: chain ID %s has empty deployment types'' [EInt chainID] [ErrVersionNotOnChain])
           else
             (let preferredType = preferred_type deploymentTypes in
              if preferredType = [] then
                Err (Errorf ''%w: chain ID %s has no supported EVM deployment types %v''
                  [EInt chainID, EStrs deploymentTypes] [ErrVersionNotOnChain])
              else
                (case Deployments d preferredType of
                   None \<Rightarrow> Err (Errorf ''deployment type %q not found for chain ID %s'' [EStr preferredType, EInt chainID] [])
                 | Some entry \<Rightarrow>
                     if de_Address entry = [] then
                       Err (Errorf ''empty address for deployment type %q on chain ID %s'' [EStr preferredType, EInt chainID] [])
                     else
                       chkR (abi_JSON g (d_ABI d))
                         (\<lambda>e. Err (Errorf ''failed to parse ABI for chain ID %s: %w'' [EInt chainID] [e]))
                         (\<lambda>parsedABI. Ok \<lparr>Address = HexToAddress g (de_Address entry), ABI = parsedABI\<rparr>))))"

section \<open>What Load resolves\<close>

definition evm_type :: "string \<Rightarrow> bool" where
  "evm_type dt \<longleftrightarrow> \<not> EqualFold dt zksyncDeploymentType"

lemma preferred_type_find:
  "preferred_type dts = (case find evm_type dts of None \<Rightarrow> [] | Some dt \<Rightarrow> dt)"
  by (induction dts) (simp_all add: evm_type_def)

text \<open>
  The chain has a deployment type of the standard EVM in this file: the first type of its list
  that is not ZkSync's, which must not be the empty string.
\<close>

definition evm_deployment :: "deploymentJSON \<Rightarrow> int option \<Rightarrow> string option" where
  "evm_deployment d i =
     (case NetworkAddresses d (big_String i) of
        None \<Rightarrow> None
      | Some dts \<Rightarrow> (case find evm_type dts of Some dt \<Rightarrow> if dt = [] then None else Some dt | None \<Rightarrow> None))"

lemma Load_none:
  assumes "Unmarshal_deployment j = Ok d" and "evm_deployment d i = None"
  shows "\<exists>e. Load g j i = Err e \<and> errors_is e ErrVersionNotOnChain"
  using assms
  by (auto simp: Load_def Let_def evm_deployment_def preferred_type_find list_ex_iff
      split: option.splits if_splits)

lemma Load_some:
  assumes "Unmarshal_deployment j = Ok d" and "evm_deployment d i = Some dt"
  shows "Load g j i =
     (case Deployments d dt of
        None \<Rightarrow> Err (Errorf ''deployment type %q not found for chain ID %s'' [EStr dt, EInt i] [])
      | Some entry \<Rightarrow>
          if de_Address entry = [] then
            Err (Errorf ''empty address for deployment type %q on chain ID %s'' [EStr dt, EInt i] [])
          else
            chkR (abi_JSON g (d_ABI d))
              (\<lambda>e. Err (Errorf ''failed to parse ABI for chain ID %s: %w'' [EInt i] [e]))
              (\<lambda>a. Ok \<lparr>Address = HexToAddress g (de_Address entry), ABI = a\<rparr>))"
  using assms
  by (auto simp: Load_def Let_def evm_deployment_def preferred_type_find split: option.splits if_splits)

text \<open>
  C26: \<open>Load\<close> succeeds exactly when the file parses, the chain's list has a type other than
  ZkSync's, the first such type has an entry with an address, and the ABI parses; the result is
  that entry's address and the parsed ABI. The choice is by position in the list, so a ZkSync
  type in front never hides a later one.
\<close>

theorem load_ok_iff:
  "Load g j i = Ok p \<longleftrightarrow>
     (\<exists>d dt entry a. Unmarshal_deployment j = Ok d \<and> evm_deployment d i = Some dt \<and>
        Deployments d dt = Some entry \<and> de_Address entry \<noteq> [] \<and> abi_JSON g (d_ABI d) = Ok a \<and>
        p = \<lparr>Address = HexToAddress g (de_Address entry), ABI = a\<rparr>)"
proof (cases "Unmarshal_deployment j")
  case d: (Ok d)
  show ?thesis
  proof (cases "evm_deployment d i")
    case None
    with Load_none [OF d None, of g] d show ?thesis by auto
  next
    case (Some dt)
    with d Load_some [OF d Some, of g] show ?thesis
      by (cases "abi_JSON g (d_ABI d)") (auto split: option.splits)
  qed
qed (simp_all add: Load_def)

text \<open>
  For a file that parses, the error of \<open>Load\<close> is \<open>ErrVersionNotOnChain\<close> exactly when the
  chain has no deployment on the standard EVM in it: it is not listed, its list is empty, it
  lists ZkSync types only, or the first other type is the empty string. (The errors of the ABI
  parser do not wrap this package's error.)
\<close>

theorem load_not_on_chain:
  assumes "Unmarshal_deployment j = Ok d"
    and "\<And>t e. abi_JSON g t = Err e \<Longrightarrow> \<not> errors_is e ErrVersionNotOnChain"
  shows "(\<exists>e. Load g j i = Err e \<and> errors_is e ErrVersionNotOnChain) \<longleftrightarrow> evm_deployment d i = None"
proof (cases "evm_deployment d i")
  case None
  with Load_none [OF assms(1) None] show ?thesis by simp
next
  case (Some dt)
  have "\<not> errors_is e ErrVersionNotOnChain" if "Load g j i = Err e" for e
    using that assms(2) Load_some [OF assms(1) Some, of g]
    by (cases "abi_JSON g (d_ABI d)") (auto simp: ErrVersionNotOnChain_def split: option.splits if_splits)
  with Some show ?thesis by auto
qed

section \<open>BaseDeployment\<close>

text \<open>
  The caches map a chain ID in decimal to a pointer to a parsed deployment; what a pointer
  points to is never changed, so it is the contents.
\<close>

type_synonym 'abi cache = "string \<rightharpoonup> 'abi ParsedDeployment"

record 'abi BaseDeployment =
  bd_version :: string
  safeJSON :: string
  safeL2JSON :: string
  proxyFactoryJSON :: string
  proxyCreationCode :: "byte list"
  factory_cache :: "'abi cache"
  safe_cache :: "'abi cache"
  safeL2_cache :: "'abi cache"

definition NewBaseDeployment :: "string \<Rightarrow> string \<Rightarrow> string \<Rightarrow> string \<Rightarrow> byte list \<Rightarrow> 'abi BaseDeployment" where
  "NewBaseDeployment v jsonSafe jsonSafeL2 jsonFactory code =
     \<lparr>bd_version = v, safeJSON = jsonSafe, safeL2JSON = jsonSafeL2, proxyFactoryJSON = jsonFactory,
      proxyCreationCode = code, factory_cache = Map.empty, safe_cache = Map.empty, safeL2_cache = Map.empty\<rparr>"

text \<open>The chain registry is read by \<open>chain.Lookup\<close>.\<close>

definition resolveChainID :: "chain_registry \<Rightarrow> int option \<Rightarrow> int option" where
  "resolveChainID r chainID =
     (case Chain.Lookup chainID r of
        Ok c \<Rightarrow> if ForksChainID c \<noteq> None then ForksChainID c else ID c
      | _ \<Rightarrow> chainID)"

text \<open>
  \<open>loadCached\<close> reads under the read lock; on a miss it takes the write lock, looks again, and
  only then loads. The two critical sections are the two definitions that it is made of.
\<close>

definition loadCached_locked ::
  "('abi, 'z) geth_scheme \<Rightarrow> 'abi cache \<Rightarrow> string \<Rightarrow> int option \<Rightarrow> 'abi ParsedDeployment result \<times> 'abi cache" where
  "loadCached_locked g cache jsonBytes chainID =
     (let key = big_String chainID in
      case cache key of
        Some p \<Rightarrow> (Ok p, cache)
      | None \<Rightarrow>
          (case Load g jsonBytes chainID of
             Ok parsed \<Rightarrow> (Ok parsed, cache(key \<mapsto> parsed))
           | r \<Rightarrow> (r, cache)))"

definition loadCached ::
  "('abi, 'z) geth_scheme \<Rightarrow> 'abi cache \<Rightarrow> string \<Rightarrow> int option \<Rightarrow> 'abi ParsedDeployment result \<times> 'abi cache" where
  "loadCached g cache jsonBytes chainID =
     (case cache (big_String chainID) of
        Some p \<Rightarrow> (Ok p, cache)
      | None \<Rightarrow> loadCached_locked g cache jsonBytes chainID)"

definition ProxyFactory ::
  "('abi, 'z) geth_scheme \<Rightarrow> chain_registry \<Rightarrow> int option \<Rightarrow> 'abi BaseDeployment \<Rightarrow>
     'abi ParsedDeployment result \<times> 'abi BaseDeployment" where
  "ProxyFactory g r chainID d =
     (let (res, c) = loadCached g (factory_cache d) (proxyFactoryJSON d) (resolveChainID r chainID)
      in (res, d\<lparr>factory_cache := c\<rparr>))"

definition Singleton ::
  "('abi, 'z) geth_scheme \<Rightarrow> chain_registry \<Rightarrow> int option \<Rightarrow> bool \<Rightarrow> 'abi BaseDeployment \<Rightarrow>
     'abi ParsedDeployment result \<times> 'abi BaseDeployment" where
  "Singleton g r chainID isL2 d =
     (if isL2 then
        (let (res, c) = loadCached g (safeL2_cache d) (safeL2JSON d) (resolveChainID r chainID)
         in (res, d\<lparr>safeL2_cache := c\<rparr>))
      else
        (let (res, c) = loadCached g (safe_cache d) (safeJSON d) (resolveChainID r chainID)
         in (res, d\<lparr>safe_cache := c\<rparr>)))"

section \<open>The caches are transparent\<close>

text \<open>An entry of a cache is what \<open>Load\<close> returns for its key.\<close>

definition cache_ok :: "('abi, 'z) geth_scheme \<Rightarrow> string \<Rightarrow> 'abi cache \<Rightarrow> bool" where
  "cache_ok g j c \<longleftrightarrow> (\<forall>i p. c (big_String i) = Some p \<longrightarrow> Load g j i = Ok p)"

definition deployment_ok :: "('abi, 'z) geth_scheme \<Rightarrow> 'abi BaseDeployment \<Rightarrow> bool" where
  "deployment_ok g d \<longleftrightarrow>
     cache_ok g (proxyFactoryJSON d) (factory_cache d) \<and> cache_ok g (safeJSON d) (safe_cache d) \<and>
     cache_ok g (safeL2JSON d) (safeL2_cache d)"

lemma loadCached_locked_ok:
  "cache_ok g j c \<Longrightarrow> loadCached_locked g c j i = (r, c') \<Longrightarrow> r = Load g j i \<and> cache_ok g j c' \<and> c \<subseteq>\<^sub>m c'"
  by (auto simp: loadCached_locked_def cache_ok_def Let_def map_le_def dom_def
      split: option.splits result.splits if_splits dest: sym)

lemma loadCached_ok:
  assumes "cache_ok g j c"
  shows "\<exists>c'. loadCached g c j i = (Load g j i, c') \<and> cache_ok g j c'"
proof (cases "c (big_String i)")
  case None
  obtain r c' where "loadCached_locked g c j i = (r, c')" by fastforce
  with loadCached_locked_ok [OF assms this] None show ?thesis by (simp add: loadCached_def)
next
  case (Some p)
  with assms show ?thesis by (simp add: loadCached_def cache_ok_def)
qed

definition same_files :: "'abi BaseDeployment \<Rightarrow> 'abi BaseDeployment \<Rightarrow> bool" where
  "same_files d d' \<longleftrightarrow>
     bd_version d' = bd_version d \<and> safeJSON d' = safeJSON d \<and> safeL2JSON d' = safeL2JSON d \<and>
     proxyFactoryJSON d' = proxyFactoryJSON d \<and> proxyCreationCode d' = proxyCreationCode d"

lemma ProxyFactory_ok:
  assumes "deployment_ok g d"
  shows "\<exists>d'. ProxyFactory g r i d = (Load g (proxyFactoryJSON d) (resolveChainID r i), d') \<and>
    deployment_ok g d' \<and> same_files d d'"
  using loadCached_ok [of g "proxyFactoryJSON d" "factory_cache d" "resolveChainID r i"] assms
  by (auto simp: ProxyFactory_def deployment_ok_def same_files_def)

lemma Singleton_ok:
  assumes "deployment_ok g d"
  shows "\<exists>d'. Singleton g r i l2 d =
      (Load g (if l2 then safeL2JSON d else safeJSON d) (resolveChainID r i), d') \<and>
    deployment_ok g d' \<and> same_files d d'"
  using loadCached_ok [of g "safeJSON d" "safe_cache d" "resolveChainID r i"]
    loadCached_ok [of g "safeL2JSON d" "safeL2_cache d" "resolveChainID r i"] assms
  by (auto simp: Singleton_def deployment_ok_def same_files_def)

lemma NewBaseDeployment_ok: "deployment_ok g (NewBaseDeployment v s l f c)"
  by (simp add: deployment_ok_def cache_ok_def NewBaseDeployment_def)

text \<open>
  Goroutines that share a deployment: a call is one step when it hits the cache and two when it
  misses, and any steps of other goroutines come in between. \<open>pend t\<close> is the call that
  goroutine \<open>t\<close> has between its two critical sections.
\<close>

datatype json_file = FactoryFile | SafeFile | SafeL2File

fun file_json :: "'abi BaseDeployment \<Rightarrow> json_file \<Rightarrow> string" where
  "file_json d FactoryFile = proxyFactoryJSON d"
| "file_json d SafeFile = safeJSON d"
| "file_json d SafeL2File = safeL2JSON d"

fun file_cache :: "'abi BaseDeployment \<Rightarrow> json_file \<Rightarrow> 'abi cache" where
  "file_cache d FactoryFile = factory_cache d"
| "file_cache d SafeFile = safe_cache d"
| "file_cache d SafeL2File = safeL2_cache d"

fun set_cache :: "json_file \<Rightarrow> 'abi cache \<Rightarrow> 'abi BaseDeployment \<Rightarrow> 'abi BaseDeployment" where
  "set_cache FactoryFile c d = d\<lparr>factory_cache := c\<rparr>"
| "set_cache SafeFile c d = d\<lparr>safe_cache := c\<rparr>"
| "set_cache SafeL2File c d = d\<lparr>safeL2_cache := c\<rparr>"

type_synonym 'abi load_state = "(nat \<rightharpoonup> json_file \<times> int option) \<times> 'abi BaseDeployment"

type_synonym 'abi load_event = "(json_file \<times> int option \<times> 'abi ParsedDeployment result) option"

inductive load_step ::
  "('abi, 'z) geth_scheme \<Rightarrow> 'abi load_state \<Rightarrow> 'abi load_event \<Rightarrow> 'abi load_state \<Rightarrow> bool" for g where
  hit: "pend t = None \<Longrightarrow> file_cache d f (big_String i) = Some p \<Longrightarrow>
    load_step g (pend, d) (Some (f, i, Ok p)) (pend, d)"
| miss: "pend t = None \<Longrightarrow> file_cache d f (big_String i) = None \<Longrightarrow>
    load_step g (pend, d) None (pend(t \<mapsto> (f, i)), d)"
| locked: "pend t = Some (f, i) \<Longrightarrow> loadCached_locked g (file_cache d f) (file_json d f) i = (r, c) \<Longrightarrow>
    load_step g (pend, d) (Some (f, i, r)) (pend(t := None), set_cache f c d)"

inductive load_run ::
  "('abi, 'z) geth_scheme \<Rightarrow> 'abi load_state \<Rightarrow> 'abi load_event list \<Rightarrow> 'abi load_state \<Rightarrow> bool" for g where
  halt: "load_run g s [] s"
| more: "load_step g s e s' \<Longrightarrow> load_run g s' es s'' \<Longrightarrow> load_run g s (e # es) s''"

lemma file_set_cache [simp]:
  "file_json (set_cache f c d) f' = file_json d f'"
  "file_cache (set_cache f c d) f' = (if f' = f then c else file_cache d f')"
  by (cases f; cases f'; simp)+

lemma deployment_ok_files: "deployment_ok g d \<longleftrightarrow> (\<forall>f. cache_ok g (file_json d f) (file_cache d f))"
proof
  assume "deployment_ok g d"
  then have "cache_ok g (file_json d f) (file_cache d f)" for f
    by (cases f) (simp_all add: deployment_ok_def)
  then show "\<forall>f. cache_ok g (file_json d f) (file_cache d f)" ..
next
  assume "\<forall>f. cache_ok g (file_json d f) (file_cache d f)"
  from this [rule_format, of FactoryFile] this [rule_format, of SafeFile] this [rule_format, of SafeL2File]
  show "deployment_ok g d" by (simp add: deployment_ok_def)
qed

lemma load_step_ok:
  assumes "load_step g (pend, d) e (pend', d')" and "deployment_ok g d"
  shows "deployment_ok g d' \<and> (\<forall>f. file_json d' f = file_json d f \<and> file_cache d f \<subseteq>\<^sub>m file_cache d' f) \<and>
    (\<forall>f i r. e = Some (f, i, r) \<longrightarrow> r = Load g (file_json d f) i)"
  using assms(1)
proof (cases rule: load_step.cases)
  case (hit t f i p)
  with assms(2) show ?thesis by (simp add: deployment_ok_files cache_ok_def)
next
  case (miss t f i)
  with assms(2) show ?thesis by simp
next
  case (locked t f i r c)
  from assms(2) have "cache_ok g (file_json d f) (file_cache d f)" by (simp add: deployment_ok_files)
  from loadCached_locked_ok [OF this locked(5)] locked assms(2) show ?thesis
    by (simp add: deployment_ok_files)
qed

lemma load_run_ok:
  "load_run g s es s' \<Longrightarrow> deployment_ok g (snd s) \<Longrightarrow>
     deployment_ok g (snd s') \<and> (\<forall>f. file_cache (snd s) f \<subseteq>\<^sub>m file_cache (snd s') f) \<and>
     (\<forall>f i r. Some (f, i, r) \<in> set es \<longrightarrow> r = Load g (file_json (snd s) f) i)"
proof (induction rule: load_run.induct)
  case (halt s)
  then show ?case by simp
next
  case (more s e s' es s'')
  obtain pend d pend' d' where s: "s = (pend, d)" and s': "s' = (pend', d')" by (cases s; cases s')
  from load_step_ok [OF more.hyps(1) [unfolded s s']] more.prems s
  have step: "deployment_ok g d'" "\<forall>f. file_json d' f = file_json d f \<and> file_cache d f \<subseteq>\<^sub>m file_cache d' f"
    "\<forall>f i r. e = Some (f, i, r) \<longrightarrow> r = Load g (file_json d f) i" by simp_all
  with more.IH s' have "deployment_ok g (snd s'')" "\<forall>f. file_cache d' f \<subseteq>\<^sub>m file_cache (snd s'') f"
    "\<forall>f i r. Some (f, i, r) \<in> set es \<longrightarrow> r = Load g (file_json d' f) i" by simp_all
  with step s show ?case by (auto intro: map_le_trans)
qed


text \<open>A file with a fallback behind ZkSync, on which the theorems are applied.\<close>

definition quoted :: "string \<Rightarrow> string" where
  "quoted = map (\<lambda>c. if c = CHR ''~'' then CHR 0x22 else c)"

definition demo_json :: string where
  "demo_json = quoted
     (''{~deployments~: {~zksync~: {~address~: ~0x05~}, ~canonical~: {~address~: ~0x07~}}, '' @
      ''~networkAddresses~: {~1~: [~zksync~, ~canonical~], ~137~: ~canonical~, ~5~: ~zksync~}, ~abi~: []}'')"

definition evm_of :: "string \<Rightarrow> int option \<Rightarrow> (string \<times> deploymentEntry \<times> string) option" where
  "evm_of j i =
     (case Unmarshal_deployment j of
        Ok d \<Rightarrow> Option.bind (evm_deployment d i) (\<lambda>dt. map_option (\<lambda>e. (dt, e, d_ABI d)) (Deployments d dt))
      | _ \<Rightarrow> None)"

lemma demo_json_evm:
  "evm_of demo_json (Some 1) = Some (''canonical'', \<lparr>de_Address = ''0x07'', de_CodeHash = []\<rparr>, ''[]'')"
  "evm_of demo_json (Some 137) = Some (''canonical'', \<lparr>de_Address = ''0x07'', de_CodeHash = []\<rparr>, ''[]'')"
  "(case Unmarshal_deployment demo_json of Ok d \<Rightarrow> evm_deployment d (Some 5) | _ \<Rightarrow> Some []) = None"
  by code_simp+

lemma demo_hex_7: "HexToAddress demo_geth ''0x07'' = 7"
  by code_simp

theorem load_not_on_chain_witness:
  "\<exists>e. Load demo_geth demo_json (Some 5) = Err e \<and> errors_is e ErrVersionNotOnChain"
proof -
  from demo_json_evm(3) obtain d where "Unmarshal_deployment demo_json = Ok d" and "evm_deployment d (Some 5) = None"
    by (auto split: result.splits)
  moreover have "\<not> errors_is e ErrVersionNotOnChain" if "abi_JSON demo_geth t = Err e" for t e
    using that by (auto simp: ErrVersionNotOnChain_def split: if_splits)
  ultimately show ?thesis using load_not_on_chain [of demo_json d demo_geth "Some 5"] by blast
qed

lemma demo_load: "Load demo_geth demo_json (Some 1) = Ok \<lparr>Address = 7, ABI = ''[]''\<rparr>"
proof -
  from demo_json_evm(1) obtain d where "Unmarshal_deployment demo_json = Ok d"
    and "evm_deployment d (Some 1) = Some ''canonical''"
    and "Deployments d ''canonical'' = Some \<lparr>de_Address = ''0x07'', de_CodeHash = []\<rparr>" and "d_ABI d = ''[]''"
    by (auto simp: evm_of_def bind_eq_Some_conv split: result.splits)
  then show ?thesis using Load_some [of demo_json d "Some 1" "''canonical''" demo_geth] demo_hex_7
    by simp
qed

definition demo_deployment :: "string BaseDeployment" where
  "demo_deployment = NewBaseDeployment ''1.4.1'' demo_json demo_json demo_json [1, 2, 3]"


section \<open>The registry of versions\<close>

definition Version130 :: string where "Version130 = ''1.3.0''"
definition Version141 :: string where "Version141 = ''1.4.1''"
definition Version150 :: string where "Version150 = ''1.5.0''"

text \<open>
  The registry maps a version to its deployment. The association list also fixes an order for
  \<open>supported\<close>, which in Go is any order.
\<close>

type_synonym 'abi version_registry = "(string \<times> 'abi BaseDeployment) list"

definition Register :: "'abi BaseDeployment \<Rightarrow> 'abi version_registry \<Rightarrow> 'abi version_registry" where
  "Register d r = (bd_version d, d) # filter (\<lambda>e. fst e \<noteq> bd_version d) r"

definition supported :: "'abi version_registry \<Rightarrow> string list" where
  "supported r = map fst r"

definition Get :: "string \<Rightarrow> 'abi version_registry \<Rightarrow> 'abi BaseDeployment result" where
  "Get v r =
     (case map_of r v of
        None \<Rightarrow> Err (Errorf ''%w: %q: Supported versions are: %v'' [EStr v, EStrs (supported r)] [ErrUnknownVersion])
      | Some d \<Rightarrow> Ok d)"

lemma map_of_filter_key: "map_of (filter (\<lambda>e. fst e \<noteq> k) r) x = (if x = k then None else map_of r x)"
  by (induction r) auto

interpretation versions: registry bd_version "\<lambda>_. True" Register "\<lambda>v r. map_of r v"
  by unfold_locales (auto simp: Register_def map_of_filter_key)

end
