(* ===== verification/Embedded.thy ===== *)
theory Embedded
  imports Versions
begin

text \<open>
  The three version packages \<open>internal/versions/v1_3_0\<close>, \<open>v1_4_1\<close> and \<open>v1_5_0\<close>, which
  register themselves, and the constants of \<open>pkg/version\<close>. The embedded deployment files are
  data and stay arguments.
\<close>

section \<open>The embedded versions\<close>

text \<open>\<open>pkg/version\<close> re-exports the three constants.\<close>

definition V130 :: string where "V130 = Version130"
definition V141 :: string where "V141 = Version141"
definition V150 :: string where "V150 = Version150"

definition proxyCreationCodeHex_130 :: string where
  "proxyCreationCodeHex_130 =
     ''608060405234801561001057600080fd5b506040516101e63803806101e6833981810160405260208110156100335760'' @
     ''0080fd5b8101908080519060200190929190505050600073ffffffffffffffffffffffffffffffffffffffff168173ff'' @
     ''ffffffffffffffffffffffffffffffffffffff1614156100ca576040517f08c379a00000000000000000000000000000'' @
     ''000000000000000000000000000081526004018080602001828103825260228152602001806101c46022913960400191'' @
     ''505060405180910390fd5b806000806101000a81548173ffffffffffffffffffffffffffffffffffffffff0219169083'' @
     ''73ffffffffffffffffffffffffffffffffffffffff1602179055505060ab806101196000396000f3fe608060405273ff'' @
     ''ffffffffffffffffffffffffffffffffffffff600054167fa619486e0000000000000000000000000000000000000000'' @
     ''000000000000000060003514156050578060005260206000f35b3660008037600080366000845af43d6000803e600081'' @
     ''14156070573d6000fd5b3d6000f3fea2646970667358221220d1429297349653a4918076d650332de1a1068c5f3e07c5'' @
     ''c82360c277770b955264736f6c63430007060033496e76616c69642073696e676c65746f6e2061646472657373207072'' @
     ''6f7669646564''"

definition proxyCreationCodeHex_141 :: string where
  "proxyCreationCodeHex_141 =
     ''608060405234801561001057600080fd5b506040516101e63803806101e6833981810160405260208110156100335760'' @
     ''0080fd5b8101908080519060200190929190505050600073ffffffffffffffffffffffffffffffffffffffff168173ff'' @
     ''ffffffffffffffffffffffffffffffffffffff1614156100ca576040517f08c379a00000000000000000000000000000'' @
     ''000000000000000000000000000081526004018080602001828103825260228152602001806101c46022913960400191'' @
     ''505060405180910390fd5b806000806101000a81548173ffffffffffffffffffffffffffffffffffffffff0219169083'' @
     ''73ffffffffffffffffffffffffffffffffffffffff1602179055505060ab806101196000396000f3fe608060405273ff'' @
     ''ffffffffffffffffffffffffffffffffffffff600054167fa619486e0000000000000000000000000000000000000000'' @
     ''000000000000000060003514156050578060005260206000f35b3660008037600080366000845af43d6000803e600081'' @
     ''14156070573d6000fd5b3d6000f3fea264697066735822122003d1488ee65e08fa41e58e888a9865554c535f2c77126a'' @
     ''82cb4c0f917f31441364736f6c63430007060033496e76616c69642073696e676c65746f6e2061646472657373207072'' @
     ''6f7669646564''"

definition proxyCreationCodeHex_150 :: string where
  "proxyCreationCodeHex_150 =
     ''608060405234801561001057600080fd5b506040516101b63803806101b6833981810160405260208110156100335760'' @
     ''0080fd5b8101908080519060200190929190505050600073ffffffffffffffffffffffffffffffffffffffff168173ff'' @
     ''ffffffffffffffffffffffffffffffffffffff1614156100ca576040517f08c379a00000000000000000000000000000'' @
     ''000000000000000000000000000081526004018080602001828103825260228152602001806101946022913960400191'' @
     ''505060405180910390fd5b806000806101000a81548173ffffffffffffffffffffffffffffffffffffffff0219169083'' @
     ''73ffffffffffffffffffffffffffffffffffffffff16021790555050607b806101196000396000f3fe60806040526000'' @
     ''5463a619486e60003560e01c14156024578060601b606c5260206060f35b3660008037600080366000845af43d600080'' @
     ''3e806040573d6000fd5b3d6000f3fea2646970667358221220e61834ebd2d8cd909d362bf67c47ef58fd665df38e6dd0'' @
     ''36ce65611101d072e964736f6c63430007060033496e76616c69642073696e676c65746f6e2061646472657373207072'' @
     ''6f7669646564''"

text \<open>
  The \<open>init\<close> function of a version's package: the creation code is decoded, with a panic if it
  is not hexadecimal, and the deployment on the embedded files is registered.
\<close>

definition init_version ::
  "string \<Rightarrow> string \<Rightarrow> string \<Rightarrow> string \<Rightarrow> string \<Rightarrow> 'abi version_registry \<Rightarrow> unit result \<times> 'abi version_registry" where
  "init_version v hex jsonSafe jsonSafeL2 jsonFactory r =
     (case hex_DecodeString hex of
        Ok code \<Rightarrow> (Ok (), Register (NewBaseDeployment v jsonSafe jsonSafeL2 jsonFactory code) r)
      | _ \<Rightarrow> (Panic ''invalid proxyCreationCode hex'', r))"

record version_files =
  vf_safe :: string
  vf_safe_l2 :: string
  vf_proxy_factory :: string

definition init_130 :: "version_files \<Rightarrow> 'abi version_registry \<Rightarrow> unit result \<times> 'abi version_registry" where
  "init_130 fs = init_version Version130 proxyCreationCodeHex_130 (vf_safe fs) (vf_safe_l2 fs) (vf_proxy_factory fs)"

definition init_141 :: "version_files \<Rightarrow> 'abi version_registry \<Rightarrow> unit result \<times> 'abi version_registry" where
  "init_141 fs = init_version Version141 proxyCreationCodeHex_141 (vf_safe fs) (vf_safe_l2 fs) (vf_proxy_factory fs)"

definition init_150 :: "version_files \<Rightarrow> 'abi version_registry \<Rightarrow> unit result \<times> 'abi version_registry" where
  "init_150 fs = init_version Version150 proxyCreationCodeHex_150 (vf_safe fs) (vf_safe_l2 fs) (vf_proxy_factory fs)"

text \<open>Go runs the three functions in the order of the import paths.\<close>

definition init_versions ::
  "version_files \<Rightarrow> version_files \<Rightarrow> version_files \<Rightarrow> unit result \<times> 'abi version_registry" where
  "init_versions f130 f141 f150 =
     (case init_130 f130 [] of
        (Ok _, r) \<Rightarrow> (case init_141 f141 r of (Ok _, r) \<Rightarrow> init_150 f150 r | x \<Rightarrow> x)
      | x \<Rightarrow> x)"

lemma hex_DecodeString_ok:
  "\<forall>c \<in> set s. hex_val c \<noteq> None \<Longrightarrow> length s = 2 * n \<Longrightarrow> \<exists>bs. hex_DecodeString s = Ok bs \<and> length bs = n"
proof (induction s arbitrary: n rule: hex_DecodeString.induct)
  case (3 c d cs)
  then obtain m where "n = Suc m" and "length cs = 2 * m" by (cases n) auto
  with "3.prems" obtain a b where v: "hex_val c = Some a" "hex_val d = Some b" by auto
  from "3.IH" [of _ _ a b m] "3.prems" v \<open>length cs = 2 * m\<close>
  obtain bs where "hex_DecodeString cs = Ok bs" and "length bs = m" by auto
  with v \<open>n = Suc m\<close> show ?case by simp
qed auto

lemma hex_DecodeString_length:
  "list_all (\<lambda>c. hex_val c \<noteq> None) s \<and> length s = 2 * n \<Longrightarrow> \<exists>bs. hex_DecodeString s = Ok bs \<and> length bs = n"
  using hex_DecodeString_ok by (simp add: list_all_iff)

lemma embedded_hex:
  "\<exists>bs. hex_DecodeString proxyCreationCodeHex_130 = Ok bs \<and> length bs = 486"
  "\<exists>bs. hex_DecodeString proxyCreationCodeHex_141 = Ok bs \<and> length bs = 486"
  "\<exists>bs. hex_DecodeString proxyCreationCodeHex_150 = Ok bs \<and> length bs = 438"
  by (rule hex_DecodeString_length, code_simp)+

definition serves :: "'abi version_registry \<Rightarrow> string \<Rightarrow> version_files \<Rightarrow> nat \<Rightarrow> bool" where
  "serves r v fs n \<longleftrightarrow>
     (\<exists>code. length code = n \<and>
        Get v r = Ok (NewBaseDeployment v (vf_safe fs) (vf_safe_l2 fs) (vf_proxy_factory fs) code))"

text \<open>
  Whatever the embedded files hold, the three \<open>init\<close> functions run without a panic and
  leave a registry in which exactly the versions of \<open>pkg/version\<close> are found, each with its own
  files and with a creation code of 486, 486 and 438 bytes; any other version string gets
  \<open>ErrUnknownVersion\<close>.
\<close>

theorem embedded_versions:
  "\<exists>r. init_versions a b c = (Ok (), r :: 'abi version_registry) \<and>
     serves r V130 a 486 \<and> serves r V141 b 486 \<and> serves r V150 c 438 \<and>
     (\<forall>v. v \<notin> {V130, V141, V150} \<longrightarrow> (\<exists>e. Get v r = Err e \<and> errors_is e ErrUnknownVersion))"
proof -
  from embedded_hex obtain x y z where
    "hex_DecodeString proxyCreationCodeHex_130 = Ok x" "length x = 486"
    "hex_DecodeString proxyCreationCodeHex_141 = Ok y" "length y = 486"
    "hex_DecodeString proxyCreationCodeHex_150 = Ok z" "length z = 438" by blast
  note hex = this
  define d :: "string \<Rightarrow> version_files \<Rightarrow> byte list \<Rightarrow> 'abi BaseDeployment" where
    "d v fs code = NewBaseDeployment v (vf_safe fs) (vf_safe_l2 fs) (vf_proxy_factory fs) code" for v fs code
  have d [simp]: "bd_version (d v fs code) = v" for v fs code by (simp add: d_def NewBaseDeployment_def)
  let ?r = "[(V150, d V150 c z), (V141, d V141 b y), (V130, d V130 a x)]"
  have ne: "Version130 \<noteq> Version141" "Version130 \<noteq> Version150" "Version141 \<noteq> Version150"
    by (simp_all add: Version130_def Version141_def Version150_def)
  have init: "init_130 a r = (Ok (), Register (d V130 a x) r)" "init_141 b r = (Ok (), Register (d V141 b y) r)"
    "init_150 c r = (Ok (), Register (d V150 c z) r)" for r
    unfolding init_130_def init_141_def init_150_def init_version_def d_def V130_def V141_def V150_def
    using hex by simp_all
  have "init_versions a b c = (Ok (), ?r)"
    using ne by (simp add: init_versions_def init Register_def V130_def V141_def V150_def)
  moreover have "Get V130 ?r = Ok (d V130 a x)" and "Get V141 ?r = Ok (d V141 b y)" and "Get V150 ?r = Ok (d V150 c z)"
    using ne by (simp_all add: Get_def V130_def V141_def V150_def)
  moreover have "\<exists>e. Get v ?r = Err e \<and> errors_is e ErrUnknownVersion" if "v \<notin> {V130, V141, V150}" for v
    using that by (simp add: Get_def)
  ultimately show ?thesis using hex unfolding serves_def d_def by blast
qed

definition no_files :: version_files where
  "no_files = \<lparr>vf_safe = [], vf_safe_l2 = [], vf_proxy_factory = []\<rparr>"

theorem embedded_versions_witness:
  "\<exists>r. init_versions no_files no_files no_files = (Ok (), r :: string version_registry) \<and>
     (\<exists>e. Get ''2.0.0'' r = Err e \<and> errors_is e ErrUnknownVersion)"
proof -
  have "''2.0.0'' \<notin> {V130, V141, V150}"
    by (simp add: V130_def V141_def V150_def Version130_def Version141_def Version150_def)
  with embedded_versions [of no_files no_files no_files, where ?'abi = string] show ?thesis by meson
qed

end
