(* ===== verification/Predict.thy ===== *)
theory Predict
  imports Versions
begin

text \<open>
  \<open>internal/predict\<close>: the \<open>setup\<close> call data, the salt nonce, and the prediction of the address
  that the factory's \<open>CREATE2\<close> gives a Safe, with the reference formula it is proved equal to.
\<close>

section \<open>The initializer\<close>

definition setupABIJSON :: string where
  "setupABIJSON = quoted
     (''[{~type~: ~function~, ~name~: ~setup~, ~inputs~: ['' @
      ''{~name~: ~owners~,          ~type~: ~address[]~}, '' @
      ''{~name~: ~threshold~,       ~type~: ~uint256~}, '' @
      ''{~name~: ~to~,              ~type~: ~address~}, '' @
      ''{~name~: ~data~,            ~type~: ~bytes~}, '' @
      ''{~name~: ~fallbackHandler~, ~type~: ~address~}, '' @
      ''{~name~: ~paymentToken~,    ~type~: ~address~}, '' @
      ''{~name~: ~payment~,         ~type~: ~uint256~}, '' @
      ''{~name~: ~paymentReceiver~, ~type~: ~address~}], ~outputs~: []}]'')"

text \<open>The package's \<open>init\<close> (the text is equal up to white space).\<close>

definition init_setupABI :: "('abi, 'z) geth_scheme \<Rightarrow> 'abi result" where
  "init_setupABI g =
     (case abi_JSON g setupABIJSON of Ok a \<Rightarrow> Ok a | _ \<Rightarrow> Panic ''failed to parse setup ABI'')"

definition setup_args :: "address list \<Rightarrow> byte \<Rightarrow> abi_value list" where
  "setup_args owners threshold =
     [VAddresses owners, VUint (uint threshold), VAddress 0, VBytes [], VAddress 0, VAddress 0, VUint 0, VAddress 0]"

definition BuildInitializer :: "('abi, 'z) geth_scheme \<Rightarrow> 'abi \<Rightarrow> address list \<Rightarrow> byte \<Rightarrow> byte list result" where
  "BuildInitializer g setupABI owners threshold =
     chkR (Pack g setupABI ''setup'' (setup_args owners threshold))
       (\<lambda>e. Err (wrapf ''failed to encode setup calldata: %w'' e)) Ok"

definition initializerHash :: "('abi, 'z) geth_scheme \<Rightarrow> byte list \<Rightarrow> byte list" where
  "initializerHash g initializer = Keccak256 g [initializer]"

section \<open>The address\<close>

record predict_Input =
  Owners :: "address list"
  Threshold :: byte
  Salt :: "byte list"

text \<open>\<open>copy\<close> into an array of 32 bytes.\<close>

definition DeriveSaltNonce :: "('abi, 'z) geth_scheme \<Rightarrow> byte list \<Rightarrow> byte list" where
  "DeriveSaltNonce g salt =
     (let h = Keccak256 g [salt] in take 32 h @ replicate (32 - length h) 0)"

definition buildInitCode :: "('abi, 'z) geth_scheme \<Rightarrow> byte list \<Rightarrow> address \<Rightarrow> byte list" where
  "buildInitCode g creationCode singleton =
     creationCode @ LeftPadBytes g (AddressBytes g singleton) 32"

definition computeCreate2Address :: "('abi, 'z) geth_scheme \<Rightarrow> address \<Rightarrow> byte list \<Rightarrow> byte list \<Rightarrow> address" where
  "computeCreate2Address g factory salt initCode =
     (let raw = Keccak256 g [[0xff], AddressBytes g factory, salt, Keccak256 g [initCode]]
      in BytesToAddress g (drop 12 raw))"

text \<open>\<open>deployment\<close> is the version's, whose caches the call may fill.\<close>

definition Address ::
  "('abi, 'z) geth_scheme \<Rightarrow> 'abi \<Rightarrow> chain_registry \<Rightarrow> predict_Input \<Rightarrow> int option \<Rightarrow> bool \<Rightarrow>
     'abi BaseDeployment \<Rightarrow> address result \<times> 'abi BaseDeployment" where
  "Address g setupABI r input chainID isL2 deployment =
     (if chainID = None then (Err (errmsg ''chainID cannot be nil''), deployment)
      else
        (case ProxyFactory g r chainID deployment of
           (Err e, d) \<Rightarrow> (Err (wrapf ''failed to get proxy factory: %w'' e), d)
         | (Panic p, d) \<Rightarrow> (Panic p, d)
         | (Ok factory, d) \<Rightarrow>
             (case Singleton g r chainID isL2 d of
                (Err e, d) \<Rightarrow> (Err (wrapf ''failed to get singleton: %w'' e), d)
              | (Panic p, d) \<Rightarrow> (Panic p, d)
              | (Ok singleton, d) \<Rightarrow>
                  (chkR (BuildInitializer g setupABI (Owners input) (Threshold input)) Err (\<lambda>initializer.
                     let saltNonce = DeriveSaltNonce g (Salt input);
                         salt = Keccak256 g [initializerHash g initializer, saltNonce];
                         initCode = buildInitCode g (proxyCreationCode d) (ParsedDeployment.Address singleton)
                     in Ok (computeCreate2Address g (ParsedDeployment.Address factory) salt initCode)), d))))"

section \<open>The reference\<close>

text \<open>
  EIP-1014: the address of a contract created by \<open>CREATE2\<close> is made of the last 20 bytes of
  \<open>keccak256(0xff ++ deployer ++ salt ++ keccak256(init_code))\<close>.
\<close>

definition eip1014 :: "('abi, 'z) geth_scheme \<Rightarrow> address \<Rightarrow> byte list \<Rightarrow> byte list \<Rightarrow> byte list" where
  "eip1014 g deployer salt init_code =
     drop 12 (Keccak256 g [0xff # AddressBytes g deployer @ salt @ Keccak256 g [init_code]])"

text \<open>
  Safe's factory: \<open>createProxyWithNonce(singleton, initializer, saltNonce)\<close> creates the proxy
  with the salt \<open>keccak256(keccak256(initializer) ++ saltNonce)\<close> and the init code
  \<open>creationCode ++ abi.encode(singleton)\<close>, an address word being 12 zero bytes and the address.
\<close>

definition factory_create2 ::
  "('abi, 'z) geth_scheme \<Rightarrow> address \<Rightarrow> byte list \<Rightarrow> address \<Rightarrow> byte list \<Rightarrow> byte list \<Rightarrow> byte list" where
  "factory_create2 g factory creationCode singleton initializer saltNonce =
     eip1014 g factory (Keccak256 g [Keccak256 g [initializer] @ saltNonce])
       (creationCode @ replicate 12 0 @ AddressBytes g singleton)"

text \<open>The prediction without caches: both deployments loaded from the files.\<close>

definition predict_reference ::
  "('abi, 'z) geth_scheme \<Rightarrow> 'abi \<Rightarrow> chain_registry \<Rightarrow> predict_Input \<Rightarrow> int option \<Rightarrow> bool \<Rightarrow>
     'abi BaseDeployment \<Rightarrow> address result" where
  "predict_reference g setupABI r input chainID isL2 d =
     (let i = resolveChainID r chainID in
      chkR (Load g (proxyFactoryJSON d) i) (\<lambda>e. Err (wrapf ''failed to get proxy factory: %w'' e)) (\<lambda>f.
      chkR (Load g (if isL2 then safeL2JSON d else safeJSON d) i) (\<lambda>e. Err (wrapf ''failed to get singleton: %w'' e)) (\<lambda>s.
      chkR (BuildInitializer g setupABI (Owners input) (Threshold input)) Err (\<lambda>initializer.
        Ok (BytesToAddress g (factory_create2 g (ParsedDeployment.Address f) (proxyCreationCode d)
              (ParsedDeployment.Address s) initializer (Keccak256 g [Salt input])))))))"

lemma Keccak256_concat: "geth_laws g \<Longrightarrow> concat xs = concat ys \<Longrightarrow> Keccak256 g xs = Keccak256 g ys"
proof -
  assume g: "geth_laws g" and eq: "concat xs = concat ys"
  have "Keccak256 g xs = Keccak256 g [concat xs]" by (rule geth_lawsD(9) [OF g])
  also have "\<dots> = Keccak256 g [concat ys]" unfolding eq by (rule refl)
  also have "\<dots> = Keccak256 g ys" by (rule geth_lawsD(9) [OF g, symmetric])
  finally show ?thesis .
qed

lemma DeriveSaltNonce_eq: "geth_laws g \<Longrightarrow> DeriveSaltNonce g salt = Keccak256 g [salt]"
  by (simp add: DeriveSaltNonce_def Let_def geth_lawsD(8))

lemma computeCreate2Address_eq:
  assumes g: "geth_laws g"
  shows "computeCreate2Address g f (Keccak256 g [initializerHash g ini, DeriveSaltNonce g s]) (buildInitCode g code a) =
    BytesToAddress g (factory_create2 g f code a ini (Keccak256 g [s]))"
proof -
  have pad: "LeftPadBytes g (AddressBytes g a) 32 = replicate 12 0 @ AddressBytes g a"
    using geth_lawsD(4) [OF g] geth_lawsD(1) [OF g] by simp
  have "Keccak256 g [initializerHash g ini, DeriveSaltNonce g s] = Keccak256 g [Keccak256 g [ini] @ Keccak256 g [s]]"
    by (rule Keccak256_concat [OF g]) (simp add: initializerHash_def DeriveSaltNonce_eq [OF g])
  moreover have "Keccak256 g [[0xff], AddressBytes g f, x, y] = Keccak256 g [0xff # AddressBytes g f @ x @ y]" for x y
    by (rule Keccak256_concat [OF g]) simp
  ultimately show ?thesis
    by (simp add: computeCreate2Address_def buildInitCode_def factory_create2_def eip1014_def Let_def pad)
qed

lemma length_eip1014: "geth_laws g \<Longrightarrow> length (eip1014 g f s c) = 20"
  by (simp add: eip1014_def geth_lawsD(8))

lemma Address_reference:
  assumes "geth_laws g" and "deployment_ok g d"
  shows "\<exists>d'. Address g a r input (Some i) l2 d = (predict_reference g a r input (Some i) l2 d, d') \<and>
    deployment_ok g d' \<and> same_files d d'"
proof -
  let ?j = "resolveChainID r (Some i)"
  from ProxyFactory_ok [OF assms(2)] obtain d1 where
    fac: "ProxyFactory g r (Some i) d = (Load g (proxyFactoryJSON d) ?j, d1)"
    and ok1: "deployment_ok g d1" and same1: "same_files d d1" by blast
  define sj where "sj = (if l2 then safeL2JSON d else safeJSON d)"
  from same1 have "(if l2 then safeL2JSON d1 else safeJSON d1) = sj" by (simp add: same_files_def sj_def)
  with Singleton_ok [OF ok1, of r "Some i" l2] obtain d2 where
    sing: "Singleton g r (Some i) l2 d1 = (Load g sj ?j, d2)"
    and ok2: "deployment_ok g d2" and same2: "same_files d1 d2" by auto
  from same1 same2 have same: "same_files d d2" and code: "proxyCreationCode d2 = proxyCreationCode d"
    by (simp_all add: same_files_def)
  note defs = Address_def predict_reference_def sj_def [symmetric] Let_def fac
  show ?thesis
  proof (cases "Load g (proxyFactoryJSON d) ?j")
    case f: (Ok f)
    show ?thesis
    proof (cases "Load g sj ?j")
      case (Ok s)
      with f ok2 same show ?thesis
        by (cases "BuildInitializer g a (Owners input) (Threshold input)")
          (simp_all add: defs sing code computeCreate2Address_eq [OF assms(1)])
    qed (use f ok2 same in \<open>simp_all add: defs sing\<close>)
  qed (use ok1 same1 in \<open>simp_all add: defs\<close>)
qed

text \<open>
  C11: on every chain, in whatever state its caches are, the prediction is the address that
  Safe's factory gives the proxy: EIP-1014 with the factory and the singleton that the version's
  files list for the resolved chain, the salt made of the hashes of the \<open>setup\<close> call data and of
  the caller's salt, and the init code made of the version's creation code and the padded
  singleton. Errors come from the files and the ABI encoder alone; the caches stay correct.
\<close>

theorem predict_is_create2:
  assumes "geth_laws g" and "deployment_ok g d" and "chainID \<noteq> None"
  shows "fst (Address g a r input chainID l2 d) = predict_reference g a r input chainID l2 d \<and>
    deployment_ok g (snd (Address g a r input chainID l2 d))"
proof -
  from assms(3) obtain i where "chainID = Some i" by blast
  with Address_reference [OF assms(1,2), of a r input i l2] show ?thesis by auto
qed

definition demo_input :: predict_Input where
  "demo_input = \<lparr>Owners = [5], Threshold = 1, Salt = [1, 2]\<rparr>"

theorem predict_is_create2_witness:
  "fst (Address demo_geth ''[]'' init_registry demo_input (Some 1) True demo_deployment) =
     predict_reference demo_geth ''[]'' init_registry demo_input (Some 1) True demo_deployment"
  using predict_is_create2 [OF demo_geth_laws, of demo_deployment "Some 1" "''[]''" init_registry demo_input True]
    NewBaseDeployment_ok [of demo_geth]
  by (simp add: demo_deployment_def)

end
