(* ===== verification/Collision.thy ===== *)
theory Collision
  imports Predict
begin

text \<open>
  Different inputs have different predicted addresses, up to collisions of the hash function.
\<close>

section \<open>Collisions\<close>

text \<open>
  What a prediction hashes on the way to the address: the call data, its hash with the salt
  nonce, the salt; and the message whose truncated hash is the address.
\<close>

definition hashed_messages :: "('abi, 'z) geth_scheme \<Rightarrow> 'abi \<Rightarrow> predict_Input \<Rightarrow> byte list set" where
  "hashed_messages g a input =
     (case BuildInitializer g a (Owners input) (Threshold input) of
        Ok ini \<Rightarrow> {ini, Keccak256 g [ini] @ Keccak256 g [Salt input], Salt input}
      | _ \<Rightarrow> {})"

definition create2_preimage :: "('abi, 'z) geth_scheme \<Rightarrow> address \<Rightarrow> byte list \<Rightarrow> byte list \<Rightarrow> byte list" where
  "create2_preimage g factory salt init_code =
     0xff # AddressBytes g factory @ salt @ Keccak256 g [init_code]"

definition address_preimage ::
  "('abi, 'z) geth_scheme \<Rightarrow> 'abi \<Rightarrow> chain_registry \<Rightarrow> predict_Input \<Rightarrow> int option \<Rightarrow> bool \<Rightarrow>
     'abi BaseDeployment \<Rightarrow> byte list" where
  "address_preimage g a r input chainID l2 d =
     (let i = resolveChainID r chainID in
      case (Load g (proxyFactoryJSON d) i, Load g (if l2 then safeL2JSON d else safeJSON d) i,
            BuildInitializer g a (Owners input) (Threshold input)) of
        (Ok f, Ok s, Ok ini) \<Rightarrow>
          create2_preimage g (ParsedDeployment.Address f)
            (Keccak256 g [Keccak256 g [ini] @ Keccak256 g [Salt input]])
            (proxyCreationCode d @ replicate 12 0 @ AddressBytes g (ParsedDeployment.Address s))
      | _ \<Rightarrow> [])"

lemma factory_create2_preimage:
  "factory_create2 g f code s ini n =
     drop 12 (Keccak256 g [create2_preimage g f (Keccak256 g [Keccak256 g [ini] @ n]) (code @ replicate 12 0 @ AddressBytes g s)])"
  by (simp add: factory_create2_def eip1014_def create2_preimage_def)

lemma length_create2_preimage: "geth_laws g \<Longrightarrow> length salt = 32 \<Longrightarrow> length (create2_preimage g f salt c) = 85"
  by (simp add: create2_preimage_def geth_lawsD(1,8))

lemma chkR_Ok: "chkR m h k = Ok y \<Longrightarrow> (\<And>e. h e \<noteq> Ok y) \<Longrightarrow> \<exists>x. m = Ok x \<and> k x = Ok y"
  by (cases m) auto

lemma predict_reference_Ok:
  assumes "predict_reference g a r input i l2 d = Ok x"
  obtains f s ini where "Load g (proxyFactoryJSON d) (resolveChainID r i) = Ok f"
    and "Load g (if l2 then safeL2JSON d else safeJSON d) (resolveChainID r i) = Ok s"
    and "BuildInitializer g a (Owners input) (Threshold input) = Ok ini"
    and "x = BytesToAddress g (factory_create2 g (ParsedDeployment.Address f) (proxyCreationCode d)
              (ParsedDeployment.Address s) ini (Keccak256 g [Salt input]))"
  using assms by (fastforce simp: predict_reference_def Let_def dest!: chkR_Ok)

lemma BytesToAddress_inj:
  "geth_laws g \<Longrightarrow> length x = 20 \<Longrightarrow> length y = 20 \<Longrightarrow> BytesToAddress g x = BytesToAddress g y \<Longrightarrow> x = y"
  using geth_lawsD(3) by metis

definition setup_encoding_injective :: "('abi, 'z) geth_scheme \<Rightarrow> 'abi \<Rightarrow> bool" where
  "setup_encoding_injective g a \<longleftrightarrow>
     (\<forall>o1 t1 o2 t2 c. Pack g a ''setup'' (setup_args o1 t1) = Ok c \<and> Pack g a ''setup'' (setup_args o2 t2) = Ok c \<longrightarrow>
        o1 = o2 \<and> t1 = t2)"

text \<open>What a successful prediction is made of.\<close>

lemma predicted_from:
  assumes g: "geth_laws g" and d: "deployment_ok g d" and i: "chainID \<noteq> None"
    and x: "fst (Address g a r input chainID l2 d) = Ok x"
  obtains f s ini where "Load g (proxyFactoryJSON d) (resolveChainID r chainID) = Ok f"
    and "Load g (if l2 then safeL2JSON d else safeJSON d) (resolveChainID r chainID) = Ok s"
    and "BuildInitializer g a (Owners input) (Threshold input) = Ok ini"
    and "x = BytesToAddress g (drop 12 (Keccak256 g [address_preimage g a r input chainID l2 d]))"
proof -
  from i obtain j where j: "chainID = Some j" by blast
  have "predict_reference g a r input chainID l2 d = Ok x"
    using x Address_reference [OF g d, of a r input j l2] j by auto
  then show ?thesis
    by (rule predict_reference_Ok)
      (rule that, simp_all add: factory_create2_preimage address_preimage_def Let_def)
qed

lemma same_initializer:
  assumes g: "geth_laws g" and ini: "BuildInitializer g a (Owners input) (Threshold input) = Ok ini"
    and ini': "BuildInitializer g a (Owners input') (Threshold input') = Ok ini'"
    and hash: "inj_on (\<lambda>m. Keccak256 g [m]) (hashed_messages g a input \<union> hashed_messages g a input')"
    and eq: "Keccak256 g [Keccak256 g [ini] @ Keccak256 g [Salt input]] =
      Keccak256 g [Keccak256 g [ini'] @ Keccak256 g [Salt input']]"
  shows "ini = ini' \<and> Salt input = Salt input'"
proof -
  have M: "hashed_messages g a input = {ini, Keccak256 g [ini] @ Keccak256 g [Salt input], Salt input}"
    "hashed_messages g a input' = {ini', Keccak256 g [ini'] @ Keccak256 g [Salt input'], Salt input'}"
    using ini ini' by (simp_all add: hashed_messages_def)
  have no: "m = m'" if "Keccak256 g [m] = Keccak256 g [m']" and "m \<in> hashed_messages g a input"
    and "m' \<in> hashed_messages g a input'" for m m'
    using inj_onD [OF hash that(1)] that(2,3) by blast
  have "Keccak256 g [ini] @ Keccak256 g [Salt input] = Keccak256 g [ini'] @ Keccak256 g [Salt input']"
    by (rule no [OF eq]) (simp_all add: M)
  then have "Keccak256 g [ini] = Keccak256 g [ini']" and "Keccak256 g [Salt input] = Keccak256 g [Salt input']"
    by (simp_all add: geth_lawsD(8) [OF g])
  then show ?thesis using no M by simp
qed

text \<open>
  C27: two inputs with the same predicted address (same version, same chain) are the same
  input: same owners in the same order, same threshold, same salt. The hypotheses exclude a
  collision of the hash function among the six messages hashed, a collision of its last 20
  bytes on the two address preimages, and two argument lists with the same encoding.
\<close>

theorem predict_injective:
  assumes g: "geth_laws g" and d: "deployment_ok g d" and i: "chainID \<noteq> None"
    and x: "fst (Address g a r input chainID l2 d) = Ok x" and y: "fst (Address g a r input' chainID l2 d) = Ok x"
    and hash: "inj_on (\<lambda>m. Keccak256 g [m]) (hashed_messages g a input \<union> hashed_messages g a input')"
    and trunc: "inj_on (\<lambda>m. drop 12 (Keccak256 g [m]))
      {address_preimage g a r input chainID l2 d, address_preimage g a r input' chainID l2 d}"
    and pack: "setup_encoding_injective g a"
  shows "input = input'"
proof -
  from predicted_from [OF g d i x] obtain f s ini where f: "Load g (proxyFactoryJSON d) (resolveChainID r chainID) = Ok f"
    and s: "Load g (if l2 then safeL2JSON d else safeJSON d) (resolveChainID r chainID) = Ok s"
    and ini: "BuildInitializer g a (Owners input) (Threshold input) = Ok ini"
    and xs: "x = BytesToAddress g (drop 12 (Keccak256 g [address_preimage g a r input chainID l2 d]))" .
  from predicted_from [OF g d i y] obtain ini' where ini': "BuildInitializer g a (Owners input') (Threshold input') = Ok ini'"
    and ys: "x = BytesToAddress g (drop 12 (Keccak256 g [address_preimage g a r input' chainID l2 d]))" .
  have len: "length (drop 12 (Keccak256 g [m])) = 20" for m by (simp add: geth_lawsD(8) [OF g])
  from xs ys BytesToAddress_inj [OF g len len]
  have "drop 12 (Keccak256 g [address_preimage g a r input chainID l2 d]) =
      drop 12 (Keccak256 g [address_preimage g a r input' chainID l2 d])" by simp
  from inj_onD [OF trunc this] f s ini ini'
  have "Keccak256 g [Keccak256 g [ini] @ Keccak256 g [Salt input]] = Keccak256 g [Keccak256 g [ini'] @ Keccak256 g [Salt input']]"
    by (simp add: address_preimage_def Let_def create2_preimage_def geth_lawsD(8) [OF g])
  from same_initializer [OF g ini ini' hash this] have "ini = ini'" and salt: "Salt input = Salt input'" by auto
  with ini ini' have "Pack g a ''setup'' (setup_args (Owners input) (Threshold input)) = Ok ini"
    and "Pack g a ''setup'' (setup_args (Owners input') (Threshold input')) = Ok ini"
    by (auto simp: BuildInitializer_def dest!: chkR_Ok)
  with pack have "Owners input = Owners input' \<and> Threshold input = Threshold input'"
    unfolding setup_encoding_injective_def by blast
  with salt show ?thesis by (simp add: predict_Input.equality)
qed

lemma word_bytes_inj: "LENGTH('a::len) \<le> 8 * n \<Longrightarrow> word_bytes n (x :: 'a word) = word_bytes n y \<Longrightarrow> x = y"
proof -
  assume len: "LENGTH('a) \<le> 8 * n" and eq: "word_bytes n x = word_bytes n y"
  have "(2::nat) ^ LENGTH('a) \<le> 2 ^ (8 * n)" using len by (rule power_increasing) simp
  then have "2 ^ LENGTH('a) \<le> (256 :: nat) ^ n" by (simp add: power_mult)
  then have "unat w < 256 ^ n" for w :: "'a word"
    using unsigned_less [of w, where ?'a = nat] by (rule less_le_trans [rotated])
  then have "unat x = unat y"
    using bytes_nat_word_bytes [of n x] bytes_nat_word_bytes [of n y] eq by simp
  then show "x = y" by (simp add: word_unat_eq_iff)
qed

lemma concat_word_bytes_inj:
  "concat (map (word_bytes 20) xs) = concat (map (word_bytes 20) ys) \<Longrightarrow> xs = (ys :: address list)"
proof (induction xs arbitrary: ys)
  case Nil
  then show ?case by (cases ys) (auto dest: arg_cong [where f = length])
next
  case (Cons x xs)
  then show ?case
    by (cases ys) (auto dest: arg_cong [where f = length] intro: word_bytes_inj [where n = 20])
qed

lemma length_concat_word_bytes: "length (concat (map (word_bytes n) xs)) = n * length xs"
  by (induction xs) simp_all

lemma byte_to_hash_inj: "(word_of_int (uint (t :: byte)) :: hash) = word_of_int (uint u) \<Longrightarrow> t = u"
proof -
  assume a: "(word_of_int (uint t) :: hash) = word_of_int (uint u)"
  have b: "uint (word_of_int (uint w) :: hash) = uint w" for w :: byte
    by (simp add: uint_up_ucast is_up)
  from arg_cong [OF a, of uint] show ?thesis unfolding b by (simp add: word_uint_eq_iff)
qed

lemma demo_setup_injective: "setup_encoding_injective demo_geth a"
proof -
  have "xs = ys \<and> t = u" if eq: "concat (map demo_encode (setup_args xs t)) = concat (map demo_encode (setup_args ys u))"
    for xs ys t u
  proof -
    from arg_cong [OF eq, of length] have len: "length xs = length ys"
      by (simp add: setup_args_def length_concat_word_bytes)
    with eq have "concat (map (word_bytes 20) xs) = concat (map (word_bytes 20) ys)"
      and "word_bytes 32 (of_int (uint t) :: hash) = word_bytes 32 (of_int (uint u) :: hash)"
      by (simp_all add: setup_args_def length_concat_word_bytes)
    then show ?thesis using concat_word_bytes_inj byte_to_hash_inj word_bytes_inj [where ?'a = 256 and n = 32] by simp
  qed
  then show ?thesis by (auto simp: setup_encoding_injective_def)
qed

text \<open>Two inputs that differ in their salt only, whose hashes are evaluated.\<close>

definition demo_input' :: predict_Input where
  "demo_input' = demo_input\<lparr>Salt := [1, 3]\<rparr>"

definition demo_ini :: "byte list" where
  "demo_ini = concat (map demo_encode (setup_args [5] 1))"

definition demo_pre :: "byte list \<Rightarrow> byte list" where
  "demo_pre s = create2_preimage demo_geth 7 (Keccak256 demo_geth [Keccak256 demo_geth [demo_ini] @ Keccak256 demo_geth [s]])
     ([1, 2, 3] @ replicate 12 0 @ AddressBytes demo_geth 7)"

lemma demo_hashes:
  "distinct (map (\<lambda>m. Keccak256 demo_geth [m])
     [demo_ini, Keccak256 demo_geth [demo_ini] @ Keccak256 demo_geth [[1, 2]], [1, 2],
      Keccak256 demo_geth [demo_ini] @ Keccak256 demo_geth [[1, 3]], [1, 3]])"
  "distinct (map (\<lambda>m. drop 12 (Keccak256 demo_geth [m])) [demo_pre [1, 2], demo_pre [1, 3]])"
  unfolding demo_pre_def create2_preimage_def demo_Keccak256 demo_AddressBytes by code_simp+

lemma demo_initializer: "BuildInitializer demo_geth a [5] 1 = Ok demo_ini"
  by (simp add: BuildInitializer_def demo_ini_def)

lemma inj_on_set: "distinct (map f xs) \<Longrightarrow> inj_on f (set xs)"
  by (simp add: distinct_map)

theorem predict_injective_witness:
  "fst (Address demo_geth ''[]'' Map.empty demo_input (Some 1) True demo_deployment) \<noteq>
   fst (Address demo_geth ''[]'' Map.empty demo_input' (Some 1) True demo_deployment)"
proof
  let ?A = "\<lambda>v. fst (Address demo_geth ''[]'' Map.empty v (Some 1) True demo_deployment)"
  assume eq: "?A demo_input = ?A demo_input'"
  have ok: "deployment_ok demo_geth demo_deployment"
    unfolding demo_deployment_def by (rule NewBaseDeployment_ok)
  have files: "proxyFactoryJSON demo_deployment = demo_json" "safeL2JSON demo_deployment = demo_json"
    "proxyCreationCode demo_deployment = [1, 2, 3]"
    by (simp_all add: demo_deployment_def NewBaseDeployment_def)
  have res: "resolveChainID Map.empty (Some 1) = Some 1" by (simp add: resolveChainID_def Lookup_def)
  have "?A demo_input = predict_reference demo_geth ''[]'' Map.empty demo_input (Some 1) True demo_deployment"
    using Address_reference [OF demo_geth_laws ok, of "''[]''" Map.empty demo_input 1 True] by auto
  then obtain x where x: "?A demo_input = Ok x"
    by (simp add: predict_reference_def Let_def files res demo_load demo_input_def demo_initializer)
  have "hashed_messages demo_geth ''[]'' demo_input \<union> hashed_messages demo_geth ''[]'' demo_input' =
      set [demo_ini, Keccak256 demo_geth [demo_ini] @ Keccak256 demo_geth [[1, 2]], [1, 2],
        Keccak256 demo_geth [demo_ini] @ Keccak256 demo_geth [[1, 3]], [1, 3]]"
    by (auto simp: hashed_messages_def demo_input_def demo_input'_def demo_initializer)
  with inj_on_set [OF demo_hashes(1)] have hash: "inj_on (\<lambda>m. Keccak256 demo_geth [m])
      (hashed_messages demo_geth ''[]'' demo_input \<union> hashed_messages demo_geth ''[]'' demo_input')" by simp
  have "address_preimage demo_geth ''[]'' Map.empty v (Some 1) True demo_deployment = demo_pre (Salt v)"
    if "v \<in> {demo_input, demo_input'}" for v
    using that by (auto simp: address_preimage_def Let_def files res demo_load demo_initializer demo_pre_def
        demo_input_def demo_input'_def)
  with inj_on_set [OF demo_hashes(2)] have trunc: "inj_on (\<lambda>m. drop 12 (Keccak256 demo_geth [m]))
      {address_preimage demo_geth ''[]'' Map.empty demo_input (Some 1) True demo_deployment,
       address_preimage demo_geth ''[]'' Map.empty demo_input' (Some 1) True demo_deployment}"
    by (simp add: demo_input_def demo_input'_def)
  from predict_injective [OF demo_geth_laws ok _ x _ hash trunc demo_setup_injective] eq x
  have "demo_input = demo_input'" by simp
  then show False by (simp add: demo_input_def demo_input'_def)
qed

end
