(* ===== verification/Validate.thy ===== *)
theory Validate
  imports GoStd
begin

text \<open>
  \<open>pkg/safe/validate.go\<close>: the validation of a Safe's owners and threshold, and which error it
  reports when.
\<close>

section \<open>validateSafeConfig\<close>

definition ErrInvalidThreshold :: gerr where "ErrInvalidThreshold = Sentinel ''safe.ErrInvalidThreshold''"
definition ErrEmptyOwners :: gerr where "ErrEmptyOwners = Sentinel ''safe.ErrEmptyOwners''"
definition ErrDuplicateOwner :: gerr where "ErrDuplicateOwner = Sentinel ''safe.ErrDuplicateOwner''"
definition ErrZeroAddressOwner :: gerr where "ErrZeroAddressOwner = Sentinel ''safe.ErrZeroAddressOwner''"

lemmas config_errors =
  ErrInvalidThreshold_def ErrEmptyOwners_def ErrDuplicateOwner_def ErrZeroAddressOwner_def

text \<open>The loop over the owners, with the ones already seen.\<close>

fun check_owners :: "address list \<Rightarrow> address list \<Rightarrow> unit result" where
  "check_owners seen [] = Ok ()"
| "check_owners seen (a # as) =
     (if a = 0 then Err ErrZeroAddressOwner
      else if a \<in> set seen then Err (Errorf ''%w: %s'' [EAddr a] [ErrDuplicateOwner])
      else check_owners (a # seen) as)"

definition validateSafeConfig :: "address list \<Rightarrow> byte \<Rightarrow> unit result" where
  "validateSafeConfig owners threshold =
     (if owners = [] then Err ErrEmptyOwners
      else chkR (check_owners [] owners) Err (\<lambda>_.
        if threshold = 0 \<or> length owners < unat threshold then
          Err (Errorf ''%w: %d of %d'' [ENat (unat threshold), ENat (length owners)] [ErrInvalidThreshold])
        else Ok ()))"

lemma check_owners_ok:
  "check_owners seen as = Ok () \<longleftrightarrow> 0 \<notin> set as \<and> distinct as \<and> set seen \<inter> set as = {}"
  by (induction as arbitrary: seen) auto

text \<open>The first offending owner decides the error.\<close>

definition first_zero :: "address list \<Rightarrow> bool" where
  "first_zero as \<longleftrightarrow> (\<exists>pre suf. as = pre @ 0 # suf \<and> 0 \<notin> set pre \<and> distinct pre)"

definition first_duplicate :: "address list \<Rightarrow> address \<Rightarrow> bool" where
  "first_duplicate as a \<longleftrightarrow>
     (\<exists>pre suf. as = pre @ a # suf \<and> 0 \<notin> set pre \<and> distinct pre \<and> a \<in> set pre)"

lemma check_owners_err:
  "check_owners (rev pre) as = Err e \<Longrightarrow> 0 \<notin> set pre \<Longrightarrow> distinct pre \<Longrightarrow>
     (e = ErrZeroAddressOwner \<and> first_zero (pre @ as)) \<or>
     (\<exists>a. e = Errorf ''%w: %s'' [EAddr a] [ErrDuplicateOwner] \<and> first_duplicate (pre @ as) a)"
proof (induction as arbitrary: pre)
  case (Cons a as)
  show ?case
  proof (cases "a = 0 \<or> a \<in> set pre")
    case True
    with Cons.prems show ?thesis
      unfolding first_zero_def first_duplicate_def by (cases "a = 0") (simp, blast)+
  next
    case False
    with Cons.prems Cons.IH [of "pre @ [a]"] show ?thesis by simp
  qed
qed simp

lemma check_owners_no_panic: "check_owners seen as \<noteq> Panic p"
  by (induction as arbitrary: seen) auto

text \<open>
  C18: a configuration is accepted exactly when it has at least one owner, no owner is the zero
  address, no owner occurs twice, and the threshold is between one and the number of owners.
\<close>

theorem validate_ok_iff:
  "validateSafeConfig owners threshold = Ok () \<longleftrightarrow>
     owners \<noteq> [] \<and> 0 \<notin> set owners \<and> distinct owners \<and>
     1 \<le> unat threshold \<and> unat threshold \<le> length owners"
proof -
  have "threshold \<noteq> 0 \<longleftrightarrow> 1 \<le> unat threshold"
    by (metis One_nat_def Suc_leI unat_gt_0 not_one_le_zero unat_0)
  then show ?thesis
    using check_owners_ok [of "[]" owners]
    by (cases "check_owners [] owners") (auto simp: validateSafeConfig_def)
qed

text \<open>
  A rejected configuration gets the error of the first check it fails, in the order empty
  list, then owner by owner zero address or repetition, then threshold; each error is one of
  the exported sentinels under \<open>errors.Is\<close>.
\<close>

theorem validate_errors:
  assumes "validateSafeConfig owners threshold = Err e"
  shows "(owners = [] \<and> e = ErrEmptyOwners) \<or>
    (owners \<noteq> [] \<and> first_zero owners \<and> e = ErrZeroAddressOwner) \<or>
    (\<exists>a. first_duplicate owners a \<and> errors_is e ErrDuplicateOwner) \<or>
    (owners \<noteq> [] \<and> 0 \<notin> set owners \<and> distinct owners \<and>
      (threshold = 0 \<or> length owners < unat threshold) \<and> errors_is e ErrInvalidThreshold)"
proof (cases "owners = []")
  case False
  show ?thesis
  proof (cases "check_owners [] owners")
    case (Err x)
    with False assms have "x = e" by (simp add: validateSafeConfig_def)
    with Err check_owners_err [of "[]" owners e] False show ?thesis by auto
  next
    case (Ok u)
    with False assms check_owners_ok [of "[]" owners] show ?thesis
      by (auto simp: validateSafeConfig_def split: if_splits)
  qed (use check_owners_no_panic in blast)
qed (use assms in \<open>simp add: validateSafeConfig_def\<close>)

theorem validate_errors_witness:
  "validateSafeConfig [5, 6, 5, 0] 2 = Err (Errorf ''%w: %s'' [EAddr 5] [ErrDuplicateOwner]) \<and>
   (\<exists>a. first_duplicate [5, 6, 5, 0] a)"
proof -
  have run: "validateSafeConfig [5, 6, 5, 0] 2 = Err (Errorf ''%w: %s'' [EAddr 5] [ErrDuplicateOwner])"
    by (simp add: validateSafeConfig_def)
  with validate_errors [OF run] show ?thesis by (auto simp: config_errors)
qed

end
