(* ===== verification/Eth.thy ===== *)
theory Eth
  imports NonceSpec Geth
begin

text \<open>
  The interfaces through which the sources reach the outside: go-ethereum's JSON-RPC client,
  transactions and receipts, the interfaces \<open>signer.Signer\<close> and \<open>nonce.Manager\<close>, and contexts.
  A value of a Go interface is a record of its methods, each a program over a world \<open>'w\<close>.
\<close>

section \<open>Transactions and receipts\<close>

text \<open>A \<open>*big.Int\<close> field is an option; \<open>To\<close> is never nil here.\<close>

datatype transaction =
    LegacyTx (Nonce: u64) (GasPrice: "int option") (Gas: u64) (To: address) (Value: int) (Data: "byte list")
  | DynamicFeeTx (ChainID: "int option") (Nonce: u64) (GasTipCap: int) (GasFeeCap: int) (Gas: u64) (To: address)
      (Value: int) (Data: "byte list")

text \<open>A signer for a chain puts its chain ID into a dynamic-fee transaction.\<close>

fun for_chain :: "int option \<Rightarrow> transaction \<Rightarrow> transaction" where
  "for_chain i (DynamicFeeTx _ n tip fee gas a v d) = DynamicFeeTx i n tip fee gas a v d"
| "for_chain i (LegacyTx n price gas a v d) = LegacyTx n price gas a v d"

lemma Nonce_for_chain [simp]: "Nonce (for_chain i tx) = Nonce tx"
  by (cases tx) simp_all

record signed_tx =
  payload :: transaction
  signature :: "byte list"

record log_entry =
  Topics :: "hash list"
  LogData :: "byte list"

record receipt =
  Status :: u64
  Logs :: "log_entry list"
  BlockNumber :: "int option"
  GasUsed :: u64

definition ReceiptStatusFailed :: u64 where "ReceiptStatusFailed = 0"

record call_msg =
  From :: address
  CallTo :: address
  CallData :: "byte list"

text \<open>
  What the sources use of transactions and keys: the hash of a signed transaction,
  \<open>types.SignTx\<close> with the London signer of a chain ID, the keys of \<open>crypto\<close>, and the words of
  a private key's \<open>D\<close>.
\<close>

record ('abi, 'key) geth_tx = "'abi geth" +
  TxHash :: "signed_tx \<Rightarrow> hash"
  types_SignTx :: "transaction \<Rightarrow> int option \<Rightarrow> 'key \<Rightarrow> signed_tx result"
  HexToECDSA :: "string \<Rightarrow> 'key result"
  ToECDSA :: "byte list \<Rightarrow> 'key result"
  PubkeyToAddress :: "'key \<Rightarrow> address"
  KeyBits :: "'key \<Rightarrow> u64 list"

section \<open>The JSON-RPC client\<close>

text \<open>\<open>ethclient.Client\<close>, each method with its context; of a header the sources read \<open>BaseFee\<close> only.\<close>

record ('w, 'ctx) eth_client =
  CodeAt :: "'ctx \<Rightarrow> address \<Rightarrow> ('w, byte list) prog"
  EstimateGas :: "'ctx \<Rightarrow> call_msg \<Rightarrow> ('w, u64) prog"
  SuggestGasTipCap :: "'ctx \<Rightarrow> ('w, int) prog"
  SuggestGasPrice :: "'ctx \<Rightarrow> ('w, int) prog"
  HeaderByNumber :: "'ctx \<Rightarrow> ('w, int option) prog"
  SendTransaction :: "'ctx \<Rightarrow> signed_tx \<Rightarrow> ('w, unit) prog"
  TransactionReceipt :: "'ctx \<Rightarrow> hash \<Rightarrow> ('w, receipt) prog"

section \<open>Signers and nonce managers\<close>

record ('w, 'ctx) signer =
  signer_Address :: "'w \<Rightarrow> address"
  SignTx :: "'ctx \<Rightarrow> transaction \<Rightarrow> int option \<Rightarrow> ('w, signed_tx) prog"
  Close :: "('w, unit) prog"

text \<open>A signer that signs what it is given.\<close>

definition signs_payload :: "('w, 'ctx) signer \<Rightarrow> bool" where
  "signs_payload s \<longleftrightarrow> (\<forall>ctx tx i w x w'. SignTx s ctx tx i w = Some (Ok x, w') \<longrightarrow> payload x = for_chain i tx)"

text \<open>The interfaces \<open>Manager\<close> and \<open>Slot\<close> of \<open>pkg/nonce\<close>, over contexts of type \<open>'ctx\<close>.\<close>

record ('w, 's, 'ctx) manager =
  nm_Acquire :: "'ctx \<Rightarrow> ('w, u64 \<times> 's) prog"
  nm_Reset :: "'ctx \<Rightarrow> ('w, unit) prog"
  resolve_slot :: "resolution \<Rightarrow> 's \<Rightarrow> ('w, unit) prog"

section \<open>Contexts\<close>

text \<open>
  Which case a \<open>select\<close> between \<open>ctx.Done()\<close> and a timer takes (\<open>Some e\<close>: \<open>Done\<close>, with
  \<open>ctx.Err() = e\<close>), and \<open>context.WithTimeout\<close>, which reads the clock.
\<close>

record ('w, 'ctx) contexts =
  select_timer :: "'ctx \<Rightarrow> int \<Rightarrow> 'w \<Rightarrow> gerr option \<times> 'w"
  WithTimeout :: "'ctx \<Rightarrow> int \<Rightarrow> 'w \<Rightarrow> 'ctx"

end
