(* ===== verification/Gas.thy ===== *)
theory Gas
  imports Prelude
begin

text \<open>
  The gas arithmetic of \<open>internal/txmanager/gas.go\<close>: \<open>uint64(float64(estimated) * multiplier)\<close> in
  IEEE double precision, rounding to nearest with ties to even, and its bounds.
\<close>

section \<open>float64\<close>

text \<open>
  \<open>Fin m e\<close> is the number \<open>m * 2 ^ e\<close>. Gradual underflow is left out: it changes only products
  below one, which the conversion to an integer takes to 0 in any case. So is the sign of a zero,
  which neither a comparison nor the conversion sees.
\<close>

datatype float64 = Fin int int | PosInf | NegInf | NaN

fun bits :: "nat \<Rightarrow> nat" where
  "bits n = (if n = 0 then 0 else Suc (bits (n div 2)))"

declare bits.simps [simp del]

text \<open>Dividing by \<open>2 ^ k\<close>, to nearest, ties to even.\<close>

definition rne :: "nat \<Rightarrow> nat \<Rightarrow> nat" where
  "rne m k =
     (let q = m div 2 ^ k; r = m mod 2 ^ k
      in if 2 * r < 2 ^ k \<or> (2 * r = 2 ^ k \<and> even q) then q else q + 1)"

text \<open>A positive number with a mantissa of 53 bits; too large a number is infinite.\<close>

definition round53 :: "nat \<Rightarrow> int \<Rightarrow> float64" where
  "round53 m e =
     (let k = bits m - 53; q = (if k = 0 then m else rne m k); x = e + int k
      in if 0 \<le> x \<and> 2 ^ 1024 \<le> q * 2 ^ nat x then PosInf else Fin (int q) x)"

definition float_of_u64 :: "u64 \<Rightarrow> float64" where
  "float_of_u64 n = round53 (unat n) 0"

fun fneg :: "float64 \<Rightarrow> float64" where
  "fneg (Fin m e) = Fin (- m) e"
| "fneg PosInf = NegInf"
| "fneg NegInf = PosInf"
| "fneg NaN = NaN"

text \<open>Infinity times a number of the given sign.\<close>

definition inf_times :: "int \<Rightarrow> float64" where
  "inf_times m = (if m = 0 then NaN else if 0 < m then PosInf else NegInf)"

text \<open>
  The operators of Go on \<open>float64\<close>: the product is rounded to nearest; a comparison with NaN is
  false, so that \<open>x <= y\<close> is not the negation of \<open>y < x\<close>.
\<close>

instantiation float64 :: "{zero, times, ord}"
begin

definition zero_float64 :: float64 where
  "0 = Fin 0 0"

fun times_float64 :: "float64 \<Rightarrow> float64 \<Rightarrow> float64" where
  "Fin m e * Fin n f =
     (if 0 \<le> m * n then round53 (nat (m * n)) (e + f) else fneg (round53 (nat (- (m * n))) (e + f)))"
| "NaN * y = NaN"
| "x * NaN = NaN"
| "PosInf * Fin n f = inf_times n"
| "NegInf * Fin n f = inf_times (- n)"
| "Fin m e * PosInf = inf_times m"
| "Fin m e * NegInf = inf_times (- m)"
| "PosInf * PosInf = PosInf"
| "PosInf * NegInf = NegInf"
| "NegInf * PosInf = NegInf"
| "NegInf * NegInf = PosInf"

fun less_eq_float64 :: "float64 \<Rightarrow> float64 \<Rightarrow> bool" where
  "Fin m e \<le> Fin n f \<longleftrightarrow> m * 2 ^ nat (e - min e f) \<le> n * 2 ^ nat (f - min e f)"
| "NaN \<le> y \<longleftrightarrow> False"
| "x \<le> NaN \<longleftrightarrow> False"
| "NegInf \<le> y \<longleftrightarrow> True"
| "x \<le> PosInf \<longleftrightarrow> True"
| "x \<le> NegInf \<longleftrightarrow> False"
| "PosInf \<le> Fin n f \<longleftrightarrow> False"

definition less_float64 :: "float64 \<Rightarrow> float64 \<Rightarrow> bool" where
  "x < y \<longleftrightarrow> x \<le> y \<and> \<not> y \<le> (x :: float64)"

instance ..

end

lemma float64_le_zero [simp]:
  "Fin m e \<le> 0 \<longleftrightarrow> m \<le> 0" "NegInf \<le> 0" "\<not> PosInf \<le> 0" "\<not> NaN \<le> 0"
  by (simp_all add: zero_float64_def mult_le_0_iff)

lemma float64_le_refl: "x \<le> x \<longleftrightarrow> x \<noteq> NaN" for x :: float64
  by (cases x) simp_all

lemma float64_times_commute: "x * y = y * x" for x y :: float64
  by (cases x; cases y) (simp_all add: mult.commute add.commute)

definition floor_pow :: "nat \<Rightarrow> int \<Rightarrow> nat" where
  "floor_pow m e = (if 0 \<le> e then m * 2 ^ nat e else m div 2 ^ nat (- e))"

text \<open>
  The conversion to \<open>uint64\<close> drops the fraction. For a value that does not fit Go leaves the
  result to the implementation: the argument \<open>impl\<close>.
\<close>

fun u64_of_float :: "(float64 \<Rightarrow> u64) \<Rightarrow> float64 \<Rightarrow> u64" where
  "u64_of_float impl (Fin m e) =
     (if 0 \<le> m \<and> floor_pow (nat m) e < 2 ^ 64 then of_nat (floor_pow (nat m) e) else impl (Fin m e))"
| "u64_of_float impl x = impl x"

section \<open>Multipliers\<close>

text \<open>The constant 1.2 as a \<open>float64\<close>.\<close>

definition defaultGasMultiplier :: float64 where
  "defaultGasMultiplier = Fin 5404319552844595 (- 52)"

definition or_default_multiplier :: "float64 \<Rightarrow> float64" where
  "or_default_multiplier m = (if m \<le> 0 then defaultGasMultiplier else m)"

definition with_headroom :: "(float64 \<Rightarrow> u64) \<Rightarrow> u64 \<Rightarrow> float64 \<Rightarrow> u64" where
  "with_headroom impl estimated multiplier =
     u64_of_float impl (float_of_u64 estimated * multiplier)"

section \<open>Bounds\<close>

lemma bits_bound: "n < 2 ^ bits n"
proof (induction n rule: bits.induct)
  case (1 n)
  show ?case
  proof (cases "n = 0")
    case False
    with 1 have "n div 2 < 2 ^ bits (n div 2)" by simp
    then have "n < 2 * 2 ^ bits (n div 2)" by linarith
    with False show ?thesis by (subst bits.simps) simp
  qed (simp add: bits.simps)
qed

lemma bits_le: "n < 2 ^ k \<Longrightarrow> bits n \<le> k"
proof (induction n arbitrary: k rule: bits.induct)
  case (1 n)
  show ?case
  proof (cases "n = 0")
    case False
    with "1.prems" obtain j where k: "k = Suc j" by (cases k) auto
    with "1.prems" have "n div 2 < 2 ^ j" by (simp add: div_less_iff_less_mult mult.commute)
    with "1.IH" False k show ?thesis by (subst bits.simps) simp
  qed (simp add: bits.simps)
qed

text \<open>Rounding moves a number by half a unit at most.\<close>

lemma rne_bounds:
  "2 * m \<le> 2 * (rne m k * 2 ^ k) + 2 ^ k" "2 * (rne m k * 2 ^ k) \<le> 2 * m + 2 ^ k"
proof -
  let ?p = "2 ^ k :: nat"
  have m: "m = (m div ?p) * ?p + m mod ?p" by (rule div_mult_mod_eq [symmetric])
  have r: "m mod ?p < ?p" by simp
  show "2 * m \<le> 2 * (rne m k * ?p) + ?p"
  proof (cases "2 * (m mod ?p) < ?p \<or> (2 * (m mod ?p) = ?p \<and> even (m div ?p))")
    case True
    then have "rne m k * ?p = (m div ?p) * ?p" by (simp add: rne_def Let_def)
    with True m show ?thesis by linarith
  next
    case False
    then have "rne m k = m div ?p + 1" by (simp add: rne_def Let_def)
    then have "rne m k * ?p = (m div ?p) * ?p + ?p" by simp
    with m r show ?thesis by linarith
  qed
  show "2 * (rne m k * ?p) \<le> 2 * m + ?p"
  proof (cases "2 * (m mod ?p) < ?p \<or> (2 * (m mod ?p) = ?p \<and> even (m div ?p))")
    case True
    then have "rne m k * ?p = (m div ?p) * ?p" by (simp add: rne_def Let_def)
    with m show ?thesis by linarith
  next
    case False
    then have "rne m k = m div ?p + 1" by (simp add: rne_def Let_def)
    then have "rne m k * ?p = (m div ?p) * ?p + ?p" by simp
    moreover from False have "?p \<le> 2 * (m mod ?p)" by auto
    ultimately show ?thesis using m by linarith
  qed
qed

lemma rne_lower: "a * 2 ^ k \<le> m \<Longrightarrow> a \<le> rne m k"
proof -
  assume "a * 2 ^ k \<le> m"
  then have "a \<le> m div 2 ^ k" by (simp add: less_eq_div_iff_mult_less_eq)
  then show ?thesis by (auto simp: rne_def Let_def)
qed

lemma bits_lower: "0 < bits m - 53 \<Longrightarrow> 2 ^ 52 * 2 ^ (bits m - 53) \<le> m"
proof (rule ccontr)
  assume k: "0 < bits m - 53" and "\<not> 2 ^ 52 * 2 ^ (bits m - 53) \<le> m"
  moreover have "(2::nat) ^ 52 * 2 ^ (bits m - 53) = 2 ^ (52 + (bits m - 53))" by (rule power_add [symmetric])
  ultimately have "m < 2 ^ (52 + (bits m - 53))" by (simp only: not_le)
  from bits_le [OF this] k show False by linarith
qed

lemma float_of_u64_exact: "unat n < 2 ^ 53 \<Longrightarrow> float_of_u64 n = Fin (int (unat n)) 0"
  using bits_le [of "unat n" 53] less_trans [of "unat n" "2 ^ 53" "2 ^ 1024"]
  by (simp add: float_of_u64_def round53_def Let_def)

text \<open>
  The result of a product that fits, as a natural number: mantissa and exponent of the rounded
  product.
\<close>

lemma headroom_value:
  assumes "unat n < 2 ^ 53" and "0 \<le> M" and "float_of_u64 n * Fin M f = Fin m e"
    and "floor_pow (nat m) e < 2 ^ 64"
  shows "let k = bits (unat n * nat M) - 53; q = (if k = 0 then unat n * nat M else rne (unat n * nat M) k)
    in unat (with_headroom impl n (Fin M f)) = floor_pow q (f + int k) \<and> floor_pow q (f + int k) < 2 ^ 64"
proof -
  note fl = float_of_u64_exact [OF assms(1)]
  have nat: "nat (int (unat n) * M) = unat n * nat M" using assms(2) by (simp add: nat_mult_distrib)
  moreover have "0 \<le> uint n * M" using assms(2) by simp
  ultimately have r: "round53 (unat n * nat M) f = Fin m e" using fl assms(3) by simp
  then have "Fin m e = Fin (int (if bits (unat n * nat M) - 53 = 0 then unat n * nat M
      else rne (unat n * nat M) (bits (unat n * nat M) - 53))) (f + int (bits (unat n * nat M) - 53))"
    by (auto simp: round53_def Let_def split: if_splits)
  with fl r assms(2,4) nat show ?thesis
    by (simp add: with_headroom_def Let_def unat_of_nat)
qed

text \<open>
  The integer core: a mantissa rounded to 53 bits, scaled and truncated, is not below \<open>n\<close> when
  the exact product is not.
\<close>

lemma rounded_lower:
  fixes p :: nat
  defines "k \<equiv> bits p - 53"
  shows "a * 2 ^ k \<le> p \<Longrightarrow> a \<le> (if k = 0 then p else rne p k)"
    and "0 < k \<Longrightarrow> 2 ^ 52 \<le> (if k = 0 then p else rne p k)"
  using rne_lower [OF bits_lower [of p]] rne_lower [of a k p] by (auto simp: k_def)

lemma scaled_up_lower:
  fixes p :: nat
  defines "k \<equiv> bits p - 53"
  assumes "n < 2 ^ 53" and prod: "n * 2 ^ nat (- f) \<le> p" and nonneg: "0 \<le> f + int k"
  shows "n \<le> (if k = 0 then p else rne p k) * 2 ^ nat (f + int k)"
proof (cases "f + int k = 0 \<or> k = 0")
  case True
  with nonneg have "nat (- f) = k \<or> k = 0" by linarith
  moreover have "n * 1 \<le> n * 2 ^ nat (- f)" by (rule mult_le_mono2) simp
  then have "n \<le> p" using prod by linarith
  ultimately have "n * 2 ^ k \<le> p" using prod by auto
  then have "n \<le> (if k = 0 then p else rne p k)" unfolding k_def by (rule rounded_lower)
  also have "\<dots> \<le> (if k = 0 then p else rne p k) * 2 ^ nat (f + int k)" by simp
  finally show ?thesis .
next
  case False
  then have "2 ^ 52 \<le> (if k = 0 then p else rne p k)" unfolding k_def by (intro rounded_lower) simp
  moreover from False nonneg have "0 < nat (f + int k)" by linarith
  then have "(2::nat) ^ 1 \<le> 2 ^ nat (f + int k)" by (intro power_increasing) simp_all
  ultimately have "2 ^ 52 * 2 ^ 1 \<le> (if k = 0 then p else rne p k) * 2 ^ nat (f + int k)" by (rule mult_le_mono)
  with assms(2) show ?thesis by simp
qed

lemma scaled_down_lower:
  fixes p :: nat
  defines "k \<equiv> bits p - 53"
  assumes prod: "n * 2 ^ nat (- f) \<le> p" and neg: "\<not> 0 \<le> f + int k"
  shows "n \<le> (if k = 0 then p else rne p k) div 2 ^ nat (- (f + int k))"
proof -
  from neg have "nat (- f) = nat (- (f + int k)) + k" by simp
  with prod have "(n * 2 ^ nat (- (f + int k))) * 2 ^ k \<le> p" by (simp add: power_add mult.assoc)
  then have "n * 2 ^ nat (- (f + int k)) \<le> (if k = 0 then p else rne p k)" unfolding k_def by (rule rounded_lower)
  then show ?thesis by (simp add: less_eq_div_iff_mult_less_eq)
qed



text \<open>The default multiplier is the integer below over \<open>2 ^ 52\<close>: the integer core of the bounds.\<close>

lemma default_product:
  fixes n :: nat
  defines "p \<equiv> n * 5404319552844595"
  defines "k \<equiv> bits p - 53"
  defines "q \<equiv> (if k = 0 then p else rne p k)"
  defines "g \<equiv> q div 2 ^ (52 - k)"
  assumes n: "n < 2 ^ 52"
  shows "k \<le> 52" and "q < 2 ^ 1024" and "n \<le> g" and "6 * n \<le> 5 * g + 8" and "5 * g \<le> 6 * n + 2"
proof -
  have "p < 2 ^ 52 * 2 ^ 53" unfolding p_def using n by (rule mult_strict_mono') simp_all
  also have "\<dots> = (2::nat) ^ 105" by simp
  finally have "bits p \<le> 105" by (rule bits_le)
  then show k: "k \<le> 52" by (simp add: k_def)
  then have kp: "(2::nat) ^ k \<le> 2 ^ 52" by (intro power_increasing) simp_all
  have q: "2 * p \<le> 2 * (q * 2 ^ k) + 2 ^ k" "2 * (q * 2 ^ k) \<le> 2 * p + 2 ^ k"
    unfolding q_def using rne_bounds [of p k] by auto
  have split: "(2::nat) ^ (52 - k) * 2 ^ k = 2 ^ 52" using k by (simp flip: power_add)
  have "g * 2 ^ (52 - k) * 2 ^ k \<le> q * 2 ^ k" by (simp add: g_def div_times_less_eq_dividend)
  then have low: "g * 2 ^ 52 \<le> q * 2 ^ k" by (simp add: mult.assoc split)
  have "q < (g + 1) * 2 ^ (52 - k)" by (simp add: g_def dividend_less_div_times add.commute)
  then have "q * 2 ^ k < (g + 1) * 2 ^ (52 - k) * 2 ^ k" by simp
  then have high: "q * 2 ^ k < (g + 1) * 2 ^ 52" by (simp only: mult.assoc split)
  have five: "5 * p + n = 6 * n * 2 ^ 52" by (simp add: p_def)
  show up: "5 * g \<le> 6 * n + 2" using low q(2) kp five by simp
  show "6 * n \<le> 5 * g + 8" using high q(1) kp five n by simp
  have "q * 1 \<le> q * 2 ^ k" by (rule mult_le_mono2) simp
  then have "q \<le> q * 2 ^ k" by simp
  also have "q * 2 ^ k < 2 ^ 106" using high up n by simp
  also have "(2::nat) ^ 106 \<le> 2 ^ 1024" by (rule power_increasing) simp_all
  finally show "q < 2 ^ 1024" .
  have "n * 2 ^ (52 - k) * 2 ^ k \<le> p" unfolding mult.assoc split by (simp add: p_def)
  then have "n * 2 ^ (52 - k) \<le> q" using rne_lower by (auto simp: q_def)
  then show "n \<le> g" by (simp add: g_def less_eq_div_iff_mult_less_eq)
qed

text \<open>
  The default multiplier: for an estimate below \<open>2 ^ 52\<close> the gas limit is within 8/5 below
  and 2/5 above 1.2 times the estimate, and never below the estimate itself.
\<close>

theorem default_headroom:
  assumes "unat n < 2 ^ 52" and "multiplier \<le> 0"
    and "h = unat (with_headroom impl n (or_default_multiplier multiplier))"
  shows "unat n \<le> h \<and> 6 * unat n \<le> 5 * h + 8 \<and> 5 * h \<le> 6 * unat n + 2"
proof -
  define p k q where "p = unat n * 5404319552844595" and "k = bits p - 53" and "q = (if k = 0 then p else rne p k)"
  define g where "g = q div 2 ^ (52 - k)"
  note bounds = default_product [OF assms(1), folded p_def, folded k_def, folded q_def, folded g_def]
  have n53: "unat n < 2 ^ 53" using assms(1) by simp
  have "nat (int (unat n) * 5404319552844595) = p" by (simp add: p_def nat_mult_distrib)
  then have prod: "float_of_u64 n * Fin 5404319552844595 (- 52) = Fin (int q) (- 52 + int k)"
    using float_of_u64_exact [OF n53] bounds(1,2)
    by (auto simp: round53_def Let_def k_def [symmetric] q_def [symmetric] not_le)
  have M: "unat n * nat 5404319552844595 = p" by (simp add: p_def)
  have "k = 52 \<or> nat (52 - int k) = 52 - k" using bounds(1) by linarith
  then have fp: "floor_pow q (- 52 + int k) = g" using bounds(1) by (auto simp: floor_pow_def g_def)
  have "g < 2 ^ 64" using bounds(5) assms(1) by simp
  with headroom_value [OF n53 _ prod, of impl, unfolded Let_def M, folded k_def, folded q_def] fp
  have "unat (with_headroom impl n (Fin 5404319552844595 (- 52))) = g" by simp
  with bounds assms(2,3) show ?thesis by (simp add: or_default_multiplier_def defaultGasMultiplier_def)
qed

theorem default_headroom_witness:
  "unat (with_headroom (\<lambda>_. 0) 100000 (or_default_multiplier (Fin 0 0))) \<in> {119999..120000}"
  using default_headroom [of 100000 "Fin 0 0" _ "\<lambda>_. 0"] by simp

end
