(* ===== verification/TxManager.thy ===== *)
theory TxManager
  imports Eth Gas Predict
begin

text \<open>
  \<open>internal/txmanager\<close>: gas estimation, the transaction, \<open>Submit\<close>, \<open>Wait\<close>, \<open>Deploy\<close> and the polling
  for a receipt, over any JSON-RPC client, signer, nonce manager and context.
\<close>

section \<open>State\<close>

text \<open>
  The world of a transaction manager: the deployment of its version (with its caches), the
  chain registry, and the world \<open>'w\<close> of the client, the signer and the nonce manager.
\<close>

record ('abi, 'w) tx_world =
  deployment :: "'abi BaseDeployment"
  chain_reg :: chain_registry
  outer :: 'w

record ('w, 's, 'ctx) TxManager =
  client :: "('w, 'ctx) eth_client"
  tm_signer :: "('w, 'ctx) signer"
  nonceManager :: "('w, 's, 'ctx) manager"
  receiptPollInterval :: int

record Result =
  SafeAddress :: address
  ResTxHash :: hash
  ResBlockNumber :: u64
  ResGasUsed :: u64

record tx_Options =
  GasMultiplier :: float64
  Timeout :: int

definition defaultDeployTimeout :: int where "defaultDeployTimeout = 2 * 60 * 1000000000"
definition defaultReceiptPollInterval :: int where "defaultReceiptPollInterval = 2 * 1000000000"

definition gasMultiplier :: "tx_Options option \<Rightarrow> float64" where
  "gasMultiplier opts =
     (case opts of None \<Rightarrow> defaultGasMultiplier
      | Some o' \<Rightarrow> if GasMultiplier o' \<le> 0 then defaultGasMultiplier else GasMultiplier o')"

definition opts_timeout :: "tx_Options option \<Rightarrow> int" where
  "opts_timeout opts =
     (case opts of None \<Rightarrow> defaultDeployTimeout
      | Some o' \<Rightarrow> if Timeout o' \<le> 0 then defaultDeployTimeout else Timeout o')"

definition New :: "('w, 'ctx) eth_client \<Rightarrow> ('w, 'ctx) signer \<Rightarrow> ('w, 's, 'ctx) manager \<Rightarrow> int \<Rightarrow> ('w, 's, 'ctx) TxManager" where
  "New c s nm poll =
     \<lparr>client = c, tm_signer = s, nonceManager = nm,
      receiptPollInterval = (if poll \<le> 0 then defaultReceiptPollInterval else poll)\<rparr>"

definition ErrAddressAlreadyDeployed :: gerr where "ErrAddressAlreadyDeployed = Sentinel ''txmanager.ErrAddressAlreadyDeployed''"
definition ErrDeployTimeout :: gerr where "ErrDeployTimeout = Sentinel ''txmanager.ErrDeployTimeout''"
definition ErrTransactionReverted :: gerr where "ErrTransactionReverted = Sentinel ''txmanager.ErrTransactionReverted''"

text \<open>A call of the client, the signer or the nonce manager; a call of the deployment; a pure step.\<close>

definition extern :: "('w, 'a) prog \<Rightarrow> (('abi, 'w) tx_world, 'a) prog" where
  "extern m w = (case m (outer w) of None \<Rightarrow> None | Some (r, v) \<Rightarrow> Some (r, w\<lparr>outer := v\<rparr>))"

definition dep ::
  "(chain_registry \<Rightarrow> 'abi BaseDeployment \<Rightarrow> 'a result \<times> 'abi BaseDeployment) \<Rightarrow> (('abi, 'w) tx_world, 'a) prog" where
  "dep f w = (case f (chain_reg w) (deployment w) of (r, d) \<Rightarrow> Some (r, w\<lparr>deployment := d\<rparr>))"

definition reads :: "('w \<Rightarrow> 'a) \<Rightarrow> ('w, 'a) prog" where
  "reads f w = Some (Ok (f w), w)"

definition pure :: "'a result \<Rightarrow> ('w, 'a) prog" where
  "pure r w = Some (r, w)"

section \<open>Gas\<close>

definition estimateGas ::
  "(float64 \<Rightarrow> u64) \<Rightarrow> 'ctx \<Rightarrow> ('w, 'ctx) eth_client \<Rightarrow> address \<Rightarrow> address \<Rightarrow> byte list \<Rightarrow> float64 \<Rightarrow> ('w, u64) prog" where
  "estimateGas impl ctx c from_addr to_addr data multiplier =
     chk (EstimateGas c ctx \<lparr>From = from_addr, CallTo = to_addr, CallData = data\<rparr>)
       (\<lambda>e. gfail (wrapf ''gas estimation failed: %w'' e))
       (\<lambda>estimated. gret (with_headroom impl estimated (or_default_multiplier multiplier)))"

definition suggestGasPrice :: "'ctx \<Rightarrow> ('w, 'ctx) eth_client \<Rightarrow> ('w, int) prog" where
  "suggestGasPrice ctx c = chk (SuggestGasPrice c ctx) (\<lambda>e. gfail (wrapf ''failed to suggest gas price: %w'' e)) gret"

definition suggestGasTipCap :: "'ctx \<Rightarrow> ('w, 'ctx) eth_client \<Rightarrow> ('w, int) prog" where
  "suggestGasTipCap ctx c = chk (SuggestGasTipCap c ctx) (\<lambda>e. gfail (wrapf ''failed to suggest gas tip: %w'' e)) gret"

section \<open>The transaction\<close>

text \<open>\<open>new(big.Int).SetBytes\<close>: a big-endian natural number.\<close>

definition SetBytes :: "byte list \<Rightarrow> int" where
  "SetBytes bs = int (bytes_nat bs)"

definition buildCalldata ::
  "('abi, 'z) geth_scheme \<Rightarrow> 'abi \<Rightarrow> predict_Input \<Rightarrow> int option \<Rightarrow> bool \<Rightarrow> (('abi, 'w) tx_world, byte list) prog" where
  "buildCalldata g setupABI input chainID isL2 =
     chk (dep (\<lambda>r. ProxyFactory g r chainID)) gfail (\<lambda>factory.
     chk (dep (\<lambda>r. Singleton g r chainID isL2)) gfail (\<lambda>singleton.
     chk (pure (BuildInitializer g setupABI (Owners input) (Threshold input))) gfail (\<lambda>initializer.
     chk (pure (Pack g (ABI factory) ''createProxyWithNonce''
            [VAddress (ParsedDeployment.Address singleton), VBytes initializer,
             VUint (SetBytes (DeriveSaltNonce g (Salt input)))]))
       (\<lambda>e. gfail (wrapf ''failed to pack createProxyWithNonce: %w'' e)) gret)))"

definition buildTxWithNonce ::
  "int option \<Rightarrow> address \<Rightarrow> byte list \<Rightarrow> u64 \<Rightarrow> u64 \<Rightarrow> int \<Rightarrow> int option \<Rightarrow> int option \<Rightarrow> transaction" where
  "buildTxWithNonce chainID to_addr data nonce gasLimit tip baseFee gasPrice =
     (case baseFee of
        None \<Rightarrow> LegacyTx nonce gasPrice gasLimit to_addr 0 data
      | Some fee \<Rightarrow> DynamicFeeTx chainID nonce tip (fee * 2 + tip) gasLimit to_addr 0 data)"

section \<open>Submit\<close>

definition IsDeployed :: "('w, 's, 'ctx) TxManager \<Rightarrow> 'ctx \<Rightarrow> address \<Rightarrow> ('w, bool) prog" where
  "IsDeployed t ctx a = chk (CodeAt (client t) ctx a) gfail (\<lambda>code. gret (code \<noteq> []))"

text \<open>\<open>deployed, checkErr := t.IsDeployed(...); checkErr == nil && deployed\<close>.\<close>

definition already_deployed :: "('w, 's, 'ctx) TxManager \<Rightarrow> 'ctx \<Rightarrow> address \<Rightarrow> ('w, bool) prog" where
  "already_deployed t ctx a = chk (IsDeployed t ctx a) (\<lambda>_. gret False) gret"

definition Reuse_slot :: "('w, 's, 'ctx) TxManager \<Rightarrow> 's \<Rightarrow> gerr \<Rightarrow> (('abi, 'w) tx_world, 'a) prog" where
  "Reuse_slot t s = (\<lambda>e. chk (extern (resolve_slot (nonceManager t) Reuse s)) gfail (\<lambda>_. gfail e))"

definition Submit ::
  "('abi, 'key, 'z) geth_tx_scheme \<Rightarrow> 'abi \<Rightarrow> (float64 \<Rightarrow> u64) \<Rightarrow> ('w, 's, 'ctx) TxManager \<Rightarrow> 'ctx \<Rightarrow> int option \<Rightarrow> bool \<Rightarrow>
     predict_Input \<Rightarrow> tx_Options option \<Rightarrow> (('abi, 'w) tx_world, hash) prog" where
  "Submit g setupABI impl t ctx chainID isL2 input opts =
     chk (buildCalldata g setupABI input chainID isL2) (\<lambda>e. gfail (wrapf ''failed to build calldata: %w'' e)) (\<lambda>calldata.
     chk (dep (\<lambda>r. ProxyFactory g r chainID)) (\<lambda>e. gfail (wrapf ''failed to get proxy factory: %w'' e)) (\<lambda>factory.
     chk (dep (\<lambda>r. Predict.Address g setupABI r input chainID isL2))
       (\<lambda>e. gfail (wrapf ''address prediction failed: %w'' e)) (\<lambda>predictedAddr.
     chk (extern (nm_Acquire (nonceManager t) ctx)) (\<lambda>e. gfail (wrapf ''failed to acquire nonce slot: %w'' e)) (\<lambda>(n, slot).
     chk (extern (already_deployed t ctx predictedAddr)) gfail (\<lambda>deployed.
       if deployed then Reuse_slot t slot (Errorf ''%w: %s'' [EAddr predictedAddr] [ErrAddressAlreadyDeployed])
       else
     chk (extern (reads (signer_Address (tm_signer t)))) gfail (\<lambda>from_addr.
     chk (extern (estimateGas impl ctx (client t) from_addr (ParsedDeployment.Address factory) calldata (gasMultiplier opts)))
       (\<lambda>e. Reuse_slot t slot (wrapf ''gas estimation failed: %w'' e)) (\<lambda>gasLimit.
     chk (extern (suggestGasTipCap ctx (client t))) (Reuse_slot t slot) (\<lambda>tip.
     chk (extern (HeaderByNumber (client t) ctx))
       (\<lambda>e. Reuse_slot t slot (wrapf ''failed to get latest block header: %w'' e)) (\<lambda>baseFee.
     chk (if baseFee = None then chk (extern (suggestGasPrice ctx (client t))) gfail (\<lambda>p. gret (Some p)) else gret None)
       (Reuse_slot t slot) (\<lambda>gasPrice.
     chk (extern (SignTx (tm_signer t) ctx
            (buildTxWithNonce chainID (ParsedDeployment.Address factory) calldata n gasLimit tip baseFee gasPrice) chainID))
       (Reuse_slot t slot) (\<lambda>signed.
     chk (extern (SendTransaction (client t) ctx signed))
       (\<lambda>sendErr. chk (extern (resolve_slot (nonceManager t) Reclaim slot)) gfail
          (\<lambda>_. gfail (wrapf ''failed to submit transaction: %w'' sendErr))) (\<lambda>_.
     chk (extern (resolve_slot (nonceManager t) Commit slot)) gfail (\<lambda>_. gret (TxHash g signed))))))))))))))"

section \<open>Wait\<close>

text \<open>
  One tick of \<open>waitForReceipt\<close>: the context ends, or the timer fires and the receipt is asked
  for; any error of that call, a missing receipt included, asks for another round.
\<close>

definition receipt_round ::
  "('w, 'ctx) contexts \<Rightarrow> ('w, 's, 'ctx) TxManager \<Rightarrow> 'ctx \<Rightarrow> hash \<Rightarrow> ('w, receipt option) prog" where
  "receipt_round cs t ctx txHash w =
     (case select_timer cs ctx (receiptPollInterval t) w of
        (Some e, v) \<Rightarrow> Some (Err e, v)
      | (None, v) \<Rightarrow> chk (TransactionReceipt (client t) ctx txHash) (\<lambda>_. gret None) (\<lambda>r. gret (Some r)) v)"

partial_function (option) waitForReceipt ::
  "('w, 'ctx) contexts \<Rightarrow> ('w, 's, 'ctx) TxManager \<Rightarrow> 'ctx \<Rightarrow> hash \<Rightarrow> 'w \<Rightarrow> (receipt result \<times> 'w) option" where
  "waitForReceipt cs t ctx txHash w =
     Option.bind (receipt_round cs t ctx txHash w) (\<lambda>rv.
       if fst rv = Ok None then waitForReceipt cs t ctx txHash (snd rv)
       else Some (case fst rv of Ok r \<Rightarrow> Ok (the r) | Err e \<Rightarrow> Err e | Panic p \<Rightarrow> Panic p, snd rv))"

lemma waitForReceipt_round [code]:
  "waitForReceipt cs t ctx txHash w =
     (case receipt_round cs t ctx txHash w of
        None \<Rightarrow> None
      | Some (r, v) \<Rightarrow>
          (case r of
             Ok got \<Rightarrow> (case got of None \<Rightarrow> waitForReceipt cs t ctx txHash v | Some rc \<Rightarrow> Some (Ok rc, v))
           | Err e \<Rightarrow> Some (Err e, v)
           | Panic p \<Rightarrow> Some (Panic p, v)))"
  by (subst waitForReceipt.simps) (auto split: option.splits prod.splits result.splits)

text \<open>The loop over the logs, once the event's ID is known.\<close>

fun find_proxy :: "('abi, 'z) geth_scheme \<Rightarrow> hash \<Rightarrow> log_entry list \<Rightarrow> address result" where
  "find_proxy g ev [] = Err (errmsg ''ProxyCreation event not found in transaction logs'')"
| "find_proxy g ev (l # ls) =
     (case Topics l of
        [] \<Rightarrow> find_proxy g ev ls
      | topic0 # topics \<Rightarrow>
          if topic0 \<noteq> ev then find_proxy g ev ls
          else
            (case topics of
               topic1 # _ \<Rightarrow> Ok (BytesToAddress g (HashBytes g topic1))
             | [] \<Rightarrow>
                 if length (LogData l) < 32 then
                   Err (Errorf ''ProxyCreation log data too short: %d bytes, want at least 32'' [ENat (length (LogData l))] [])
                 else Ok (BytesToAddress g (drop 12 (take 32 (LogData l))))))"

definition extractDeployedAddress ::
  "('abi, 'z) geth_scheme \<Rightarrow> receipt \<Rightarrow> int option \<Rightarrow> (('abi, 'w) tx_world, address) prog" where
  "extractDeployedAddress g rc chainID =
     chk (dep (\<lambda>r. ProxyFactory g r chainID)) gfail (\<lambda>factory.
       case EventID g (ABI factory) ''ProxyCreation'' of
         None \<Rightarrow> gfail (errmsg ''ProxyCreation event not found in factory ABI'')
       | Some ev \<Rightarrow> pure (find_proxy g ev (Logs rc)))"

text \<open>\<open>(*big.Int).Uint64\<close>, which panics on a nil pointer.\<close>

definition big_Uint64 :: "int option \<Rightarrow> u64 result" where
  "big_Uint64 i = (case i of None \<Rightarrow> Panic ''nil pointer dereference'' | Some x \<Rightarrow> Ok (of_int \<bar>x\<bar>))"

definition Wait ::
  "('abi, 'z) geth_scheme \<Rightarrow> 'abi \<Rightarrow> ('w, 'ctx) contexts \<Rightarrow> ('w, 's, 'ctx) TxManager \<Rightarrow> 'ctx \<Rightarrow> int option \<Rightarrow> bool \<Rightarrow>
     predict_Input \<Rightarrow> hash \<Rightarrow> (('abi, 'w) tx_world, Result) prog" where
  "Wait g setupABI cs t ctx chainID isL2 input txHash =
     chk (dep (\<lambda>r. Predict.Address g setupABI r input chainID isL2))
       (\<lambda>e. gfail (wrapf ''address prediction failed: %w'' e)) (\<lambda>predictedAddr.
     chk (extern (waitForReceipt cs t ctx txHash)) gfail (\<lambda>rc.
       if Status rc = ReceiptStatusFailed then gfail (Errorf ''%w: %s'' [EHash txHash] [ErrTransactionReverted])
       else
     chk (extractDeployedAddress g rc chainID)
       (\<lambda>e. gfail (wrapf ''failed to extract deployed address: %w'' e)) (\<lambda>actualAddr.
     chk (pure (big_Uint64 (BlockNumber rc))) gfail (\<lambda>block.
       if actualAddr \<noteq> predictedAddr then gfail (DeploymentMismatch predictedAddr actualAddr txHash block)
       else gret \<lparr>SafeAddress = actualAddr, ResTxHash = txHash, ResBlockNumber = block, ResGasUsed = GasUsed rc\<rparr>))))"

section \<open>Deploy\<close>

definition Deploy ::
  "('abi, 'key, 'z) geth_tx_scheme \<Rightarrow> 'abi \<Rightarrow> (float64 \<Rightarrow> u64) \<Rightarrow> ('w, 'ctx) contexts \<Rightarrow> ('w, 's, 'ctx) TxManager \<Rightarrow>
     'ctx \<Rightarrow> int option \<Rightarrow> bool \<Rightarrow> predict_Input \<Rightarrow> tx_Options option \<Rightarrow> (('abi, 'w) tx_world, Result) prog" where
  "Deploy g setupABI impl cs t ctx chainID isL2 input opts =
     chk (Submit g setupABI impl t ctx chainID isL2 input opts) gfail (\<lambda>txHash.
     chk (extern (reads (WithTimeout cs ctx (opts_timeout opts)))) gfail (\<lambda>timeoutCtx.
     chk (Wait g setupABI cs t timeoutCtx chainID isL2 input txHash)
       (\<lambda>e. if errors_is e context_DeadlineExceeded then gfail (Errorf ''%w: %s'' [EHash txHash] [ErrDeployTimeout])
            else gfail e)
       gret))"

definition TxManager_Close :: "('w, 's, 'ctx) TxManager \<Rightarrow> ('w, unit) prog" where
  "TxManager_Close t = Close (tm_signer t)"

section \<open>Submit as a use of a slot\<close>

text \<open>
  What a client of the interface \<open>Slot\<close> has to do: acquire; prepare a transaction, giving the
  slot back with \<open>Reuse\<close> if that fails; send it, and resolve the slot by the outcome.
\<close>

definition with_slot ::
  "('w, u64 \<times> 's) prog \<Rightarrow> (resolution \<Rightarrow> 's \<Rightarrow> ('w, unit) prog) \<Rightarrow> (u64 \<Rightarrow> ('w, 'x) prog) \<Rightarrow> ('x \<Rightarrow> ('w, unit) prog) \<Rightarrow> ('w, 'x) prog" where
  "with_slot acq res prepare send =
     chk acq (\<lambda>e. gfail (wrapf ''failed to acquire nonce slot: %w'' e)) (\<lambda>(n, s).
       chk (prepare n) (\<lambda>e. chk (res Reuse s) gfail (\<lambda>_. gfail e)) (\<lambda>x.
       chk (send x)
         (\<lambda>e. chk (res Reclaim s) gfail (\<lambda>_. gfail (wrapf ''failed to submit transaction: %w'' e)))
         (\<lambda>_. chk (res Commit s) gfail (\<lambda>_. gret x))))"

text \<open>Everything between \<open>Acquire\<close> and \<open>SendTransaction\<close>: no call of the slot, nothing sent.\<close>

definition prepare_tx ::
  "(float64 \<Rightarrow> u64) \<Rightarrow> ('w, 's, 'ctx) TxManager \<Rightarrow> 'ctx \<Rightarrow> int option \<Rightarrow> tx_Options option \<Rightarrow> address \<Rightarrow> byte list \<Rightarrow> address \<Rightarrow>
     u64 \<Rightarrow> ('w, signed_tx) prog" where
  "prepare_tx impl t ctx chainID opts factory calldata predictedAddr n =
     chk (already_deployed t ctx predictedAddr) gfail (\<lambda>deployed.
       if deployed then gfail (Errorf ''%w: %s'' [EAddr predictedAddr] [ErrAddressAlreadyDeployed])
       else
     chk (reads (signer_Address (tm_signer t))) gfail (\<lambda>from_addr.
     chk (estimateGas impl ctx (client t) from_addr factory calldata (gasMultiplier opts))
       (\<lambda>e. gfail (wrapf ''gas estimation failed: %w'' e)) (\<lambda>gasLimit.
     chk (suggestGasTipCap ctx (client t)) gfail (\<lambda>tip.
     chk (HeaderByNumber (client t) ctx) (\<lambda>e. gfail (wrapf ''failed to get latest block header: %w'' e)) (\<lambda>baseFee.
     chk (if baseFee = None then chk (suggestGasPrice ctx (client t)) gfail (\<lambda>p. gret (Some p)) else gret None) gfail (\<lambda>gasPrice.
     SignTx (tm_signer t) ctx (buildTxWithNonce chainID factory calldata n gasLimit tip baseFee gasPrice) chainID))))))"

definition submit_spec ::
  "('abi, 'key, 'z) geth_tx_scheme \<Rightarrow> 'abi \<Rightarrow> (float64 \<Rightarrow> u64) \<Rightarrow> ('w, 's, 'ctx) TxManager \<Rightarrow> 'ctx \<Rightarrow> int option \<Rightarrow> bool \<Rightarrow>
     predict_Input \<Rightarrow> tx_Options option \<Rightarrow> (('abi, 'w) tx_world, hash) prog" where
  "submit_spec g setupABI impl t ctx chainID isL2 input opts =
     chk (buildCalldata g setupABI input chainID isL2) (\<lambda>e. gfail (wrapf ''failed to build calldata: %w'' e)) (\<lambda>calldata.
     chk (dep (\<lambda>r. ProxyFactory g r chainID)) (\<lambda>e. gfail (wrapf ''failed to get proxy factory: %w'' e)) (\<lambda>factory.
     chk (dep (\<lambda>r. Predict.Address g setupABI r input chainID isL2))
       (\<lambda>e. gfail (wrapf ''address prediction failed: %w'' e)) (\<lambda>predictedAddr.
     chk (extern (with_slot (nm_Acquire (nonceManager t) ctx) (resolve_slot (nonceManager t))
            (prepare_tx impl t ctx chainID opts (ParsedDeployment.Address factory) calldata predictedAddr)
            (SendTransaction (client t) ctx)))
       gfail (\<lambda>signed. gret (TxHash g signed)))))"

lemma chk_assoc: "chk (chk m h k) h' k' = chk m (\<lambda>e. chk (h e) h' k') (\<lambda>x. chk (k x) h' k')"
  by (rule ext) (auto simp: chk_def split: option.splits prod.splits result.splits)

lemma chk_unit [simp]: "chk (gret x) h k = k x" "chk (gfail e) h k = h e"
  by (rule ext, simp add: chk_def gret_def gfail_def)+

lemma chk_if: "chk (if b then p else q) h k = (if b then chk p h k else chk q h k)"
  by simp

lemma extern_chk: "extern (chk m h k) = chk (extern m) (\<lambda>e. extern (h e)) (\<lambda>x. extern (k x))"
  by (rule ext) (auto simp: chk_def extern_def split: option.splits prod.splits result.splits)

lemma extern_unit [simp]: "extern (gret x) = gret x" "extern (gfail e) = gfail e"
  by (rule ext, simp add: extern_def gret_def gfail_def)+

lemma extern_if: "extern (if b then p else q) = (if b then extern p else extern q)"
  by simp

text \<open>\<open>signer.Address()\<close> and the discarded error of \<open>IsDeployed\<close> have no error branch.\<close>

definition reading :: "('w \<Rightarrow> 'a) \<Rightarrow> ('a \<Rightarrow> (('abi, 'w) tx_world, 'b) prog) \<Rightarrow> (('abi, 'w) tx_world, 'b) prog" where
  "reading f k w = k (f (outer w)) w"

lemma chk_reads: "chk (extern (reads f)) h k = reading f k"
  by (rule ext) (simp add: chk_def extern_def reads_def reading_def)

lemma chk_reading: "chk (reading f k) h k' = reading f (\<lambda>x. chk (k x) h k')"
  by (rule ext) (simp add: chk_def reading_def)

lemma Submit_slots:
  "Submit g setupABI impl t ctx chainID isL2 input opts = submit_spec g setupABI impl t ctx chainID isL2 input opts"
  by (rule ext)
    (simp add: Submit_def submit_spec_def with_slot_def prepare_tx_def Reuse_slot_def already_deployed_def
      chk_assoc extern_chk extern_if chk_if chk_reads chk_reading split_def cong: if_cong)

text \<open>
  C5: \<open>Submit\<close> is that protocol: it resolves the slot it acquired exactly once on every path,
  with \<open>Commit\<close> after a successful \<open>SendTransaction\<close>, with \<open>Reclaim\<close> after a failed one, and
  with \<open>Reuse\<close> whenever it gives up before sending; it sends at most one transaction, and
  acquires nothing before the call data, the factory and the predicted address are known.
\<close>

theorem submit_protocol:
  "Submit g setupABI impl t ctx chainID isL2 input opts = submit_spec g setupABI impl t ctx chainID isL2 input opts"
  by (rule Submit_slots)

end
