(* ===== verification/TxWorld.thy ===== *)
theory TxWorld
  imports TxManager
begin

text \<open>
  How the calls of a transaction manager use the deployment of its version: each reads what
  \<open>Load\<close> returns, fills caches correctly, and leaves the rest of the world to the client, the
  signer and the nonce manager.
\<close>

section \<open>The deployment under a transaction manager\<close>

definition same_world :: "('abi, 'z) geth_scheme \<Rightarrow> ('abi, 'w) tx_world \<Rightarrow> ('abi, 'w) tx_world \<Rightarrow> bool" where
  "same_world g w w' \<longleftrightarrow>
     deployment_ok g (deployment w') \<and> same_files (deployment w) (deployment w') \<and> chain_reg w' = chain_reg w"

definition same_prefix :: "('abi, 'z) geth_scheme \<Rightarrow> ('abi, 'w) tx_world \<Rightarrow> ('abi, 'w) tx_world \<Rightarrow> bool" where
  "same_prefix g w w' \<longleftrightarrow> same_world g w w' \<and> outer w' = outer w"

lemma same_files_refl [simp]: "same_files d d"
  by (simp add: same_files_def)

lemma same_files_trans: "same_files a b \<Longrightarrow> same_files b c \<Longrightarrow> same_files a c"
  by (simp add: same_files_def)

lemma same_world_refl: "deployment_ok g (deployment w) \<Longrightarrow> same_world g w w"
  by (simp add: same_world_def)

lemma same_world_trans: "same_world g a b \<Longrightarrow> same_world g b c \<Longrightarrow> same_world g a c"
  by (auto simp: same_world_def intro: same_files_trans)

lemma same_prefix_trans: "same_prefix g a b \<Longrightarrow> same_prefix g b c \<Longrightarrow> same_prefix g a c"
  by (auto simp: same_prefix_def intro: same_world_trans)

text \<open>The files a version gives a chain.\<close>

definition factory_of :: "('abi, 'z) geth_scheme \<Rightarrow> ('abi, 'w) tx_world \<Rightarrow> int option \<Rightarrow> 'abi ParsedDeployment result" where
  "factory_of g w i = Load g (proxyFactoryJSON (deployment w)) (resolveChainID (chain_reg w) i)"

definition singleton_of :: "('abi, 'z) geth_scheme \<Rightarrow> ('abi, 'w) tx_world \<Rightarrow> int option \<Rightarrow> bool \<Rightarrow> 'abi ParsedDeployment result" where
  "singleton_of g w i l2 =
     Load g (if l2 then safeL2JSON (deployment w) else safeJSON (deployment w)) (resolveChainID (chain_reg w) i)"

definition predicted ::
  "('abi, 'z) geth_scheme \<Rightarrow> 'abi \<Rightarrow> ('abi, 'w) tx_world \<Rightarrow> predict_Input \<Rightarrow> int option \<Rightarrow> bool \<Rightarrow> address result" where
  "predicted g a w input i l2 = predict_reference g a (chain_reg w) input i l2 (deployment w)"

lemma same_world_files:
  assumes "same_world g w w'"
  shows "factory_of g w' i = factory_of g w i" and "singleton_of g w' i l2 = singleton_of g w i l2"
    and "predicted g a w' input i l2 = predicted g a w input i l2"
  using assms by (simp_all add: same_world_def same_files_def factory_of_def singleton_of_def predicted_def predict_reference_def)

lemma dep_run:
  assumes "f (chain_reg w) (deployment w) = (r, d)" and "deployment_ok g d" and "same_files (deployment w) d"
  shows "\<exists>w'. dep f w = Some (r, w') \<and> same_prefix g w w'"
  using assms by (simp add: dep_def same_prefix_def same_world_def)

lemma dep_ProxyFactory:
  assumes "deployment_ok g (deployment w)"
  shows "\<exists>w'. dep (\<lambda>r. ProxyFactory g r i) w = Some (factory_of g w i, w') \<and> same_prefix g w w'"
  using ProxyFactory_ok [OF assms, of "chain_reg w" i] by (auto simp: factory_of_def intro!: dep_run)

lemma dep_Singleton:
  assumes "deployment_ok g (deployment w)"
  shows "\<exists>w'. dep (\<lambda>r. Singleton g r i l2) w = Some (singleton_of g w i l2, w') \<and> same_prefix g w w'"
  using Singleton_ok [OF assms, of "chain_reg w" i l2] by (auto simp: singleton_of_def intro!: dep_run)

lemma dep_Address:
  assumes "geth_laws g" and "deployment_ok g (deployment w)"
  shows "\<exists>w'. dep (\<lambda>r. Predict.Address g a r input (Some i) l2) w = Some (predicted g a w input (Some i) l2, w') \<and>
    same_prefix g w w'"
  using Address_reference [OF assms, of a "chain_reg w" input i l2] by (auto simp: predicted_def intro!: dep_run)

text \<open>What every program over this world keeps.\<close>

definition keeps_world :: "('abi, 'z) geth_scheme \<Rightarrow> (('abi, 'w) tx_world, 'a) prog \<Rightarrow> bool" where
  "keeps_world g m \<longleftrightarrow>
     (\<forall>w r w'. deployment_ok g (deployment w) \<longrightarrow> m w = Some (r, w') \<longrightarrow> same_world g w w')"

lemma keeps_worldD:
  "keeps_world g m \<Longrightarrow> deployment_ok g (deployment w) \<Longrightarrow> m w = Some (r, w') \<Longrightarrow> same_world g w w'"
  unfolding keeps_world_def by blast

lemma keeps_world_chk:
  assumes m: "keeps_world g m" and h: "\<And>e. keeps_world g (h e)" and k: "\<And>x. keeps_world g (k x)"
  shows "keeps_world g (chk m h k)"
proof -
  have ok: "same_world g w v \<Longrightarrow> deployment_ok g (deployment v)" for w v by (simp add: same_world_def)
  show ?thesis unfolding keeps_world_def
    by (intro allI impI) (erule chk_runE;
      blast intro: same_world_trans ok keeps_worldD [OF m] keeps_worldD [OF h] keeps_worldD [OF k])
qed

lemma keeps_world_extern: "keeps_world g (extern m)" and keeps_world_pure: "keeps_world g (pure q)"
  and keeps_world_gfail: "keeps_world g (gfail e)" and keeps_world_gret: "keeps_world g (gret x)"
  by (auto simp: keeps_world_def extern_def pure_def gfail_def gret_def same_world_def split: option.splits)

lemma keeps_world_ProxyFactory: "keeps_world g (dep (\<lambda>r. ProxyFactory g r i))"
  and keeps_world_Singleton: "keeps_world g (dep (\<lambda>r. Singleton g r i l2))"
  using dep_ProxyFactory [of g _ i] dep_Singleton [of g _ i l2]
  unfolding keeps_world_def same_prefix_def by (metis option.inject prod.inject)+

lemma keeps_world_Address: "geth_laws g \<Longrightarrow> keeps_world g (dep (\<lambda>r. Predict.Address g a r input i l2))"
proof (cases i)
  case None
  then show ?thesis by (auto simp: keeps_world_def dep_def Predict.Address_def same_world_def)
next
  case (Some j)
  assume "geth_laws g"
  from dep_Address [OF this, of _ a input j l2] Some show ?thesis
    unfolding keeps_world_def same_prefix_def by (metis option.inject prod.inject)
qed

lemma keeps_world_if: "keeps_world g p \<Longrightarrow> keeps_world g q \<Longrightarrow> keeps_world g (if b then p else q)"
  by simp

lemmas keeps_world_rules = keeps_world_chk keeps_world_extern keeps_world_pure keeps_world_gfail keeps_world_gret
  keeps_world_ProxyFactory keeps_world_Singleton keeps_world_Address keeps_world_if

lemma keeps_world_buildCalldata: "keeps_world g (buildCalldata g a input i l2)"
  unfolding buildCalldata_def by (intro keeps_world_rules)

lemma keeps_world_Submit: "geth_laws g \<Longrightarrow> keeps_world g (Submit g a impl t ctx i l2 input opts)"
  unfolding Submit_slots submit_spec_def by (intro keeps_world_rules keeps_world_buildCalldata)

lemma keeps_world_extract: "keeps_world g (extractDeployedAddress g rc i)"
  unfolding extractDeployedAddress_def
  by (intro keeps_world_rules) (auto split: option.splits intro: keeps_world_rules)

lemma keeps_world_Wait: "geth_laws g \<Longrightarrow> keeps_world g (Wait g a cs t ctx i l2 input h)"
  unfolding Wait_def by (intro keeps_world_rules keeps_world_extract)

lemma keeps_world_Deploy: "geth_laws g \<Longrightarrow> keeps_world g (TxManager.Deploy g a impl cs t ctx i l2 input opts)"
  unfolding TxManager.Deploy_def by (intro keeps_world_rules keeps_world_Submit keeps_world_Wait)

text \<open>
  Whatever the node, the signer, the nonce manager and the context answer, and whether the
  call succeeds, fails or panics: \<open>Submit\<close>, \<open>Wait\<close> and \<open>Deploy\<close> leave every cache entry of the
  version equal to what \<open>Load\<close> returns for its chain, and change neither the version's files nor
  the chain registry.
\<close>

theorem txmanager_keeps_versions:
  assumes "geth_laws g" and "deployment_ok g (deployment w)"
    and "Submit g a impl t ctx i l2 input opts w = Some (r, w') \<or> Wait g a cs t ctx i l2 input h w = Some (q, w') \<or>
      TxManager.Deploy g a impl cs t ctx i l2 input opts w = Some (q, w')"
  shows "deployment_ok g (deployment w') \<and> same_files (deployment w) (deployment w') \<and> chain_reg w' = chain_reg w"
proof -
  have "same_world g w w'" using assms(3)
    by (elim disjE; intro keeps_worldD [OF keeps_world_Submit [OF assms(1)] assms(2)]
      keeps_worldD [OF keeps_world_Wait [OF assms(1)] assms(2)] keeps_worldD [OF keeps_world_Deploy [OF assms(1)] assms(2)])
  then show ?thesis by (simp add: same_world_def)
qed

section \<open>Submit up to the slot\<close>

lemma same_prefix_ok: "same_prefix g w w' \<Longrightarrow> deployment_ok g (deployment w')"
  by (simp add: same_prefix_def same_world_def)

lemma same_prefix_files:
  "same_prefix g w w' \<Longrightarrow> factory_of g w' i = factory_of g w i"
  "same_prefix g w w' \<Longrightarrow> singleton_of g w' i l2 = singleton_of g w i l2"
  "same_prefix g w w' \<Longrightarrow> predicted g a w' input i l2 = predicted g a w input i l2"
  by (simp_all add: same_prefix_def same_world_files)

definition calldata_of ::
  "('abi, 'z) geth_scheme \<Rightarrow> 'abi \<Rightarrow> predict_Input \<Rightarrow> 'abi ParsedDeployment \<Rightarrow> 'abi ParsedDeployment \<Rightarrow> byte list result" where
  "calldata_of g a input f s =
     chkR (BuildInitializer g a (Owners input) (Threshold input)) Err (\<lambda>ini.
     chkR (Pack g (ABI f) ''createProxyWithNonce''
            [VAddress (ParsedDeployment.Address s), VBytes ini, VUint (SetBytes (DeriveSaltNonce g (Salt input)))])
       (\<lambda>e. Err (wrapf ''failed to pack createProxyWithNonce: %w'' e)) Ok)"

lemma buildCalldata_run:
  assumes ok: "deployment_ok g (deployment w)" and f: "factory_of g w i = Ok f" and s: "singleton_of g w i l2 = Ok s"
  shows "\<exists>w'. buildCalldata g a input i l2 w = Some (calldata_of g a input f s, w') \<and> same_prefix g w w'"
proof -
  from dep_ProxyFactory [OF ok, of i] f obtain u where u: "dep (\<lambda>r. ProxyFactory g r i) w = Some (Ok f, u)" "same_prefix g w u"
    by auto
  from dep_Singleton [OF same_prefix_ok [OF u(2)], of i l2] s same_prefix_files(2) [OF u(2), of i l2]
  obtain v where v: "dep (\<lambda>r. Singleton g r i l2) u = Some (Ok s, v)" "same_prefix g u v" by auto
  have "buildCalldata g a input i l2 w = Some (calldata_of g a input f s, v)"
    using u(1) v(1)
    by (cases "BuildInitializer g a (Owners input) (Threshold input)")
      (auto simp: buildCalldata_def calldata_of_def pure_def gfail_def gret_def chk_def split: result.splits)
  with same_prefix_trans [OF u(2) v(2)] show ?thesis by blast
qed

lemma Submit_run:
  assumes g: "geth_laws g" and ok: "deployment_ok g (deployment w)"
    and f: "factory_of g w (Some i) = Ok f" and s: "singleton_of g w (Some i) l2 = Ok s"
    and cd: "calldata_of g a input f s = Ok cd" and p: "predicted g a w input (Some i) l2 = Ok p"
  shows "\<exists>w'. same_prefix g w w' \<and> Submit g a impl t ctx (Some i) l2 input opts w =
    chk (extern (with_slot (nm_Acquire (nonceManager t) ctx) (resolve_slot (nonceManager t))
            (prepare_tx impl t ctx (Some i) opts (ParsedDeployment.Address f) cd p) (SendTransaction (client t) ctx)))
       gfail (\<lambda>signed. gret (TxHash g signed)) w'"
proof -
  from buildCalldata_run [OF ok f s, of a input] cd obtain u
    where u: "buildCalldata g a input (Some i) l2 w = Some (Ok cd, u)" "same_prefix g w u" by auto
  from dep_ProxyFactory [OF same_prefix_ok [OF u(2)], of "Some i"] f same_prefix_files(1) [OF u(2)]
  obtain v where v: "dep (\<lambda>r. ProxyFactory g r (Some i)) u = Some (Ok f, v)" "same_prefix g u v" by auto
  from same_prefix_trans [OF u(2) v(2)] have wv: "same_prefix g w v" .
  from dep_Address [OF g same_prefix_ok [OF wv], of a input i l2] p same_prefix_files(3) [OF wv]
  obtain z where z: "dep (\<lambda>r. Predict.Address g a r input (Some i) l2) v = Some (Ok p, z)" "same_prefix g v z" by auto
  have "Submit g a impl t ctx (Some i) l2 input opts w =
    chk (extern (with_slot (nm_Acquire (nonceManager t) ctx) (resolve_slot (nonceManager t))
            (prepare_tx impl t ctx (Some i) opts (ParsedDeployment.Address f) cd p) (SendTransaction (client t) ctx)))
       gfail (\<lambda>signed. gret (TxHash g signed)) z"
    using u(1) v(1) z(1) by (simp add: Submit_slots submit_spec_def)
  with same_prefix_trans [OF wv z(2)] show ?thesis by blast
qed

section \<open>A concrete node, signer and version\<close>

text \<open>
  An instance of everything the sources import, for concrete runs: the functions of \<open>demo_geth\<close>
  with a transaction hash made of the nonce, and numbers for keys; a node that answers gas estimation and
  \<open>SendTransaction\<close> from a script, and a signer of account 9.
\<close>

definition demo_tx :: "(string, nat) geth_tx" where
  "demo_tx = geth.extend demo_geth
     (geth_tx.fields (\<lambda>t. ucast (Nonce (payload t)) + 4096)
        (\<lambda>t i k. Ok \<lparr>payload = for_chain i t, signature = [of_nat k]\<rparr>)
        (\<lambda>s. if s = [] then Err (errmsg ''invalid length'') else Ok (length s))
        (\<lambda>bs. if length bs = 32 then Ok (bytes_nat bs) else Err (errmsg ''invalid length'')) of_nat (\<lambda>k. [of_nat k]))"

lemma demo_tx_simps [simp]:
  "Hex demo_tx = Hex demo_geth" "AddressBytes demo_tx = AddressBytes demo_geth"
  "BytesToAddress demo_tx = BytesToAddress demo_geth" "HexToAddress demo_tx = HexToAddress demo_geth"
  "LeftPadBytes demo_tx = LeftPadBytes demo_geth" "HashBytes demo_tx = HashBytes demo_geth"
  "BytesToHash demo_tx = BytesToHash demo_geth" "Keccak256 demo_tx = Keccak256 demo_geth"
  "abi_JSON demo_tx = abi_JSON demo_geth" "Pack demo_tx = Pack demo_geth" "EventID demo_tx = EventID demo_geth"
  by (simp_all add: demo_tx_def geth.defs geth_tx.defs demo_geth_def)

lemma demo_tx_laws: "geth_laws demo_tx"
  using demo_geth_laws by (simp add: geth_laws_def)

lemma demo_tx_load: "Load demo_tx j i = Load demo_geth j i"
  unfolding Load_def demo_tx_simps by (rule refl)

lemma demo_tx_TxHash [simp]: "TxHash demo_tx t = ucast (Nonce (payload t)) + 4096"
  by (simp add: demo_tx_def geth.defs geth_tx.defs)

definition scripted :: "'a \<Rightarrow> string \<Rightarrow> (bool list, 'a) prog" where
  "scripted x msg w = (case w of [] \<Rightarrow> None | b # bs \<Rightarrow> Some (if b then Ok x else Err (errmsg msg), bs))"

lemma scripted_Cons [simp]: "scripted x msg (b # bs) = Some (if b then Ok x else Err (errmsg msg), bs)"
  by (simp add: scripted_def)

definition demo_client :: "(bool list, 'ctx) eth_client" where
  "demo_client =
     \<lparr>CodeAt = \<lambda>_ a. gret [], EstimateGas = \<lambda>_ m. scripted 100 ''execution reverted'',
      SuggestGasTipCap = \<lambda>_. gret 1, SuggestGasPrice = \<lambda>_. gret 1, HeaderByNumber = \<lambda>_. gret (Some 5),
      SendTransaction = \<lambda>_ t. scripted () ''nonce too low'',
      TransactionReceipt = \<lambda>_ h. scripted \<lparr>Status = 1, Logs = [\<lparr>Topics = [77, 12], LogData = []\<rparr>], BlockNumber = Some 1, GasUsed = 50\<rparr>
        ''not found''\<rparr>"

definition demo_signer :: "('w, 'ctx) signer" where
  "demo_signer = \<lparr>signer_Address = \<lambda>_. 9, SignTx = \<lambda>_ t i. gret \<lparr>payload = for_chain i t, signature = [7]\<rparr>, Close = gret ()\<rparr>"

definition demo_tx_world :: "'w \<Rightarrow> (string, 'w) tx_world" where
  "demo_tx_world v = \<lparr>deployment = demo_deployment, chain_reg = Map.empty, outer = v\<rparr>"

lemma demo_version:
  "deployment_ok demo_tx (deployment (demo_tx_world v))"
  "factory_of demo_tx (demo_tx_world v) (Some 1) = Ok \<lparr>ParsedDeployment.Address = 7, ABI = ''[]''\<rparr>"
  "singleton_of demo_tx (demo_tx_world v) (Some 1) True = Ok \<lparr>ParsedDeployment.Address = 7, ABI = ''[]''\<rparr>"
  using NewBaseDeployment_ok [of demo_tx]
  by (simp_all add: demo_tx_world_def demo_deployment_def factory_of_def singleton_of_def
      demo_tx_load NewBaseDeployment_def resolveChainID_def Chain.Lookup_def demo_load)

lemma demo_BuildInitializer: "\<exists>ini. BuildInitializer demo_tx a os n = Ok ini"
  by (simp add: BuildInitializer_def)

lemma demo_predicted: "\<exists>p. predicted demo_tx ''[]'' (demo_tx_world v) demo_input (Some 1) True = Ok p"
  using demo_version(2,3) [of v] demo_BuildInitializer [of "''[]''" "Owners demo_input" "Threshold demo_input"]
  by (auto simp: predicted_def predict_reference_def Let_def factory_of_def singleton_of_def)

lemma demo_calldata: "\<exists>cd. calldata_of demo_tx ''[]'' demo_input f s = Ok cd"
  using demo_BuildInitializer [of "''[]''" "Owners demo_input" "Threshold demo_input"]
  by (auto simp: calldata_of_def)

text \<open>One submission from a fresh world, up to the slot.\<close>

lemma demo_submit:
  assumes w: "same_world demo_tx (demo_tx_world v) w"
  shows "\<exists>w' cd p. same_world demo_tx (demo_tx_world v) w' \<and> outer w' = outer w \<and>
    Submit demo_tx ''[]'' impl t ctx (Some 1) True demo_input opts w =
      chk (extern (with_slot (nm_Acquire (nonceManager t) ctx) (resolve_slot (nonceManager t))
            (prepare_tx impl t ctx (Some 1) opts 7 cd p) (SendTransaction (client t) ctx)))
       gfail (\<lambda>signed. gret (TxHash demo_tx signed)) w'"
proof -
  note files = same_world_files [OF w]
  from demo_predicted [of v] obtain p where p: "predicted demo_tx ''[]'' w demo_input (Some 1) True = Ok p"
    using files(3) by auto
  obtain cd where cd: "calldata_of demo_tx ''[]'' demo_input \<lparr>ParsedDeployment.Address = 7, ABI = ''[]''\<rparr>
      \<lparr>ParsedDeployment.Address = 7, ABI = ''[]''\<rparr> = Ok cd"
    using demo_calldata by blast
  have ok: "deployment_ok demo_tx (deployment w)" using w by (simp add: same_world_def)
  from Submit_run [OF demo_tx_laws ok _ _ cd p, of impl t ctx opts] files(1,2) demo_version(2,3) [of v]
  obtain w' where w': "same_prefix demo_tx w w'" and run: "Submit demo_tx ''[]'' impl t ctx (Some 1) True demo_input opts w =
      chk (extern (with_slot (nm_Acquire (nonceManager t) ctx) (resolve_slot (nonceManager t))
            (prepare_tx impl t ctx (Some 1) opts 7 cd p) (SendTransaction (client t) ctx)))
       gfail (\<lambda>signed. gret (TxHash demo_tx signed)) w'" by auto
  from w' have "same_world demo_tx (demo_tx_world v) w'" and "outer w' = outer w"
    using same_world_trans [OF w] by (auto simp: same_prefix_def)
  with run show ?thesis by blast
qed

lemmas with_slot_eval = with_slot_def prepare_tx_def already_deployed_def IsDeployed_def estimateGas_def
  suggestGasTipCap_def suggestGasPrice_def reads_def chk_def gret_def gfail_def extern_def

definition demo_nm :: "(bool list, unit, unit) manager" where
  "demo_nm = \<lparr>nm_Acquire = \<lambda>_. gret (5, ()), nm_Reset = \<lambda>_. gret (), resolve_slot = \<lambda>_ _. gret ()\<rparr>"

definition demo_tm :: "(bool list, unit, unit) TxManager" where
  "demo_tm = New demo_client demo_signer demo_nm 0"

lemmas demo_tm_defs = demo_tm_def TxManager.New_def demo_nm_def demo_client_def demo_signer_def

theorem txmanager_keeps_versions_witness:
  "\<exists>w'. Submit demo_tx ''[]'' (\<lambda>_. 0) demo_tm () (Some 1) True demo_input None (demo_tx_world [True, True]) =
      Some (Ok 4101, w') \<and> deployment_ok demo_tx (deployment w')"
proof -
  let ?w = "demo_tx_world [True, True]"
  from demo_submit [OF same_world_refl [OF demo_version(1)], of "[True, True]" "\<lambda>_. 0" demo_tm "()" None]
  obtain w' where run: "Submit demo_tx ''[]'' (\<lambda>_. 0) demo_tm () (Some 1) True demo_input None ?w = Some (Ok 4101, w')"
    by (auto simp: demo_tm_defs with_slot_eval buildTxWithNonce_def demo_tx_world_def)
  from run txmanager_keeps_versions [OF demo_tx_laws demo_version(1) disjI1 [OF run]] show ?thesis by blast
qed

end
