(* ===== verification/TxNonce.thy ===== *)
theory TxNonce
  imports TxWorld LocalNonce
begin

text \<open>
  \<open>Submit\<close> on the local nonce manager: what one call does to the counter, and which nonces a
  sequence of calls puts on the wire. The manager enters through the contract of \<open>NonceSpec\<close>.
\<close>

section \<open>One use of a slot\<close>

text \<open>What a call returns that resolves its slot on the way out.\<close>

fun unless_failed :: "unit result \<Rightarrow> 'a result \<Rightarrow> 'a result" where
  "unless_failed (Ok _) r = r"
| "unless_failed (Err e) r = Err e"
| "unless_failed (Panic p) r = Panic p"

lemma chk_last: "chk m gfail (\<lambda>_ w. Some (r, w)) w = Some (q, w') \<Longrightarrow> \<exists>z. m w = Some (z, w') \<and> q = unless_failed z r"
  by (auto simp: chk_def gfail_def split: option.splits prod.splits result.splits)

lemma chk_last_unit:
  "chk m gfail (\<lambda>_. gfail e) w = Some (q, w') \<Longrightarrow> \<exists>z. m w = Some (z, w') \<and> q = unless_failed z (Err e)"
  "chk m gfail (\<lambda>_. gret x) w = Some (q, w') \<Longrightarrow> \<exists>z. m w = Some (z, w') \<and> q = unless_failed z (Ok x)"
  unfolding gfail_def gret_def by (auto dest!: chk_last [unfolded gfail_def])

lemma with_slot_inv:
  assumes "with_slot acq res prepare send w = Some (r, w')" and np: "\<forall>p. r \<noteq> Panic p"
  obtains (unavailable) e where "acq w = Some (Err e, w')" and "r = Err (wrapf ''failed to acquire nonce slot: %w'' e)"
  | (reused) n s v u e q where "acq w = Some (Ok (n, s), v)" and "prepare n v = Some (Err e, u)"
      and "res Reuse s u = Some (q, w')" and "r = unless_failed q (Err e)"
  | (reclaimed) n s v x y u e q where "acq w = Some (Ok (n, s), v)" and "prepare n v = Some (Ok x, y)"
      and "send x y = Some (Err e, u)" and "res Reclaim s u = Some (q, w')"
      and "r = unless_failed q (Err (wrapf ''failed to submit transaction: %w'' e))"
  | (committed) n s v x y u q where "acq w = Some (Ok (n, s), v)" and "prepare n v = Some (Ok x, y)"
      and "send x y = Some (Ok (), u)" and "res Commit s u = Some (q, w')" and "r = unless_failed q (Ok x)"
  using assms(1) unfolding with_slot_def
proof (cases rule: chk_cases [OF _ np, consumes 1, case_names acquired failed])
  case (acquired ns v)
  obtain n s where ns: "ns = (n, s)" by (cases ns)
  from acquired(2) show ?thesis unfolding ns split
  proof (cases rule: chk_cases [OF _ np, consumes 1, case_names prepared refused])
    case (prepared x y)
    from prepared(2) show ?thesis
    proof (cases rule: chk_cases [OF _ np, consumes 1, case_names taken rejected])
      case (taken z u)
      with chk_last_unit(2) prepared(1) acquired(1) ns committed show ?thesis by fastforce
    next
      case (rejected e u)
      with chk_last_unit(1) prepared(1) acquired(1) ns reclaimed show ?thesis by fastforce
    qed
  next
    case (refused e u)
    with chk_last_unit(1) acquired(1) ns reused show ?thesis by fastforce
  qed
qed (use unavailable in \<open>auto simp: gfail_def\<close>)

context nonce_manager
begin

lemma with_slot_cases:
  assumes idle: "idle w"
    and keep: "\<forall>n s r v v'. holds v s n \<longrightarrow> prepare n v = Some (r, v') \<longrightarrow> holds v' s n"
      "\<forall>n s x r v v'. holds v s n \<longrightarrow> send x v = Some (r, v') \<longrightarrow> holds v' s n"
    and sup: "\<forall>n. supported n"
    and run: "with_slot acq res prepare send w = Some (r, w')" and no_panic: "\<forall>p. r \<noteq> Panic p"
  obtains (unavailable) e where "acq w = Some (Err e, w')"
      and "r = Err (wrapf ''failed to acquire nonce slot: %w'' e)"
  | (reused) n s v u e where "acq w = Some (Ok (n, s), v)" and "admits (ctr w) n"
      and "prepare n v = Some (Err e, u)" and "res Reuse s u = Some (Ok (), w')"
      and "r = Err e" and "idle w'" and "ctr w' = Next n"
  | (reclaimed) n s v x y u e where "acq w = Some (Ok (n, s), v)" and "admits (ctr w) n"
      and "prepare n v = Some (Ok x, y)" and "send x y = Some (Err e, u)" and "res Reclaim s u = Some (Ok (), w')"
      and "r = Err (wrapf ''failed to submit transaction: %w'' e)" and "idle w'" and "ctr w' = Fetch"
  | (committed) n s v x y u where "acq w = Some (Ok (n, s), v)" and "admits (ctr w) n"
      and "prepare n v = Some (Ok x, y)" and "send x y = Some (Ok (), u)" and "res Commit s u = Some (Ok (), w')"
      and "r = Ok x" and "idle w'" and "ctr w' = Next (n + 1)"
proof -
  have res: "q = Ok () \<and> idle u' \<and> ctr u' = resolve n p" if "holds u s n" "res p s u = Some (q, u')" for u s n p q u'
    using res_ok [OF that(1) sup [rule_format], of p] that(2) by auto
  from run no_panic show ?thesis
  proof (cases rule: with_slot_inv)
    case unavailable
    then show ?thesis by (rule that(1))
  next
    case (reused n s v u e q)
    from acq_ok [OF idle reused(1)] keep(1) reused(2) have "admits (ctr w) n" "holds u s n" by blast+
    with res [OF this(2) reused(3)] reused that(2) show ?thesis by simp
  next
    case (reclaimed n s v x y u e q)
    from acq_ok [OF idle reclaimed(1)] keep reclaimed(2,3) have "admits (ctr w) n" "holds u s n" by blast+
    with res [OF this(2) reclaimed(4)] reclaimed that(3) show ?thesis by simp
  next
    case (committed n s v x y u q)
    from acq_ok [OF idle committed(1)] keep committed(2,3) have "admits (ctr w) n" "holds u s n" by blast+
    with res [OF this(2) committed(4)] committed that(4) show ?thesis by simp
  qed
qed

end

section \<open>The local manager under a transaction manager\<close>

definition local_manager :: "('e local_world, nat, 'e ctx) manager" where
  "local_manager =
     \<lparr>nm_Acquire = LocalNonce.Acquire, nm_Reset = \<lambda>_. LocalNonce.Reset, resolve_slot = slot_resolve\<rparr>"

text \<open>
  The environment with the list of all transactions handed to the node, and whether the node
  took them. Every call but \<open>SendTransaction\<close> goes to the environment below.
\<close>

record 'e logged =
  base :: 'e
  sends :: "(signed_tx \<times> bool) list"

definition on_base :: "('e, 'a) prog \<Rightarrow> ('e logged, 'a) prog" where
  "on_base m l = (case m (base l) of None \<Rightarrow> None | Some (r, b) \<Rightarrow> Some (r, l\<lparr>base := b\<rparr>))"

definition over :: "('e, 'a) prog \<Rightarrow> ('e logged local_world, 'a) prog" where
  "over m w = (case on_base m (env w) of None \<Rightarrow> None | Some (r, l) \<Rightarrow> Some (r, w\<lparr>env := l\<rparr>))"

definition log_send :: "signed_tx \<Rightarrow> bool \<Rightarrow> 'e logged local_world \<Rightarrow> 'e logged local_world" where
  "log_send tx ok w = w\<lparr>env := (env w)\<lparr>sends := sends (env w) @ [(tx, ok)]\<rparr>\<rparr>"

definition wire_send :: "(signed_tx \<Rightarrow> ('e, unit) prog) \<Rightarrow> signed_tx \<Rightarrow> ('e logged local_world, unit) prog" where
  "wire_send send tx w =
     (case over (send tx) w of
        None \<Rightarrow> None
      | Some (r, w') \<Rightarrow> Some (r, case r of Ok _ \<Rightarrow> log_send tx True w' | Err _ \<Rightarrow> log_send tx False w' | Panic _ \<Rightarrow> w'))"

definition wire_client :: "('e, 'ctx) eth_client \<Rightarrow> ('e logged local_world, 'ctx) eth_client" where
  "wire_client c =
     \<lparr>CodeAt = \<lambda>ctx a. over (CodeAt c ctx a), EstimateGas = \<lambda>ctx m. over (EstimateGas c ctx m),
      SuggestGasTipCap = \<lambda>ctx. over (SuggestGasTipCap c ctx), SuggestGasPrice = \<lambda>ctx. over (SuggestGasPrice c ctx),
      HeaderByNumber = \<lambda>ctx. over (HeaderByNumber c ctx), SendTransaction = \<lambda>ctx. wire_send (SendTransaction c ctx),
      TransactionReceipt = \<lambda>ctx h. over (TransactionReceipt c ctx h)\<rparr>"

definition wire_signer :: "('e, 'ctx) signer \<Rightarrow> ('e logged local_world, 'ctx) signer" where
  "wire_signer s =
     \<lparr>signer_Address = \<lambda>w. signer_Address s (base (env w)), SignTx = \<lambda>ctx tx i. over (SignTx s ctx tx i),
      Close = over (Close s)\<rparr>"

type_synonym 'e base_source = "'e logged ctx \<Rightarrow> address \<Rightarrow> ('e, u64) prog"

definition log_source :: "'e base_source \<Rightarrow> 'e logged source" where
  "log_source f ctx a = on_base (f ctx a)"

definition log_ctx :: "'e ctx \<Rightarrow> 'e logged ctx" where
  "log_ctx c sel l = (case c sel (base l) of (r, b) \<Rightarrow> (r, l\<lparr>base := b\<rparr>))"

definition wire :: "('e, 'e logged ctx) eth_client \<Rightarrow> ('e, 'e logged ctx) signer \<Rightarrow> ('e logged local_world, nat, 'e logged ctx) TxManager" where
  "wire c s = TxManager.New (wire_client c) (wire_signer s) local_manager 0"

section \<open>What leaves the manager and the log alone\<close>

definition quiet_prog :: "('e logged local_world, 'a) prog \<Rightarrow> bool" where
  "quiet_prog m \<longleftrightarrow>
     (\<forall>w r w'. m w = Some (r, w') \<longrightarrow> mgr w' = mgr w \<and> slots w' = slots w \<and> sends (env w') = sends (env w))"

lemma quiet_over [intro]: "quiet_prog (over m)"
  by (auto simp: quiet_prog_def over_def on_base_def split: option.splits prod.splits)

lemma quiet_reads [intro]: "quiet_prog (reads f)"
  by (simp add: quiet_prog_def reads_def)

lemma quiet_gret [intro]: "quiet_prog (gret x)" and quiet_gfail [intro]: "quiet_prog (gfail e)"
  by (simp_all add: quiet_prog_def gret_def gfail_def)

lemma quiet_chk [intro]:
  assumes "quiet_prog m" and "\<And>e. quiet_prog (h e)" and "\<And>x. quiet_prog (k x)"
  shows "quiet_prog (chk m h k)"
  using assms unfolding quiet_prog_def chk_def by (fastforce split: option.splits prod.splits result.splits)

lemma quiet_if [intro]: "quiet_prog p \<Longrightarrow> quiet_prog q \<Longrightarrow> quiet_prog (if b then p else q)"
  by simp

lemma wire_simps [simp]:
  "nonceManager (wire c s) = local_manager" "client (wire c s) = wire_client c" "tm_signer (wire c s) = wire_signer s"
  "nm_Acquire local_manager = LocalNonce.Acquire" "resolve_slot local_manager = slot_resolve"
  "SendTransaction (wire_client c) ctx = wire_send (SendTransaction c ctx)"
  by (simp_all add: wire_def TxManager.New_def local_manager_def wire_client_def)

lemma quiet_prepare: "quiet_prog (prepare_tx impl (wire c s) ctx i opts f d p n)"
  unfolding prepare_tx_def already_deployed_def IsDeployed_def estimateGas_def suggestGasTipCap_def suggestGasPrice_def
    wire_simps wire_client_def wire_signer_def eth_client.simps signer.simps
  by (intro quiet_chk quiet_if quiet_over quiet_gret quiet_gfail quiet_reads)

lemma Nonce_buildTx [simp]: "Nonce (buildTxWithNonce i a d n gl tip fee price) = n"
  by (simp add: buildTxWithNonce_def split: option.split)

lemma chk_Ok:
  "chk m h k w = Some (Ok y, v) \<Longrightarrow>
     (\<exists>x w'. m w = Some (Ok x, w') \<and> k x w' = Some (Ok y, v)) \<or> (\<exists>e w'. m w = Some (Err e, w') \<and> h e w' = Some (Ok y, v))"
  by (auto simp: chk_def split: option.splits prod.splits result.splits)

lemma over_SignTx: "signs_payload s \<Longrightarrow> over (SignTx s ctx tx i) w = Some (Ok x, w') \<Longrightarrow> payload x = for_chain i tx"
  unfolding signs_payload_def over_def on_base_def by (fastforce split: option.splits prod.splits)

lemma prepare_nonce:
  assumes "signs_payload s" and "prepare_tx impl (wire c s) ctx i opts f d p n w = Some (Ok x, w')"
  shows "Nonce (payload x) = n"
  using assms(2) over_SignTx [OF assms(1)]
  by (auto simp: prepare_tx_def wire_signer_def gfail_def dest!: chk_Ok split: if_splits)

lemma on_base_frame: "on_base m l = Some (r, l') \<Longrightarrow> sends l' = sends l"
  by (auto simp: on_base_def split: option.splits prod.splits)

lemma log_ctx_frame: "log_ctx x sel l = (r, l') \<Longrightarrow> sends l' = sends l"
  by (auto simp: log_ctx_def split: prod.splits)

definition wired :: "'e base_source \<Rightarrow> 'e logged local_world \<Rightarrow> bool" where
  "wired f w \<longleftrightarrow> source (mgr w) = Some (log_source f)"

definition keeps_log :: "'e base_source \<Rightarrow> ('e logged local_world, 'a) prog \<Rightarrow> bool" where
  "keeps_log f m \<longleftrightarrow> (\<forall>w r w'. wired f w \<longrightarrow> m w = Some (r, w') \<longrightarrow> wired f w' \<and> sends (env w') = sends (env w))"

lemma keeps_logI:
  "(\<And>w r w'. wired f w \<Longrightarrow> m w = Some (r, w') \<Longrightarrow> wired f w' \<and> sends (env w') = sends (env w)) \<Longrightarrow> keeps_log f m"
  unfolding keeps_log_def by blast

lemma keeps_logD:
  "keeps_log f m \<Longrightarrow> m w = Some (r, w') \<Longrightarrow> wired f w \<Longrightarrow> wired f w' \<and> sends (env w') = sends (env w)"
  unfolding keeps_log_def by blast

lemma keeps_log_chk [intro]:
  assumes m: "keeps_log f m" and h: "\<And>e. keeps_log f (h e)" and k: "\<And>x. keeps_log f (k x)"
  shows "keeps_log f (chk m h k)"
  by (rule keeps_logI, erule chk_runE) (metis keeps_logD [OF m] keeps_logD [OF k], metis keeps_logD [OF m] keeps_logD [OF h], metis keeps_logD [OF m])

lemma keeps_log_fetch: "keeps_log f (fetch_pending ctx)"
  by (auto simp: keeps_log_def fetch_pending_def wired_def log_source_def split: option.splits prod.splits dest: on_base_frame)

lemma keeps_log_send_token: "keeps_log f send_token"
  by (auto simp: keeps_log_def send_token_def wired_def split: if_splits)

lemma keeps_log_gfail: "keeps_log f (gfail e)"
  by (simp add: keeps_log_def gfail_def)

lemma keeps_log_nextNonce: "keeps_log f (LocalNonce.nextNonce (log_ctx x))"
proof (rule keeps_logI)
  fix w r w'
  assume w: "wired f w" and run: "LocalNonce.nextNonce (log_ctx x) w = Some (r, w')"
  have timer: "keeps_log f (chk (fetch_pending (log_ctx x)) gfail
      (\<lambda>n w. Some (Ok n, w\<lparr>mgr := (mgr w)\<lparr>nonce := n, hasNonce := True, dirty := False\<rparr>\<rparr>)))"
    "keeps_log f (chk (fetch_pending (log_ctx x)) gfail (\<lambda>n w. Some (Ok n, w\<lparr>mgr := (mgr w)\<lparr>nonce := n, hasNonce := True\<rparr>\<rparr>)))"
    by (intro keeps_log_chk keeps_log_fetch keeps_log_gfail; simp add: keeps_log_def wired_def)+
  obtain o1 v where sel: "log_ctx x (OnTimer (staleNonceDelay (mgr w))) (env w) = (o1, v)" by fastforce
  have v: "wired f (w\<lparr>env := v\<rparr>)" "sends v = sends (env w)"
    using w log_ctx_frame [OF sel] by (simp_all add: wired_def)
  show "wired f w' \<and> sends (env w') = sends (env w)"
  proof (cases "dirty (mgr w)")
    case True
    show ?thesis
    proof (cases o1)
      case None
      with run True sel have "chk (fetch_pending (log_ctx x)) gfail
        (\<lambda>n w. Some (Ok n, w\<lparr>mgr := (mgr w)\<lparr>nonce := n, hasNonce := True, dirty := False\<rparr>\<rparr>)) (w\<lparr>env := v\<rparr>) = Some (r, w')"
        by (simp add: LocalNonce.nextNonce_def)
      from keeps_logD [OF timer(1) this v(1)] v(2) show ?thesis by simp
    next
      case (Some e)
      with run True sel v show ?thesis by (auto simp: LocalNonce.nextNonce_def)
    qed
  next
    case False
    show ?thesis
    proof (cases "hasNonce (mgr w)")
      case True
      with run False w show ?thesis by (auto simp: LocalNonce.nextNonce_def Let_def wired_def)
    next
      case no: False
      with run False have "chk (fetch_pending (log_ctx x)) gfail
        (\<lambda>n w. Some (Ok n, w\<lparr>mgr := (mgr w)\<lparr>nonce := n, hasNonce := True\<rparr>\<rparr>)) w = Some (r, w')"
        by (simp add: LocalNonce.nextNonce_def)
      from keeps_logD [OF timer(2) this w] show ?thesis .
    qed
  qed
qed

lemma Acquire_frame:
  assumes w: "wired f w" and run: "LocalNonce.Acquire (log_ctx x) w = Some (r, w')"
  shows "wired f w' \<and> sends (env w') = sends (env w)"
proof -
  obtain o1 v where sel: "log_ctx x OnChannel (env w) = (o1, v)" by fastforce
  have v: "sends v = sends (env w)" using log_ctx_frame [OF sel] .
  let ?m = "chk (LocalNonce.nextNonce (log_ctx x))
      (\<lambda>e. chk send_token gfail (\<lambda>_. gfail (wrapf ''failed to fetch nonce: %w'' e)))
      (\<lambda>n w. Some (Ok (n, length (slots w)), w\<lparr>slots := slots w @ [False]\<rparr>))"
  have m: "keeps_log f ?m"
    by (intro keeps_log_chk keeps_log_nextNonce keeps_log_send_token keeps_log_gfail)
      (simp add: keeps_log_def wired_def)
  from w v have "wired f (w\<lparr>env := v, mgr := (mgr w)\<lparr>inflightCh := 0\<rparr>\<rparr>)" by (simp add: wired_def)
  with m v run sel w show ?thesis unfolding keeps_log_def
    by (cases o1) (fastforce simp: LocalNonce.Acquire_def wired_def split: if_splits)+
qed

lemma slot_resolve_frame:
  assumes "wired f w" and "slot_resolve q n w = Some (r, w')"
  shows "wired f w' \<and> sends (env w') = sends (env w)"
  using assms by (cases q)
    (auto simp: slot_Commit_def slot_Reuse_def slot_Reclaim_def send_token_def wired_def Let_def split: if_splits)

lemma quiet_progD: "quiet_prog m \<Longrightarrow> m w = Some (r, w') \<Longrightarrow> mgr w' = mgr w \<and> slots w' = slots w \<and> sends (env w') = sends (env w)"
  by (auto simp: quiet_prog_def)

lemma holds_slot_cong: "mgr w' = mgr w \<Longrightarrow> slots w' = slots w \<Longrightarrow> holds_slot w' s n = holds_slot w s n"
  by (simp add: holds_slot_def)

lemma wire_send_run:
  assumes "wire_send send tx w = Some (r, w')"
  shows "mgr w' = mgr w \<and> slots w' = slots w \<and>
    (\<forall>u. r = Ok u \<longrightarrow> sends (env w') = sends (env w) @ [(tx, True)]) \<and>
    (\<forall>e. r = Err e \<longrightarrow> sends (env w') = sends (env w) @ [(tx, False)])"
  using assms by (auto simp: wire_send_def over_def on_base_def log_send_def split: option.splits prod.splits result.splits)

section \<open>One call of Submit\<close>

text \<open>
  What a log of sends has to look like from a given counter: each transaction carries a nonce
  the counter admits, and the counter moves by whether the node took it.
\<close>

fun log_follows :: "counter \<Rightarrow> (signed_tx \<times> bool) list \<Rightarrow> bool" where
  "log_follows c [] = True"
| "log_follows c ((tx, taken) # l) =
     (admits c (Nonce (payload tx)) \<and>
      log_follows (resolve (Nonce (payload tx)) (if taken then Commit else Reclaim)) l)"

lemma log_follows_admits: "admits c n \<Longrightarrow> log_follows (Next n) l \<Longrightarrow> log_follows c l"
  by (cases l; cases c) auto

lemma log_follows_taken:
  "log_follows (Next k) l \<Longrightarrow> \<forall>e \<in> set l. snd e \<Longrightarrow>
     map (\<lambda>e. Nonce (payload (fst e))) l = map (\<lambda>i. k + of_nat i) [0..<length l]"
proof (induction l arbitrary: k)
  case (Cons e l)
  obtain tx taken where e: "e = (tx, taken)" by (cases e)
  with Cons.prems have n: "Nonce (payload tx) = k" and l: "log_follows (Next (k + 1)) l" by auto
  from Cons.IH [OF l] Cons.prems(2)
  have "map (\<lambda>e. Nonce (payload (fst e))) l = map (\<lambda>i. k + 1 + of_nat i) [0..<length l]" by simp
  with e n show ?case by (simp add: upt_conv_Cons map_Suc_upt [symmetric] o_def add.assoc del: upt_Suc)
qed simp

lemma log_follows_fetched:
  assumes "log_follows Fetch l" and "\<forall>e \<in> set l. snd e"
  shows "\<exists>k. map (\<lambda>e. Nonce (payload (fst e))) l = map (\<lambda>j. k + of_nat j) [0..<length l]"
proof (cases l)
  case (Cons e l')
  then have "log_follows (Next (Nonce (payload (fst e)))) l" using assms(1) by (cases e) auto
  from log_follows_taken [OF this assms(2)] show ?thesis ..
qed simp

definition follows_on :: "'e logged local_world \<Rightarrow> 'e logged local_world \<Rightarrow> bool" where
  "follows_on w w' \<longleftrightarrow>
     (\<exists>l. sends (env w') = sends (env w) @ l \<and> length l \<le> 1 \<and>
       (\<forall>l'. log_follows (counter_of (mgr w')) l' \<longrightarrow> log_follows (counter_of (mgr w)) (l @ l')))"

lemma with_slot_step:
  assumes w: "is_idle w" "wired f w" and s: "signs_payload s"
    and run: "with_slot (LocalNonce.Acquire (log_ctx x)) slot_resolve
      (prepare_tx impl (wire c s) ctx i opts fac d p) (wire_send send) w = Some (r, w')"
    and no_panic: "\<forall>p. r \<noteq> Panic p"
  shows "is_idle w' \<and> wired f w' \<and> follows_on w w'"
proof -
  have quiet: "mgr v' = mgr v \<and> slots v' = slots v \<and> sends (env v') = sends (env v)"
    if "prepare_tx impl (wire c s) ctx i opts fac d p n v = Some (q, v')" for n q v v'
    using quiet_progD [OF quiet_prepare that] .
  have keep: "\<forall>n sl q v v'. holds_slot v sl n \<longrightarrow> prepare_tx impl (wire c s) ctx i opts fac d p n v = Some (q, v') \<longrightarrow>
      holds_slot v' sl n"
    using quiet holds_slot_cong by blast
  have keep': "\<forall>n sl tx q v v'. holds_slot v sl n \<longrightarrow> wire_send send tx v = Some (q, v') \<longrightarrow> holds_slot v' sl n"
    using wire_send_run holds_slot_cong by blast
  have wired: "wired f v'" if "wired f v" "mgr v' = mgr v" for v v' using that by (simp add: wired_def)
  show ?thesis
  proof (cases rule: lm.with_slot_cases [OF w(1) keep keep' _ run no_panic, consumes 0,
        case_names sup unavailable reused reclaimed committed])
    case sup
    show ?case by simp
  next
    case (unavailable e)
    with lm.acq_err [OF w(1) unavailable(1)] Acquire_frame [OF w(2) unavailable(1)] show ?thesis
      by (simp add: follows_on_def)
  next
    case (reused n sl v u e)
    from Acquire_frame [OF w(2) reused(1)] quiet [OF reused(3)] wired
    have u: "wired f u" "sends (env u) = sends (env w)" by auto
    from slot_resolve_frame [OF u(1) reused(4)] u(2) reused log_follows_admits [OF reused(2)] show ?thesis
      by (auto simp: follows_on_def)
  next
    case (reclaimed n sl v x' y u e)
    from Acquire_frame [OF w(2) reclaimed(1)] quiet [OF reclaimed(3)] wire_send_run [OF reclaimed(4)] wired
    have u: "wired f u" "sends (env u) = sends (env w) @ [(x', False)]" by auto
    from slot_resolve_frame [OF u(1) reclaimed(5)] u(2) reclaimed prepare_nonce [OF s reclaimed(3)] show ?thesis
      by (auto simp: follows_on_def)
  next
    case (committed n sl v x' y u)
    from Acquire_frame [OF w(2) committed(1)] quiet [OF committed(3)] wire_send_run [OF committed(4)] wired
    have u: "wired f u" "sends (env u) = sends (env w) @ [(x', True)]" by auto
    from slot_resolve_frame [OF u(1) committed(5)] u(2) committed prepare_nonce [OF s committed(3)] show ?thesis
      by (auto simp: follows_on_def)
  qed
qed

text \<open>What runs before the slot is acquired does not touch the world outside the deployment.\<close>

definition keeps_outer :: "(('abi, 'w) tx_world, 'a) prog \<Rightarrow> bool" where
  "keeps_outer m \<longleftrightarrow> (\<forall>w r w'. m w = Some (r, w') \<longrightarrow> outer w' = outer w)"

lemma keeps_outer_dep: "keeps_outer (dep f)" and keeps_outer_pure: "keeps_outer (pure q)"
  and keeps_outer_gfail: "keeps_outer (gfail e)" and keeps_outer_gret: "keeps_outer (gret x)"
  by (auto simp: keeps_outer_def dep_def pure_def gfail_def gret_def split: prod.splits)

lemma keeps_outer_chk:
  assumes m: "keeps_outer m" and h: "\<And>e. keeps_outer (h e)" and k: "\<And>x. keeps_outer (k x)"
  shows "keeps_outer (chk m h k)"
  using assms unfolding keeps_outer_def by (fastforce elim!: chk_runE)

lemma keeps_outer_buildCalldata: "keeps_outer (buildCalldata g setupABI input i l2)"
  unfolding buildCalldata_def
  by (intro keeps_outer_chk keeps_outer_dep keeps_outer_pure keeps_outer_gfail keeps_outer_gret)

text \<open>A property of the outer world that every continuation establishes survives such a prefix.\<close>

definition outer_step :: "('w \<Rightarrow> 'w \<Rightarrow> bool) \<Rightarrow> (('abi, 'w) tx_world, 'a) prog \<Rightarrow> bool" where
  "outer_step Q m \<longleftrightarrow> (\<forall>w r w'. m w = Some (r, w') \<longrightarrow> (\<forall>p. r \<noteq> Panic p) \<longrightarrow> Q (outer w) (outer w'))"

lemma outer_stepD:
  "outer_step Q m \<Longrightarrow> m w = Some (r, w') \<Longrightarrow> \<forall>p. r \<noteq> Panic p \<Longrightarrow> Q (outer w) (outer w')"
  unfolding outer_step_def by blast

lemma outer_step_chk:
  assumes m: "keeps_outer m" and h: "\<And>e. outer_step Q (h e)" and k: "\<And>x. outer_step Q (k x)"
  shows "outer_step Q (chk m h k)"
proof -
  have same: "m w = Some (q, v) \<Longrightarrow> outer v = outer w" for w q v using m by (simp add: keeps_outer_def)
  show ?thesis unfolding outer_step_def
    by (intro allI impI, erule chk_runE) (metis same outer_stepD [OF k], metis same outer_stepD [OF h], blast)
qed

lemma outer_step_extern:
  assumes "\<And>w r w'. m w = Some (r, w') \<Longrightarrow> \<forall>p. r \<noteq> Panic p \<Longrightarrow> Q w w'"
  shows "outer_step Q (chk (extern m) gfail (\<lambda>x. gret (f x)))"
  using assms unfolding outer_step_def chk_def extern_def gfail_def gret_def
  by (force split: option.splits prod.splits result.splits)

definition ready :: "'e base_source \<Rightarrow> 'e logged local_world \<Rightarrow> bool" where
  "ready f w \<longleftrightarrow> is_idle w \<and> wired f w"

definition stays_ready :: "'e base_source \<Rightarrow> 'e logged local_world \<Rightarrow> 'e logged local_world \<Rightarrow> bool" where
  "stays_ready f w w' \<longleftrightarrow> (ready f w \<longrightarrow> ready f w' \<and> follows_on w w')"

lemma follows_on_refl: "follows_on w w"
  unfolding follows_on_def by simp

lemma submit_step:
  assumes s: "signs_payload s"
  shows "outer_step (stays_ready f) (Submit g setupABI impl (wire c s) (log_ctx x) i l2 input opts)"
proof -
  have slot: "stays_ready f w w'"
    if "with_slot (LocalNonce.Acquire (log_ctx x)) slot_resolve (prepare_tx impl (wire c s) ctx i opts fac d p)
      (wire_send send) w = Some (r, w')" "\<forall>p. r \<noteq> Panic p" for ctx w r w' fac d p send
    using with_slot_step [OF _ _ s that, of f] by (simp add: stays_ready_def ready_def)
  have fail: "outer_step (stays_ready f) (gfail e)" for e
    by (simp add: outer_step_def gfail_def stays_ready_def follows_on_refl)
  show ?thesis unfolding Submit_slots submit_spec_def wire_simps
    by (intro outer_step_chk keeps_outer_buildCalldata keeps_outer_dep fail outer_step_extern slot)
qed

section \<open>Many calls of Submit\<close>

text \<open>Submissions one after the other; an error of one does not stop the next.\<close>

fun submit_all ::
  "('abi, 'key, 'z) geth_tx_scheme \<Rightarrow> 'abi \<Rightarrow> (float64 \<Rightarrow> u64) \<Rightarrow> ('w, 's, 'ctx) TxManager \<Rightarrow> 'ctx \<Rightarrow> int option \<Rightarrow> bool \<Rightarrow>
     (predict_Input \<times> tx_Options option) list \<Rightarrow> (('abi, 'w) tx_world, unit) prog" where
  "submit_all g setupABI impl t ctx i l2 [] = gret ()"
| "submit_all g setupABI impl t ctx i l2 (r # rs) =
     chk (Submit g setupABI impl t ctx i l2 (fst r) (snd r))
       (\<lambda>_. submit_all g setupABI impl t ctx i l2 rs) (\<lambda>_. submit_all g setupABI impl t ctx i l2 rs)"

definition sent_after :: "'e logged local_world \<Rightarrow> 'e logged local_world \<Rightarrow> (signed_tx \<times> bool) list" where
  "sent_after w w' = drop (length (sends (env w))) (sends (env w'))"

lemma submit_all_follows:
  assumes s: "signs_payload s"
  shows "submit_all g setupABI impl (wire c s) (log_ctx x) i l2 rs w = Some (Ok (), w') \<Longrightarrow> ready f (outer w) \<Longrightarrow>
    ready f (outer w') \<and>
    (\<exists>l. sends (env (outer w')) = sends (env (outer w)) @ l \<and> log_follows (counter_of (mgr (outer w))) l)"
proof (induction rs arbitrary: w)
  case Nil
  then show ?case by (auto simp: gret_def)
next
  case (Cons r rs)
  let ?m = "Submit g setupABI impl (wire c s) (log_ctx x) i l2 (fst r) (snd r)"
  obtain q v where q: "?m w = Some (q, v)" "\<forall>p. q \<noteq> Panic p"
      "submit_all g setupABI impl (wire c s) (log_ctx x) i l2 rs v = Some (Ok (), w')"
    using Cons.prems(1) by (auto simp: chk_def split: option.splits prod.splits result.splits)
  from outer_stepD [OF submit_step [OF s] q(1,2), of f] Cons.prems(2)
  have v: "ready f (outer v)" and step: "follows_on (outer w) (outer v)" by (simp_all add: stays_ready_def)
  from Cons.IH [OF q(3) v] obtain l where l: "sends (env (outer w')) = sends (env (outer v)) @ l"
    "log_follows (counter_of (mgr (outer v))) l" and w': "ready f (outer w')" by blast
  with step w' show ?case unfolding follows_on_def by force
qed

text \<open>
  On the local manager, whatever the node, the gas oracle and the signer answer, the
  transactions a sequence of \<open>Submit\<close> calls hands to the node carry nonces the counter
  dictates: no nonce is skipped or used twice after an accepted transaction, and only after a
  rejected one is the next nonce read from the node again. If the node accepts them all, their
  nonces are consecutive from the counter's; whichever calls failed before sending left no gap.
\<close>

theorem submitted_nonces:
  assumes "signs_payload s" and "ready f (outer w)"
    and "submit_all g setupABI impl (wire c s) (log_ctx x) i l2 rs w = Some (Ok (), w')"
  shows "ready f (outer w') \<and> log_follows (counter_of (mgr (outer w))) (sent_after (outer w) (outer w')) \<and>
    (counter_of (mgr (outer w)) = Next k \<and> (\<forall>e \<in> set (sent_after (outer w) (outer w')). snd e) \<longrightarrow>
      map (\<lambda>e. Nonce (payload (fst e))) (sent_after (outer w) (outer w')) =
        map (\<lambda>j. k + of_nat j) [0..<length (sent_after (outer w) (outer w'))])"
proof -
  from submit_all_follows [OF assms(1,3,2)] have "ready f (outer w')"
    and "log_follows (counter_of (mgr (outer w))) (sent_after (outer w) (outer w'))"
    by (auto simp: sent_after_def)
  with log_follows_taken [of k] show ?thesis by auto
qed

text \<open>Three submissions; the node refuses to estimate the gas of the second.\<close>

definition demo_local :: "u64 \<Rightarrow> bool list \<Rightarrow> bool list \<Rightarrow> (signed_tx \<times> bool) list \<Rightarrow> bool list logged local_world" where
  "demo_local n bs fs l =
     \<lparr>mgr = \<lparr>source = Some (log_source (\<lambda>_ a. gret 7)), nm_address = 9, staleNonceDelay = DefaultStaleNonceDelay,
        nonce = n, hasNonce = True, dirty = False, inflightCh = 1\<rparr>,
      slots = fs, env = \<lparr>base = bs, sends = l\<rparr>\<rparr>"

lemmas demo_local_eval = demo_local_def wire_def TxManager.New_def wire_client_def wire_signer_def local_manager_def
  demo_client_def demo_signer_def over_def on_base_def wire_send_def log_send_def log_ctx_def LocalNonce.Acquire_def
  LocalNonce.nextNonce_def slot_Commit_def slot_Reuse_def send_token_def

definition demo_call :: "tx_Options option \<Rightarrow> (string, bool list logged local_world) tx_world \<Rightarrow> (hash result \<times> (string, bool list logged local_world) tx_world) option" where
  "demo_call opts = Submit demo_tx ''[]'' (\<lambda>_. 0) (wire demo_client demo_signer) (log_ctx (\<lambda>_ e. (None, e))) (Some 1) True demo_input opts"

lemma demo_call_sent:
  assumes w: "same_world demo_tx (demo_tx_world v) w" and o: "outer w = demo_local n (True # True # bs) fs l"
  shows "\<exists>w' tx h. same_world demo_tx (demo_tx_world v) w' \<and> Nonce (payload tx) = n + 1 \<and>
    outer w' = demo_local (n + 1) bs (fs @ [True]) (l @ [(tx, True)]) \<and> demo_call opts w = Some (Ok h, w')"
proof -
  from demo_submit [OF w, of "\<lambda>_. 0" "wire demo_client demo_signer" "log_ctx (\<lambda>_ e. (None, e))" opts] o
  obtain w' h tx where r: "demo_call opts w = Some (Ok h, w'\<lparr>outer := demo_local (n + 1) bs (fs @ [True]) (l @ [(tx, True)])\<rparr>)"
    and n: "Nonce (payload tx) = n + 1" and w': "same_world demo_tx (demo_tx_world v) w'"
    by (auto simp: demo_call_def with_slot_eval demo_local_eval Let_def)
  from w' have "same_world demo_tx (demo_tx_world v) (w'\<lparr>outer := x\<rparr>)" for x by (simp add: same_world_def)
  with r n show ?thesis by force
qed

lemma demo_call_refused:
  assumes w: "same_world demo_tx (demo_tx_world v) w" and o: "outer w = demo_local n (False # bs) fs l"
  shows "\<exists>w' e. same_world demo_tx (demo_tx_world v) w' \<and>
    outer w' = demo_local n bs (fs @ [True]) l \<and> demo_call opts w = Some (Err e, w')"
proof -
  from demo_submit [OF w, of "\<lambda>_. 0" "wire demo_client demo_signer" "log_ctx (\<lambda>_ e. (None, e))" opts] o
  obtain w' e where r: "demo_call opts w = Some (Err e, w'\<lparr>outer := demo_local n bs (fs @ [True]) l\<rparr>)"
    and w': "same_world demo_tx (demo_tx_world v) w'"
    by (auto simp: demo_call_def with_slot_eval demo_local_eval Let_def)
  from w' have "same_world demo_tx (demo_tx_world v) (w'\<lparr>outer := x\<rparr>)" for x by (simp add: same_world_def)
  with r show ?thesis by force
qed

lemma demo_signs: "signs_payload demo_signer"
  by (auto simp: signs_payload_def demo_signer_def gret_def)

lemma demo_ready: "ready (\<lambda>_ a. gret 7) (demo_local n bs [] l)"
  by (simp add: ready_def is_idle_def wired_def demo_local_def)

theorem submitted_nonces_witness:
  "\<exists>w'. submit_all demo_tx ''[]'' (\<lambda>_. 0) (wire demo_client demo_signer) (log_ctx (\<lambda>_ e. (None, e))) (Some 1) True
      [(demo_input, None), (demo_input, None), (demo_input, None)] (demo_tx_world (demo_local 6 [True, True, False, True, True] [] [])) =
        Some (Ok (), w') \<and>
    map (\<lambda>e. (Nonce (payload (fst e)), snd e)) (sends (env (outer w'))) = [(7, True), (8, True)]"
proof -
  let ?w = "demo_tx_world (demo_local 6 [True, True, False, True, True] [] [])"
  have "outer ?w = demo_local 6 (True # True # [False, True, True]) [] []" by (simp add: demo_tx_world_def)
  from demo_call_sent [OF same_world_refl [OF demo_version(1)] this, of None] obtain a t h
    where a: "same_world demo_tx ?w a" "outer a = demo_local 7 (False # [True, True]) [True] [(t, True)]" "demo_call None ?w = Some (Ok h, a)"
    by auto
  from demo_call_refused [OF a(1,2), of None] obtain b e
    where b: "same_world demo_tx ?w b" "outer b = demo_local 7 (True # True # []) [True, True] [(t, True)]" "demo_call None a = Some (Err e, b)"
    by auto
  from demo_call_sent [OF b(1,2), of None] obtain c u h'
    where c: "outer c = demo_local 8 [] [True, True, True] [(t, True), (u, True)]" "demo_call None b = Some (Ok h', c)"
    by auto
  from a(3) b(3) c(2) have run: "submit_all demo_tx ''[]'' (\<lambda>_. 0) (wire demo_client demo_signer) (log_ctx (\<lambda>_ e. (None, e)))
      (Some 1) True [(demo_input, None), (demo_input, None), (demo_input, None)] ?w = Some (Ok (), c)"
    by (simp add: demo_call_def gret_def)
  have out: "outer ?w = demo_local 6 [True, True, False, True, True] [] []" by (simp add: demo_tx_world_def)
  have sent: "sent_after (outer ?w) (outer c) = [(t, True), (u, True)]" and ctr: "counter_of (mgr (outer ?w)) = Next 7"
    by (simp_all add: sent_after_def out c(1)) (simp_all add: demo_local_def counter_of_def)
  have "ready (\<lambda>_ a. gret 7) (outer ?w)" unfolding out by (rule demo_ready)
  from submitted_nonces [OF demo_signs this run, of 7] sent ctr
  have "[Nonce (payload t), Nonce (payload u)] = [7, 8]" by simp
  moreover have "sends (env (outer c)) = [(t, True), (u, True)]" unfolding c(1) by (simp add: demo_local_def)
  ultimately show ?thesis using run by auto
qed

end
