(* ===== verification/TxWait.thy ===== *)
theory TxWait
  imports TxWorld
begin

text \<open>
  \<open>Wait\<close> and \<open>Deploy\<close>: polling for the receipt and when it ends, the address in the event of the
  factory, what a result of \<open>Wait\<close> says of the chain, and which error a deployment gets.
\<close>

section \<open>Polling\<close>

text \<open>\<open>k\<close> ticks that found no receipt.\<close>

fun silent :: "('w, 'ctx) contexts \<Rightarrow> ('w, 's, 'ctx) TxManager \<Rightarrow> 'ctx \<Rightarrow> hash \<Rightarrow> nat \<Rightarrow> 'w \<Rightarrow> 'w option" where
  "silent cs t ctx h 0 w = Some w"
| "silent cs t ctx h (Suc k) w =
     (case receipt_round cs t ctx h w of Some (Ok None, v) \<Rightarrow> silent cs t ctx h k v | _ \<Rightarrow> None)"

fun receipt_of :: "receipt option result \<Rightarrow> receipt result" where
  "receipt_of (Ok r) = Ok (the r)"
| "receipt_of (Err e) = Err e"
| "receipt_of (Panic p) = Panic p"

lemma waitForReceipt_stop:
  assumes "receipt_round cs t ctx h w = Some (q, v)" and "q \<noteq> Ok None"
  shows "waitForReceipt cs t ctx h w = Some (receipt_of q, v)"
  using assms by (subst waitForReceipt_round) (auto split: result.split option.split)

lemma waitForReceipt_tick:
  "receipt_round cs t ctx h w = Some (Ok None, v) \<Longrightarrow> waitForReceipt cs t ctx h w = waitForReceipt cs t ctx h v"
  by (subst waitForReceipt_round) simp

lemma waitForReceipt_silent: "silent cs t ctx h k w = Some u \<Longrightarrow> waitForReceipt cs t ctx h w = waitForReceipt cs t ctx h u"
proof (induction k arbitrary: w)
  case (Suc k)
  then obtain v where "receipt_round cs t ctx h w = Some (Ok None, v)" and "silent cs t ctx h k v = Some u"
    by (auto split: option.splits prod.splits result.splits)
  with Suc.IH waitForReceipt_tick show ?case by fastforce
qed simp

definition polled :: "('w, 'ctx) contexts \<Rightarrow> ('w, 's, 'ctx) TxManager \<Rightarrow> 'ctx \<Rightarrow> hash \<Rightarrow> 'w \<Rightarrow> receipt result \<times> 'w \<Rightarrow> bool" where
  "polled cs t ctx h w y \<longleftrightarrow>
     (\<exists>k u q. silent cs t ctx h k w = Some u \<and> receipt_round cs t ctx h u = Some (q, snd y) \<and>
       q \<noteq> Ok None \<and> fst y = receipt_of q)"

lemma waitForReceipt_polled: "waitForReceipt cs t ctx h w = Some y \<Longrightarrow> polled cs t ctx h w y"
proof (rule waitForReceipt.raw_induct [of polled], goal_cases)
  case (1 wait cs t ctx h w y)
  then obtain q u where round: "receipt_round cs t ctx h w = Some (q, u)"
    and y: "(if q = Ok None then wait cs t ctx h u else Some (receipt_of q, u)) = Some y"
    by (cases "receipt_round cs t ctx h w") (auto split: result.splits if_splits)
  show ?case
  proof (cases "q = Ok None")
    case True
    with y have "wait cs t ctx h u = Some y" by simp
    from 1(2) [OF this] obtain k z p where "silent cs t ctx h k u = Some z"
      and z: "receipt_round cs t ctx h z = Some (p, snd y)" "p \<noteq> Ok None" "fst y = receipt_of p" unfolding polled_def by blast
    with round True have "silent cs t ctx h (Suc k) w = Some z" by simp
    with z show ?thesis unfolding polled_def by blast
  next
    case False
    with y have "fst y = receipt_of q" and "u = snd y" by auto
    moreover have "silent cs t ctx h 0 w = Some w" by simp
    ultimately show ?thesis using round False unfolding polled_def by blast
  qed
qed simp

lemma waitForReceipt_iff:
  "waitForReceipt cs t ctx h w = Some y \<longleftrightarrow> polled cs t ctx h w y"
proof
  assume "polled cs t ctx h w y"
  then obtain k u q where "silent cs t ctx h k w = Some u" "receipt_round cs t ctx h u = Some (q, snd y)"
    "q \<noteq> Ok None" "fst y = receipt_of q" unfolding polled_def by blast
  with waitForReceipt_silent waitForReceipt_stop show "waitForReceipt cs t ctx h w = Some y"
    by (metis prod.collapse)
qed (rule waitForReceipt_polled)

text \<open>
  Time, in nanoseconds. \<open>now\<close> is the clock and \<open>due\<close> the time of the tick that a receive from the ticker
  waits for. A tick is received when it is due or later; \<open>time.Ticker\<close> drops the ticks a slow receiver
  has missed, so that the next one is due after the clock, and at least an interval after the one
  received. Once the clock has reached \<open>limit\<close> the context is done: a \<open>select\<close> then takes a tick only
  if one was waiting, since Go may choose either. A call of the node returns, lets time pass, and
  with a context that is done it returns before the next tick.
\<close>

definition deadline ::
  "('w, 'ctx) contexts \<Rightarrow> ('w, 's, 'ctx) TxManager \<Rightarrow> 'ctx \<Rightarrow> hash \<Rightarrow> ('w \<Rightarrow> int) \<Rightarrow> ('w \<Rightarrow> int) \<Rightarrow> int \<Rightarrow> bool" where
  "deadline cs t ctx h now due limit \<longleftrightarrow>
     (\<forall>w v. select_timer cs ctx (receiptPollInterval t) w = (None, v) \<longrightarrow>
        now w \<le> now v \<and> due w \<le> now v \<and> now v < due v \<and> due w + receiptPollInterval t \<le> due v \<and>
        (now v < limit \<or> due w \<le> now w)) \<and>
     (\<forall>w. \<exists>r v. TransactionReceipt (client t) ctx h w = Some (r, v) \<and> now w \<le> now v \<and> due v = due w \<and>
        (limit \<le> now w \<and> now w < due w \<longrightarrow> now v < due v))"

text \<open>A round ends the polling, or it used up a tick, and after the deadline no tick is left.\<close>

definition overdue :: "('w \<Rightarrow> int) \<Rightarrow> ('w \<Rightarrow> int) \<Rightarrow> int \<Rightarrow> 'w \<Rightarrow> bool" where
  "overdue now due limit w \<longleftrightarrow> limit \<le> now w \<and> now w < due w"

lemma deadline_round:
  assumes "deadline cs t ctx h now due limit"
  obtains q v where "receipt_round cs t ctx h w = Some (q, v)"
    and "q = Ok None \<Longrightarrow> \<not> overdue now due limit w \<and>
      (overdue now due limit v \<or> due w < limit \<and> due w + receiptPollInterval t \<le> due v)"
proof -
  obtain o1 u where sel: "select_timer cs ctx (receiptPollInterval t) w = (o1, u)" by fastforce
  show ?thesis
  proof (cases o1)
    case None
    with sel assms have u: "now w \<le> now u" "due w \<le> now u" "now u < due u" "due w + receiptPollInterval t \<le> due u"
      "now u < limit \<or> due w \<le> now w" unfolding deadline_def by blast+
    from assms obtain r v where r: "TransactionReceipt (client t) ctx h u = Some (r, v)"
      and v: "now u \<le> now v" "due v = due u" "limit \<le> now u \<and> now u < due u \<longrightarrow> now v < due v"
      unfolding deadline_def by blast
    have "\<not> overdue now due limit w \<and> (overdue now due limit v \<or> due w < limit \<and> due w + receiptPollInterval t \<le> due v)"
      using u v by (auto simp: overdue_def)
    with sel None r that show ?thesis by (cases r) (auto simp: receipt_round_def gret_def)
  next
    case (Some e)
    with sel that show ?thesis by (simp add: receipt_round_def)
  qed
qed

lemma overdue_ends:
  assumes "deadline cs t ctx h now due limit" and "overdue now due limit w"
  shows "\<exists>y. waitForReceipt cs t ctx h w = Some y"
proof -
  obtain q v where "receipt_round cs t ctx h w = Some (q, v)" and "q \<noteq> Ok None"
    using deadline_round [OF assms(1), of w] assms(2) by metis
  from waitForReceipt_stop [OF this] show ?thesis by blast
qed

lemma waitForReceipt_ends:
  assumes "deadline cs t ctx h now due limit" and "0 < receiptPollInterval t"
  shows "\<exists>y. waitForReceipt cs t ctx h w = Some y"
proof (induction "nat (limit - due w)" arbitrary: w rule: less_induct)
  case less
  obtain q v where q: "receipt_round cs t ctx h w = Some (q, v)"
    "q = Ok None \<Longrightarrow> overdue now due limit v \<or> due w < limit \<and> due w + receiptPollInterval t \<le> due v"
    using deadline_round [OF assms(1), of w] by metis
  show ?case
  proof (cases "q = Ok None")
    case True
    have "\<exists>y. waitForReceipt cs t ctx h v = Some y"
    proof (cases "overdue now due limit v")
      case False
      with True q(2) assms(2) have "nat (limit - due v) < nat (limit - due w)" by simp
      then show ?thesis by (rule less)
    qed (rule overdue_ends [OF assms(1)])
    with q(1) True show ?thesis by (simp add: waitForReceipt_tick)
  next
    case False
    with waitForReceipt_stop [OF q(1)] show ?thesis by blast
  qed
qed

lemma waitForReceipt_returns:
  assumes "deadline cs (TxManager.New c s nm poll) ctx h now due limit"
  shows "\<exists>r v. waitForReceipt cs (TxManager.New c s nm poll) ctx h w = Some (r, v)"
  using waitForReceipt_ends [OF assms, of w] by (auto simp: TxManager.New_def defaultReceiptPollInterval_def)

text \<open>
  C30: with a deadline on its context, polling for a receipt ends, whether or not the receipt
  ever comes: the ticks are due at least a poll interval apart, which \<open>New\<close> makes positive whatever
  the caller asks for, and once the context is done at most one more is received.
\<close>

theorem receipt_wait_ends:
  assumes "deadline cs (TxManager.New c s nm poll) ctx h now due limit"
  shows "\<exists>r v. waitForReceipt cs (TxManager.New c s nm poll) ctx h w = Some (r, v)"
  using assms by (rule waitForReceipt_returns)

section \<open>The event of the factory\<close>

text \<open>
  \<open>event ProxyCreation(address proxy, address singleton)\<close> in the ABI: from 1.4.1 on the proxy is
  an indexed topic, before that the first word of the data.
\<close>

definition address_word :: "('abi, 'z) geth_scheme \<Rightarrow> address \<Rightarrow> byte list" where
  "address_word g a = replicate 12 0 @ AddressBytes g a"

definition indexed_event :: "('abi, 'z) geth_scheme \<Rightarrow> hash \<Rightarrow> address \<Rightarrow> address \<Rightarrow> log_entry" where
  "indexed_event g ev proxy singleton =
     \<lparr>Topics = [ev, BytesToHash g (address_word g proxy)], LogData = address_word g singleton\<rparr>"

definition data_event :: "('abi, 'z) geth_scheme \<Rightarrow> hash \<Rightarrow> address \<Rightarrow> address \<Rightarrow> log_entry" where
  "data_event g ev proxy singleton =
     \<lparr>Topics = [ev], LogData = address_word g proxy @ address_word g singleton\<rparr>"

definition other_event :: "hash \<Rightarrow> log_entry \<Rightarrow> bool" where
  "other_event ev l \<longleftrightarrow> (case Topics l of [] \<Rightarrow> True | t # ts \<Rightarrow> t \<noteq> ev)"

lemma find_proxy_skip: "\<forall>l \<in> set pre. other_event ev l \<Longrightarrow> find_proxy g ev (pre @ ls) = find_proxy g ev ls"
  by (induction pre) (auto simp: other_event_def split: list.splits)

lemma BytesToAddress_word:
  assumes g: "geth_laws g"
  shows "BytesToAddress g (address_word g a) = a"
proof -
  from g have "BytesToAddress g (address_word g a) = BytesToAddress g (drop (length (address_word g a) - 20) (address_word g a))"
    unfolding geth_laws_def by (simp add: address_word_def)
  also have "\<dots> = a" by (simp add: address_word_def geth_lawsD(1,2) [OF g])
  finally show ?thesis .
qed

lemma proxy_event_decoded:
  assumes "geth_laws g" and "\<forall>l \<in> set pre. other_event ev l"
  shows "find_proxy g ev (pre @ indexed_event g ev proxy singleton # post) = Ok proxy \<and>
    find_proxy g ev (pre @ data_event g ev proxy singleton # post) = Ok proxy"
proof -
  have "length (address_word g a) = 32" for a by (simp add: address_word_def geth_lawsD(1) [OF assms(1)])
  then have "HashBytes g (BytesToHash g (address_word g proxy)) = address_word g proxy"
    using assms(1) by (simp add: geth_laws_def)
  with BytesToAddress_word [OF assms(1), of proxy] geth_lawsD(1,2) [OF assms(1), of proxy] show ?thesis
    by (simp add: find_proxy_skip [OF assms(2)] indexed_event_def data_event_def) (simp add: address_word_def)
qed

text \<open>
  C32: decoding the event gives back the proxy's address, in the encoding of every version of
  the factory, wherever the log stands among the logs of other events.
\<close>

theorem proxy_event_roundtrip:
  assumes "geth_laws g" and "\<forall>l \<in> set pre. other_event ev l"
  shows "find_proxy g ev (pre @ indexed_event g ev proxy singleton # post) = Ok proxy \<and>
    find_proxy g ev (pre @ data_event g ev proxy singleton # post) = Ok proxy"
  using assms by (rule proxy_event_decoded)

section \<open>The outcome of Wait\<close>

definition created_proxy ::
  "('abi, 'z) geth_scheme \<Rightarrow> ('abi, 'w) tx_world \<Rightarrow> int option \<Rightarrow> receipt \<Rightarrow> address result" where
  "created_proxy g w i rc =
     chkR (factory_of g w i) Err (\<lambda>f.
       case EventID g (ABI f) ''ProxyCreation'' of
         None \<Rightarrow> Err (errmsg ''ProxyCreation event not found in factory ABI'')
       | Some ev \<Rightarrow> find_proxy g ev (Logs rc))"

definition wait_outcome :: "hash \<Rightarrow> address \<Rightarrow> address result \<Rightarrow> receipt \<Rightarrow> Result result" where
  "wait_outcome h p created rc =
     (if Status rc = ReceiptStatusFailed then Err (Errorf ''%w: %s'' [EHash h] [ErrTransactionReverted])
      else
        chkR created (\<lambda>e. Err (wrapf ''failed to extract deployed address: %w'' e)) (\<lambda>a.
        chkR (big_Uint64 (BlockNumber rc)) Err (\<lambda>b.
          if a \<noteq> p then Err (DeploymentMismatch p a h b)
          else Ok \<lparr>SafeAddress = a, ResTxHash = h, ResBlockNumber = b, ResGasUsed = GasUsed rc\<rparr>)))"

lemma extract_run:
  assumes "deployment_ok g (deployment w)"
  shows "\<exists>w'. extractDeployedAddress g rc i w = Some (created_proxy g w i rc, w') \<and> outer w' = outer w"
proof -
  from dep_ProxyFactory [OF assms, of i] obtain u
    where u: "dep (\<lambda>r. ProxyFactory g r i) w = Some (factory_of g w i, u)" "same_prefix g w u" by blast
  then have "extractDeployedAddress g rc i w = Some (created_proxy g w i rc, u)"
    by (cases "factory_of g w i")
      (auto simp: extractDeployedAddress_def created_proxy_def gfail_def pure_def split: option.split)
  with u(2) show ?thesis by (auto simp: same_prefix_def)
qed

lemma Wait_run:
  assumes g: "geth_laws g" and ok: "deployment_ok g (deployment w)"
    and p: "predicted g a w input (Some i) l2 = Ok p" and rc: "waitForReceipt cs t ctx h (outer w) = Some (q, v)"
  shows "\<exists>w'. Wait g a cs t ctx (Some i) l2 input h w =
      Some (chkR q Err (\<lambda>rc. wait_outcome h p (created_proxy g w (Some i) rc) rc), w') \<and> outer w' = v"
proof -
  from dep_Address [OF g ok, of a input i l2] p obtain u
    where u: "dep (\<lambda>r. Predict.Address g a r input (Some i) l2) w = Some (Ok p, u)" "same_prefix g w u" by auto
  define z where "z = u\<lparr>outer := v\<rparr>"
  from u(2) have z: "deployment_ok g (deployment z)" "outer z = v" and same: "same_world g w z"
    by (simp_all add: z_def same_prefix_def same_world_def)
  have cp: "created_proxy g z (Some i) r = created_proxy g w (Some i) r" for r
    by (simp add: created_proxy_def same_world_files [OF same])
  from u(2) rc have ext: "extern (waitForReceipt cs t ctx h) u = Some (q, z)"
    by (simp add: extern_def same_prefix_def z_def)
  show ?thesis
  proof (cases q)
    case (Ok r)
    from extract_run [OF z(1), of r "Some i"] obtain y
      where y: "extractDeployedAddress g r (Some i) z = Some (created_proxy g w (Some i) r, y)" "outer y = v"
      unfolding cp z(2) by blast
    show ?thesis
    proof (cases "created_proxy g w (Some i) r")
      case c: (Ok a)
      with u(1) ext Ok y z(2) show ?thesis
        by (cases "big_Uint64 (BlockNumber r)")
          (auto simp: Wait_def wait_outcome_def pure_def gfail_def gret_def)
    qed (use u(1) ext Ok y z(2) in \<open>auto simp: Wait_def wait_outcome_def gfail_def\<close>)
  qed (use u(1) ext z(2) in \<open>auto simp: Wait_def gfail_def\<close>)
qed

lemma Wait_panic_or_error:
  assumes "geth_laws g" and "deployment_ok g (deployment w)"
    and "\<forall>p. predicted g a w input (Some i) l2 \<noteq> Ok p"
  shows "\<exists>r w'. Wait g a cs t ctx (Some i) l2 input h w = Some (r, w') \<and> (\<forall>x. r \<noteq> Ok x)"
proof -
  from dep_Address [OF assms(1,2), of a input i l2] obtain u
    where "dep (\<lambda>r. Predict.Address g a r input (Some i) l2) w = Some (predicted g a w input (Some i) l2, u)" by blast
  with assms(3) show ?thesis by (cases "predicted g a w input (Some i) l2") (auto simp: Wait_def gfail_def)
qed

lemma wait_outcome_Ok:
  "wait_outcome h p created rc = Ok res \<longleftrightarrow>
     Status rc \<noteq> ReceiptStatusFailed \<and> created = Ok p \<and>
     (\<exists>b. BlockNumber rc = Some b \<and>
       res = \<lparr>SafeAddress = p, ResTxHash = h, ResBlockNumber = of_int \<bar>b\<bar>, ResGasUsed = GasUsed rc\<rparr>)"
  by (cases created) (auto simp: wait_outcome_def big_Uint64_def split: option.splits)

lemma Wait_Ok_iff:
  assumes "geth_laws g" and "deployment_ok g (deployment w)"
  shows "(\<exists>w'. Wait g a cs t ctx (Some i) l2 input h w = Some (Ok res, w') \<and> outer w' = v) \<longleftrightarrow>
    (\<exists>rc b p. waitForReceipt cs t ctx h (outer w) = Some (Ok rc, v) \<and> Status rc \<noteq> ReceiptStatusFailed \<and>
      predicted g a w input (Some i) l2 = Ok p \<and> created_proxy g w (Some i) rc = Ok p \<and> BlockNumber rc = Some b \<and>
      res = \<lparr>SafeAddress = p, ResTxHash = h, ResBlockNumber = of_int \<bar>b\<bar>, ResGasUsed = GasUsed rc\<rparr>)"
    (is "?L \<longleftrightarrow> ?R")
proof (cases "\<exists>p. predicted g a w input (Some i) l2 = Ok p")
  case False
  with Wait_panic_or_error [OF assms, of a input i l2 cs t ctx h] show ?thesis by auto
next
  case True
  then obtain p where p: "predicted g a w input (Some i) l2 = Ok p" by blast
  show ?thesis
  proof (cases "waitForReceipt cs t ctx h (outer w)")
    case None
    from dep_Address [OF assms, of a input i l2] p obtain u
      where "dep (\<lambda>r. Predict.Address g a r input (Some i) l2) w = Some (Ok p, u)" "outer u = outer w"
      by (auto simp: same_prefix_def)
    with None show ?thesis by (simp add: Wait_def extern_def chk_def)
  next
    case (Some y)
    obtain q u where y: "y = (q, u)" by (cases y)
    from Wait_run [OF assms p, of cs t ctx h q u] Some y obtain w'
      where w': "Wait g a cs t ctx (Some i) l2 input h w =
        Some (chkR q Err (\<lambda>rc. wait_outcome h p (created_proxy g w (Some i) rc) rc), w')" "outer w' = u" by auto
    show ?thesis
    proof (cases q)
      case (Ok rc)
      with w' Some y p show ?thesis by (auto simp: wait_outcome_Ok)
    qed (use w' Some y p in auto)
  qed
qed

text \<open>
  C14: \<open>Wait\<close> returns a result exactly when the transaction has a receipt that did not fail, whose
  event names the address that was predicted; the result is that address, the hash asked for,
  and the block and gas of that receipt.
\<close>

theorem wait_ok_iff:
  assumes "geth_laws g" and "deployment_ok g (deployment w)"
  shows "(\<exists>w'. Wait g a cs t ctx (Some i) l2 input h w = Some (Ok res, w') \<and> outer w' = v) \<longleftrightarrow>
    (\<exists>rc b p. waitForReceipt cs t ctx h (outer w) = Some (Ok rc, v) \<and> Status rc \<noteq> ReceiptStatusFailed \<and>
      predicted g a w input (Some i) l2 = Ok p \<and> created_proxy g w (Some i) rc = Ok p \<and> BlockNumber rc = Some b \<and>
      res = \<lparr>SafeAddress = p, ResTxHash = h, ResBlockNumber = of_int \<bar>b\<bar>, ResGasUsed = GasUsed rc\<rparr>)"
  using assms by (rule Wait_Ok_iff)


section \<open>Deploy\<close>

lemma Deploy_run:
  assumes "Submit g a impl t ctx i l2 input opts w = Some (Ok h, u)"
    and "Wait g a cs t (WithTimeout cs ctx (opts_timeout opts) (outer u)) i l2 input h u = Some (r, w')"
  shows "TxManager.Deploy g a impl cs t ctx i l2 input opts w =
    Some (case r of Err e \<Rightarrow> Err (if errors_is e context_DeadlineExceeded then Errorf ''%w: %s'' [EHash h] [ErrDeployTimeout] else e)
          | x \<Rightarrow> x, w')"
  using assms by (cases r) (auto simp: TxManager.Deploy_def extern_def reads_def gfail_def gret_def)

text \<open>A node that never shows a receipt, and a context that only its deadline ends.\<close>

definition never_mined :: "('w, 'ctx) contexts \<Rightarrow> ('w, 's, 'ctx) TxManager \<Rightarrow> 'ctx \<Rightarrow> hash \<Rightarrow> bool" where
  "never_mined cs t ctx h \<longleftrightarrow>
     (\<forall>v. \<exists>e v'. TransactionReceipt (client t) ctx h v = Some (Err e, v')) \<and>
     (\<forall>v e v'. select_timer cs ctx (receiptPollInterval t) v = (Some e, v') \<longrightarrow> e = context_DeadlineExceeded)"

text \<open>A context that never ends while the node does not show the receipt.\<close>

definition endless :: "('w, 'ctx) contexts \<Rightarrow> ('w, 's, 'ctx) TxManager \<Rightarrow> 'ctx \<Rightarrow> hash \<Rightarrow> bool" where
  "endless cs t ctx h \<longleftrightarrow>
     (\<forall>v. \<exists>e v'. TransactionReceipt (client t) ctx h v = Some (Err e, v')) \<and>
     (\<forall>v. fst (select_timer cs ctx (receiptPollInterval t) v) = None)"

lemma endless_wait: "endless cs t ctx h \<Longrightarrow> waitForReceipt cs t ctx h w = None"
proof (rule ccontr)
  assume e: "endless cs t ctx h" and "waitForReceipt cs t ctx h w \<noteq> None"
  then obtain y where "waitForReceipt cs t ctx h w = Some y" by blast
  from waitForReceipt_polled [OF this] obtain z q where z: "receipt_round cs t ctx h z = Some (q, snd y)" "q \<noteq> Ok None"
    unfolding polled_def by blast
  obtain o1 u where sel: "select_timer cs ctx (receiptPollInterval t) z = (o1, u)" by fastforce
  moreover from e sel have "o1 = None" by (auto simp: endless_def dest: spec [of _ z])
  moreover from e obtain x v where "TransactionReceipt (client t) ctx h u = Some (Err x, v)" unfolding endless_def by blast
  ultimately show False using z by (simp add: receipt_round_def gret_def)
qed

lemma Wait_endless:
  assumes "geth_laws g" and "deployment_ok g (deployment w)" and "predicted g a w input (Some i) l2 = Ok p" and "endless cs t ctx h"
  shows "Wait g a cs t ctx (Some i) l2 input h w = None"
proof -
  from dep_Address [OF assms(1,2), of a input i l2] assms(3) obtain u
    where "dep (\<lambda>r. Predict.Address g a r input (Some i) l2) w = Some (Ok p, u)" by auto
  with endless_wait [OF assms(4)] show ?thesis by (simp add: Wait_def extern_def chk_def)
qed

lemma never_mined_wait:
  assumes never: "never_mined cs t ctx h" and run: "waitForReceipt cs t ctx h w = Some (q, v)"
  shows "q = Err context_DeadlineExceeded"
proof -
  from waitForReceipt_polled [OF run] obtain z k
    where z: "receipt_round cs t ctx h z = Some (k, v)" "k \<noteq> Ok None" "q = receipt_of k" unfolding polled_def by auto
  obtain o1 y where sel: "select_timer cs ctx (receiptPollInterval t) z = (o1, y)" by fastforce
  from never obtain e y' where rc: "TransactionReceipt (client t) ctx h y = Some (Err e, y')"
    unfolding never_mined_def by blast
  show ?thesis
  proof (cases o1)
    case None
    with z sel rc show ?thesis by (simp add: receipt_round_def gret_def)
  next
    case (Some e)
    with never sel have "e = context_DeadlineExceeded" unfolding never_mined_def by blast
    with z sel Some show ?thesis by (auto simp: receipt_round_def)
  qed
qed


section \<open>Concrete deployments\<close>

text \<open>
  The outer world is a clock, a context its deadline: a tick of the timer moves the clock, and
  the node shows the receipt \<open>rc\<close> from the time \<open>m\<close> on, if ever.
\<close>

definition clock_contexts :: "(int, int) contexts" where
  "clock_contexts =
     \<lparr>select_timer = \<lambda>d p now. if d \<le> now then (Some context_DeadlineExceeded, now) else (None, now + p),
      WithTimeout = \<lambda>d p now. min d (now + p)\<rparr>"

definition clock_client :: "int option \<Rightarrow> receipt \<Rightarrow> (int, 'ctx) eth_client" where
  "clock_client m rc =
     \<lparr>CodeAt = \<lambda>_ a. gret [], EstimateGas = \<lambda>_ _. gret 100, SuggestGasTipCap = \<lambda>_. gret 1, SuggestGasPrice = \<lambda>_. gret 1,
      HeaderByNumber = \<lambda>_. gret None, SendTransaction = \<lambda>_ t. gret (),
      TransactionReceipt = \<lambda>_ h now. Some (case m of None \<Rightarrow> Err (errmsg ''not found'')
        | Some x \<Rightarrow> if x \<le> now then Ok rc else Err (errmsg ''not found''), now)\<rparr>"

definition clock_nm :: "(int, unit, int) manager" where
  "clock_nm = \<lparr>nm_Acquire = \<lambda>_. gret (5, ()), nm_Reset = \<lambda>_. gret (), resolve_slot = \<lambda>_ _. gret ()\<rparr>"

definition clock_tm :: "int option \<Rightarrow> receipt \<Rightarrow> (int, unit, int) TxManager" where
  "clock_tm m rc = TxManager.New (clock_client m rc) demo_signer clock_nm 0"

definition demo_receipt :: "u64 \<Rightarrow> address \<Rightarrow> receipt" where
  "demo_receipt st p = \<lparr>Status = st, Logs = [indexed_event demo_tx 77 p 7], BlockNumber = Some 3, GasUsed = 50\<rparr>"

lemmas clock_defs = clock_tm_def TxManager.New_def clock_client_def clock_nm_def clock_contexts_def demo_signer_def

lemma clock_deadline: "deadline clock_contexts (clock_tm m rc) d h (\<lambda>now. now) (\<lambda>now. now + 2000000000) (d + 2000000000)"
  by (auto simp: deadline_def clock_defs defaultReceiptPollInterval_def split: option.split)

lemma clock_never: "never_mined clock_contexts (clock_tm None rc) d h"
  by (auto simp: never_mined_def clock_defs split: if_splits)

theorem receipt_wait_ends_witness:
  "\<exists>v. waitForReceipt clock_contexts (clock_tm None (demo_receipt 1 0)) 7000000000 1 0 = Some (Err context_DeadlineExceeded, v)"
proof -
  from receipt_wait_ends [of clock_contexts "clock_client None (demo_receipt 1 0)" demo_signer clock_nm 0, folded clock_tm_def,
      OF clock_deadline, of 7000000000 1 0]
  obtain r v where "waitForReceipt clock_contexts (clock_tm None (demo_receipt 1 0)) 7000000000 1 0 = Some (r, v)" by blast
  with never_mined_wait [OF clock_never] show ?thesis by blast
qed

theorem proxy_event_roundtrip_witness:
  "find_proxy demo_geth 77 ([\<lparr>Topics = [], LogData = []\<rparr>] @ data_event demo_geth 77 12 7 # []) = Ok 12"
  using proxy_event_roundtrip [OF demo_geth_laws, of "[\<lparr>Topics = [], LogData = []\<rparr>]" 77 12 7 "[]"]
  by (simp add: other_event_def)

lemma demo_created: "created_proxy demo_tx (demo_tx_world v) (Some 1) (demo_receipt st p) = Ok p"
proof -
  have "EventID demo_tx ''[]'' ''ProxyCreation'' = Some 77" by (simp add: demo_geth_def)
  with proxy_event_decoded [OF demo_tx_laws, of "[]" 77 p 7 "[]"] show ?thesis
    by (simp add: created_proxy_def demo_version demo_receipt_def)
qed

lemma demo_clock_receipt:
  "waitForReceipt clock_contexts (clock_tm (Some 1) rc) 7000000000 h 0 = Some (Ok rc, 2000000000)"
  using waitForReceipt_stop [of clock_contexts "clock_tm (Some 1) rc" 7000000000 h 0 "Ok (Some rc)" 2000000000]
  by (simp add: receipt_round_def clock_defs defaultReceiptPollInterval_def gret_def)

theorem wait_ok_iff_witness:
  "\<exists>p w'. Wait demo_tx ''[]'' clock_contexts (clock_tm (Some 1) (demo_receipt 1 p)) 7000000000 (Some 1) True demo_input 9 (demo_tx_world 0) =
     Some (Ok \<lparr>SafeAddress = p, ResTxHash = 9, ResBlockNumber = 3, ResGasUsed = 50\<rparr>, w')"
proof -
  obtain p where p: "predicted demo_tx ''[]'' (demo_tx_world (0 :: int)) demo_input (Some 1) True = Ok p" using demo_predicted [of "0::int"] by blast
  let ?res = "\<lparr>SafeAddress = p, ResTxHash = 9, ResBlockNumber = 3, ResGasUsed = 50\<rparr>"
  have rc: "Status (demo_receipt 1 p) \<noteq> ReceiptStatusFailed" "BlockNumber (demo_receipt 1 p) = Some 3"
    "?res = \<lparr>SafeAddress = p, ResTxHash = 9, ResBlockNumber = of_int \<bar>3\<bar>, ResGasUsed = GasUsed (demo_receipt 1 p)\<rparr>"
    by (simp_all add: demo_receipt_def ReceiptStatusFailed_def)
  have wait: "waitForReceipt clock_contexts (clock_tm (Some 1) (demo_receipt 1 p)) 7000000000 9 (outer (demo_tx_world 0)) =
      Some (Ok (demo_receipt 1 p), 2000000000)"
    using demo_clock_receipt by (simp add: demo_tx_world_def)
  have "\<exists>w'. Wait demo_tx ''[]'' clock_contexts (clock_tm (Some 1) (demo_receipt 1 p)) 7000000000 (Some 1) True demo_input 9 (demo_tx_world 0) =
     Some (Ok ?res, w') \<and> outer w' = 2000000000"
    by (rule iffD2 [OF wait_ok_iff [OF demo_tx_laws demo_version(1)]]) (intro exI conjI, rule wait, rule rc(1), rule p, rule demo_created, rule rc(2), rule rc(3))
  then show ?thesis by blast
qed


lemma demo_clock_submit:
  "\<exists>h u. Submit demo_tx ''[]'' (\<lambda>_. 0) (clock_tm m rc) d (Some 1) True demo_input None (demo_tx_world 0) = Some (Ok h, u)"
  using demo_submit [OF same_world_refl [OF demo_version(1)], of 0 "\<lambda>_. 0" "clock_tm m rc" d None]
  by (auto simp: clock_defs with_slot_eval)


end
