(* ===== verification/Signer.thy ===== *)
theory Signer
  imports TxWorld
begin

text \<open>
  \<open>pkg/signer\<close>: the signer of a private key given in an environment variable or as a string, and
  the signer for tests. This is the only package that holds a private key.
\<close>

section \<open>EnvSigner\<close>

text \<open>
  \<open>key_words\<close> is the memory behind \<open>key.D\<close>, which outlives the pointer: \<open>Close\<close> clears it with
  \<open>clear(s.key.D.Bits())\<close>. The keys that \<open>crypto\<close> makes have a \<open>D\<close>, so that \<open>Close\<close> tests the
  pointer only.
\<close>

record 'key EnvSigner =
  key :: "'key option"
  env_address :: address
  key_words :: "u64 list"

definition signer_of_key :: "('abi, 'key, 'z) geth_tx_scheme \<Rightarrow> 'key \<Rightarrow> 'key EnvSigner" where
  "signer_of_key g k = \<lparr>key = Some k, env_address = PubkeyToAddress g k, key_words = KeyBits g k\<rparr>"

definition NewEnvSigner :: "('abi, 'key, 'z) geth_tx_scheme \<Rightarrow> (string \<Rightarrow> string) \<Rightarrow> string \<Rightarrow> 'key EnvSigner result" where
  "NewEnvSigner g Getenv envVar =
     (let raw = TrimSpace (Getenv envVar)
      in if raw = [] then Err (Errorf ''environment variable %q is not set'' [EStr envVar] [])
         else chkR (HexToECDSA g (TrimPrefix raw ''0x''))
           (\<lambda>e. Err (Errorf ''failed to parse private key from %q: %w'' [EStr envVar] [e]))
           (\<lambda>k. Ok (signer_of_key g k)))"

definition NewSignerFromHex :: "('abi, 'key, 'z) geth_tx_scheme \<Rightarrow> string \<Rightarrow> 'key EnvSigner result" where
  "NewSignerFromHex g hexKey =
     chkR (HexToECDSA g (TrimPrefix hexKey ''0x''))
       (\<lambda>e. Err (wrapf ''failed to parse private key: %w'' e)) (\<lambda>k. Ok (signer_of_key g k))"

definition EnvSigner_SignTx ::
  "('abi, 'key, 'z) geth_tx_scheme \<Rightarrow> transaction \<Rightarrow> int option \<Rightarrow> ('key EnvSigner, signed_tx) prog" where
  "EnvSigner_SignTx g tx chainID s =
     (case key s of
        None \<Rightarrow> Some (Err (errmsg ''EnvSigner has been closed and can no longer sign''), s)
      | Some k \<Rightarrow>
          Some (chkR (types_SignTx g tx chainID k) (\<lambda>e. Err (wrapf ''failed to sign transaction: %w'' e)) Ok, s))"

definition EnvSigner_Close :: "('key EnvSigner, unit) prog" where
  "EnvSigner_Close s =
     (if key s = None then Some (Ok (), s)
      else Some (Ok (), s\<lparr>key := None, key_words := map (\<lambda>_. 0) (key_words s)\<rparr>))"

definition EnvSigner_signer :: "('abi, 'key, 'z) geth_tx_scheme \<Rightarrow> ('key EnvSigner, 'ctx) signer" where
  "EnvSigner_signer g =
     \<lparr>signer_Address = env_address, SignTx = \<lambda>_. EnvSigner_SignTx g, Close = EnvSigner_Close\<rparr>"

section \<open>MockSigner\<close>

record 'key MockSigner =
  mock_key :: 'key
  mock_address :: address

text \<open>The loop of \<open>NewMockSigner\<close> over the bytes of the seed.\<close>

definition seedBytes :: "u64 \<Rightarrow> byte list" where
  "seedBytes seed =
     foldl (\<lambda>bs i. bs[7 - i := ucast (and (drop_bit (8 * i) seed) 0xff)]) (replicate 8 0) [0..<8]"

definition NewMockSigner :: "('abi, 'key, 'z) geth_tx_scheme \<Rightarrow> u64 \<Rightarrow> 'key MockSigner result" where
  "NewMockSigner g seed =
     chkR (ToECDSA g (Keccak256 g [seedBytes seed]))
       (\<lambda>e. Panic ''signer: MockSigner seed %d produced invalid key: %v'')
       (\<lambda>k. Ok \<lparr>mock_key = k, mock_address = PubkeyToAddress g k\<rparr>)"

definition MockSigner_SignTx ::
  "('abi, 'key, 'z) geth_tx_scheme \<Rightarrow> transaction \<Rightarrow> int option \<Rightarrow> ('key MockSigner, signed_tx) prog" where
  "MockSigner_SignTx g tx chainID s =
     Some (chkR (types_SignTx g tx chainID (mock_key s)) (\<lambda>e. Err (wrapf ''mock failed to sign transaction: %w'' e)) Ok, s)"

definition MockSigner_Close :: "('key MockSigner, unit) prog" where
  "MockSigner_Close s = Some (Ok (), s)"

definition MockSigner_signer :: "('abi, 'key, 'z) geth_tx_scheme \<Rightarrow> ('key MockSigner, 'ctx) signer" where
  "MockSigner_signer g =
     \<lparr>signer_Address = mock_address, SignTx = \<lambda>_. MockSigner_SignTx g, Close = MockSigner_Close\<rparr>"

section \<open>The interface\<close>

text \<open>Any calls of a signer, one after the other: \<open>None\<close> closes, \<open>Some\<close> signs.\<close>

fun signer_calls ::
  "('w, 'ctx) signer \<Rightarrow> ('ctx \<times> transaction \<times> int option) option list \<Rightarrow> 'w \<Rightarrow> (signed_tx result list \<times> 'w) option" where
  "signer_calls s [] w = Some ([], w)"
| "signer_calls s (None # cs) w = (case Close s w of Some (_, w') \<Rightarrow> signer_calls s cs w' | None \<Rightarrow> None)"
| "signer_calls s (Some (ctx, tx, i) # cs) w =
     (case SignTx s ctx tx i w of
        Some (r, w') \<Rightarrow> (case signer_calls s cs w' of Some (rs, v) \<Rightarrow> Some (r # rs, v) | None \<Rightarrow> None)
      | None \<Rightarrow> None)"

text \<open>
  What the rest of the sources relies on: signing changes nothing, the address never changes, and
  every call returns.
\<close>

locale tx_signer =
  fixes s :: "('w, 'ctx) signer"
  assumes sign_returns: "\<exists>r. SignTx s ctx tx i w = Some (r, w)"
    and close_returns: "\<exists>w'. Close s w = Some (Ok (), w') \<and> signer_Address s w' = signer_Address s w"
begin

lemma calls_return: "\<exists>rs w'. signer_calls s cs w = Some (rs, w') \<and> signer_Address s w' = signer_Address s w"
proof (induction cs arbitrary: w)
  case (Cons c cs)
  show ?case
  proof (cases c)
    case None
    from close_returns [of w] obtain w' where w': "Close s w = Some (Ok (), w')" "signer_Address s w' = signer_Address s w" by blast
    with Cons.IH [of w'] None show ?thesis by auto
  next
    case (Some ti)
    obtain ctx tx i where ti: "ti = (ctx, tx, i)" by (cases ti)
    from sign_returns [of ctx tx i w] obtain r where "SignTx s ctx tx i w = Some (r, w)" by blast
    with Cons.IH [of w] Some ti show ?thesis by auto
  qed
qed simp

end

interpretation env_signer: tx_signer "EnvSigner_signer g" for g
  by unfold_locales (auto simp: EnvSigner_signer_def EnvSigner_SignTx_def EnvSigner_Close_def split: option.split)

interpretation mock_signer: tx_signer "MockSigner_signer g" for g
  by unfold_locales (auto simp: MockSigner_signer_def MockSigner_SignTx_def MockSigner_Close_def)

text \<open>
  \<open>types.SignTx\<close> returns the transaction it was given, with a signature; the signer of a chain
  puts its chain ID into a dynamic-fee transaction (it rejects one with another ID).
\<close>

definition SignTx_law :: "('abi, 'key, 'z) geth_tx_scheme \<Rightarrow> bool" where
  "SignTx_law g \<longleftrightarrow> (\<forall>tx i k x. types_SignTx g tx i k = Ok x \<longrightarrow> payload x = for_chain i tx)"

lemma SignTx_lawD: "SignTx_law g \<Longrightarrow> types_SignTx g tx i k = Ok x \<Longrightarrow> payload x = for_chain i tx"
  by (auto simp: SignTx_law_def)

lemma signs_payload_env: "SignTx_law g \<Longrightarrow> signs_payload (EnvSigner_signer g)"
proof (unfold signs_payload_def, intro allI impI)
  fix ctx tx i w x w'
  assume g: "SignTx_law g" and run: "SignTx (EnvSigner_signer g) ctx tx i w = Some (Ok x, w')"
  then obtain k where k: "key w = Some k" by (auto simp: EnvSigner_signer_def EnvSigner_SignTx_def split: option.splits)
  with run show "payload x = for_chain i tx"
    by (cases "types_SignTx g tx i k") (auto simp: EnvSigner_signer_def EnvSigner_SignTx_def dest: SignTx_lawD [OF g])
qed

lemma signs_payload_mock: "SignTx_law g \<Longrightarrow> signs_payload (MockSigner_signer g)"
proof (unfold signs_payload_def, intro allI impI)
  fix ctx tx i w x w'
  assume g: "SignTx_law g" and run: "SignTx (MockSigner_signer g) ctx tx i w = Some (Ok x, w')"
  then show "payload x = for_chain i tx"
    by (cases "types_SignTx g tx i (mock_key w)") (auto simp: MockSigner_signer_def MockSigner_SignTx_def dest: SignTx_lawD [OF g])
qed

section \<open>After Close\<close>

definition wiped :: "'key EnvSigner \<Rightarrow> bool" where
  "wiped s \<longleftrightarrow> key s = None \<and> (\<forall>x \<in> set (key_words s). x = 0)"

text \<open>A signer is made with its key; a closed one has neither key nor words of it.\<close>

definition live_or_wiped :: "'key EnvSigner \<Rightarrow> bool" where
  "live_or_wiped s \<longleftrightarrow> key s \<noteq> None \<or> wiped s"

lemma EnvSigner_Close_wipes:
  "live_or_wiped s \<Longrightarrow> \<exists>s'. EnvSigner_Close s = Some (Ok (), s') \<and> wiped s'"
  by (auto simp: EnvSigner_Close_def live_or_wiped_def wiped_def)

lemma EnvSigner_methods [simp]:
  "Close (EnvSigner_signer g) = EnvSigner_Close" "SignTx (EnvSigner_signer g) ctx = EnvSigner_SignTx g"
  by (simp_all add: EnvSigner_signer_def)

lemma wiped_calls:
  "wiped s \<Longrightarrow> signer_calls (EnvSigner_signer g) cs s = Some (rs, s') \<Longrightarrow>
     s' = s \<and> (\<forall>r \<in> set rs. r = Err (errmsg ''EnvSigner has been closed and can no longer sign''))"
proof (induction cs arbitrary: rs)
  case (Cons c cs)
  from Cons.prems have "EnvSigner_Close s = Some (Ok (), s)"
    and "EnvSigner_SignTx g tx i s = Some (Err (errmsg ''EnvSigner has been closed and can no longer sign''), s)" for tx i
    by (simp_all add: EnvSigner_Close_def EnvSigner_SignTx_def wiped_def)
  with Cons show ?case by (cases c) (auto split: option.splits prod.splits)
qed simp

lemma signer_calls_live:
  "live_or_wiped s \<Longrightarrow> signer_calls (EnvSigner_signer g) cs s = Some (rs, s') \<Longrightarrow> live_or_wiped s'"
proof (induction cs arbitrary: s rs)
  case (Cons c cs)
  show ?case
  proof (cases c)
    case None
    from EnvSigner_Close_wipes [OF Cons.prems(1)] obtain u where "EnvSigner_Close s = Some (Ok (), u)" "wiped u" by blast
    with Cons None show ?thesis by (auto simp: EnvSigner_signer_def live_or_wiped_def)
  next
    case (Some ti)
    from env_signer.sign_returns [of g "fst ti" "fst (snd ti)" "snd (snd ti)" s] Cons Some show ?thesis
      by (cases ti) (auto split: option.splits)
  qed
qed simp

lemma signer_calls_length:
  "signer_calls s cs w = Some (rs, v) \<Longrightarrow> length rs = length (filter (\<lambda>c. c \<noteq> None) cs)"
  by (induction s cs w arbitrary: rs v rule: signer_calls.induct) (auto split: option.splits prod.splits)

lemma signer_calls_append:
  "signer_calls s (xs @ ys) w =
     (case signer_calls s xs w of
        None \<Rightarrow> None
      | Some (rs, v) \<Rightarrow> (case signer_calls s ys v of None \<Rightarrow> None | Some (qs, u) \<Rightarrow> Some (rs @ qs, u)))"
  by (induction s xs w rule: signer_calls.induct) (auto split: option.splits prod.splits)

text \<open>
  C23: whatever calls are made, before and after: once \<open>Close\<close> has been called on the signer of a
  key, every later \<open>SignTx\<close> fails, no word of the key is left in its memory, a second \<open>Close\<close>
  changes nothing, and the address is still the one of the key.
\<close>

theorem env_signer_closed:
  "\<exists>rs qs v. signer_calls (EnvSigner_signer g) (pre @ None # post) (signer_of_key g k) = Some (rs @ qs, v) \<and>
     length qs = length (filter (\<lambda>c. c \<noteq> None) post) \<and>
     (\<forall>r \<in> set qs. r = Err (errmsg ''EnvSigner has been closed and can no longer sign'')) \<and>
     wiped v \<and> env_address v = PubkeyToAddress g k"
proof -
  let ?S = "EnvSigner_signer g"
  let ?s = "signer_of_key g k"
  have live: "live_or_wiped ?s" by (simp add: live_or_wiped_def signer_of_key_def)
  from env_signer.calls_return [of g pre ?s] obtain rs u where u: "signer_calls ?S pre ?s = Some (rs, u)" by blast
  from EnvSigner_Close_wipes [OF signer_calls_live [OF live u]] obtain z
    where z: "EnvSigner_Close u = Some (Ok (), z)" "wiped z" by blast
  from env_signer.calls_return [of g post z] obtain qs v where v: "signer_calls ?S post z = Some (qs, v)" by blast
  have all: "signer_calls ?S (pre @ None # post) ?s = Some (rs @ qs, v)"
    using u z(1) v by (simp add: signer_calls_append)
  from env_signer.calls_return [of g "pre @ None # post" ?s] all have "env_address v = PubkeyToAddress g k"
    by (simp add: EnvSigner_signer_def signer_of_key_def)
  with all wiped_calls [OF z(2) v] z(2) signer_calls_length [OF v] show ?thesis by blast
qed

theorem env_signer_closed_witness:
  "\<exists>rs v. signer_calls (EnvSigner_signer demo_tx) [None, Some ((), LegacyTx 5 None 6 7 0 [], Some 1)] (signer_of_key demo_tx 3) = Some (rs, v) \<and>
     rs = [Err (errmsg ''EnvSigner has been closed and can no longer sign'')] \<and> wiped v"
proof -
  have one: "xs = []" if "signer_calls (EnvSigner_signer demo_tx) [None, Some ((), LegacyTx 5 None 6 7 0 [], Some 1)] (signer_of_key demo_tx 3) =
      Some (xs @ qs, v)" "length qs = 1" for xs qs v
    using signer_calls_length [OF that(1)] that(2) by simp
  from env_signer_closed [of demo_tx "[]" "[Some ((), LegacyTx 5 None 6 7 0 [], Some 1)]" 3] one show ?thesis
    by (fastforce simp: length_Suc_conv)
qed

section \<open>Keys\<close>

text \<open>
  A key in an environment variable gives the signer that the same text gives directly, with
  or without white space around it; a variable that is unset or blank gives none. A prefix
  \<open>0x\<close> makes no difference.
\<close>

theorem env_signer_is_hex_signer:
  "(NewEnvSigner g Getenv v = Ok s \<longleftrightarrow> TrimSpace (Getenv v) \<noteq> [] \<and> NewSignerFromHex g (TrimSpace (Getenv v)) = Ok s) \<and>
   (take 2 h \<noteq> ''0x'' \<longrightarrow> NewSignerFromHex g (''0x'' @ h) = NewSignerFromHex g h)"
  by (cases "HexToECDSA g (TrimPrefix (TrimSpace (Getenv v)) ''0x'')")
    (auto simp: NewEnvSigner_def NewSignerFromHex_def Let_def TrimPrefix_def numeral_2_eq_2)

theorem env_signer_is_hex_signer_witness:
  "NewSignerFromHex demo_tx (''0x'' @ ''ab'') = NewSignerFromHex demo_tx ''ab''"
  using env_signer_is_hex_signer [of demo_tx "\<lambda>_. []" "[]" "signer_of_key demo_tx 2" "''ab''"] by simp

lemma ucast_and_0xff: "(ucast (and w 0xff) :: byte) = ucast (w :: u64)"
proof -
  have "and w 0xff = take_bit 8 w" by (simp add: take_bit_eq_mask mask_eq_exp_minus_1)
  then show ?thesis by (simp add: unsigned_take_bit_eq unsigned_ucast_eq word_unat_eq_iff)
qed

lemma seedBytes_word_bytes: "seedBytes seed = word_bytes 8 seed"
  by (simp add: seedBytes_def word_bytes_def ucast_and_0xff upt_rec numeral_eq_Suc)

text \<open>
  The loop of \<open>NewMockSigner\<close> writes the seed in big-endian order: eight bytes whose value is
  the seed. So different seeds hash different messages, and equal seeds give the same signer.
\<close>

theorem mock_seed_bytes: "length (seedBytes seed) = 8 \<and> bytes_nat (seedBytes seed) = unat seed"
proof -
  have "unat seed < 256 ^ 8" using unsigned_less [of seed, where ?'a = nat] by simp
  then show ?thesis by (simp add: seedBytes_word_bytes bytes_nat_word_bytes)
qed

end
