(* ===== verification/SignerConc.thy ===== *)
theory SignerConc
  imports Signer
begin

text \<open>
  Goroutines sharing one \<open>EnvSigner\<close>. \<open>SignTx\<close> and \<open>Close\<close> take no lock, so that each read and
  write of the field \<open>key\<close> and of a word behind it is a step of its own, and any goroutine may move
  next. (In a race Go's memory model promises no more than these interleavings.)
\<close>

section \<open>Goroutines\<close>

text \<open>
  Where a goroutine is. In \<open>SignTx\<close>: before the test of \<open>s.key\<close>, before it is read as the argument of
  \<open>types.SignTx\<close>, and inside that call, with the pointer it was given. In \<open>Close\<close>: before each of the
  three reads of \<open>s.key\<close>, before word \<open>j\<close> of the key is cleared, and before \<open>s.key = nil\<close>. \<open>Dead\<close> is
  a goroutine that has panicked.
\<close>

datatype 'key spc =
    Out | SignTest transaction "int option" | SignLoad transaction "int option"
  | SignRun transaction "int option" "'key option"
  | CloseTest | CloseD | CloseBits | CloseClear nat | CloseStore | Dead

datatype sevent = Quiet | Signed nat transaction "int option" "signed_tx result" | Closed nat | Crash nat

type_synonym 'key signers = "'key EnvSigner \<times> (nat \<Rightarrow> 'key spc)"

text \<open>
  What \<open>types.SignTx\<close> makes of the pointer it is given and of the words behind it when it reads
  them; nothing is assumed of it for a nil pointer or for words that are not those of the key.
\<close>

type_synonym 'key sign_lib = "'key option \<Rightarrow> u64 list \<Rightarrow> transaction \<Rightarrow> int option \<Rightarrow> signed_tx result"

definition closed_error :: gerr where
  "closed_error = errmsg ''EnvSigner has been closed and can no longer sign''"

definition sign_result :: "signed_tx result \<Rightarrow> signed_tx result" where
  "sign_result r = chkR r (\<lambda>e. Err (wrapf ''failed to sign transaction: %w'' e)) Ok"

inductive sign_step :: "'key sign_lib \<Rightarrow> 'key signers \<Rightarrow> sevent \<Rightarrow> 'key signers \<Rightarrow> bool" for lib where
  call_sign: "P t = Out \<Longrightarrow> sign_step lib (s, P) Quiet (s, P(t := SignTest tx i))"
| sign_closed: "P t = SignTest tx i \<Longrightarrow> key s = None \<Longrightarrow>
    sign_step lib (s, P) (Signed t tx i (Err closed_error)) (s, P(t := Out))"
| sign_live: "P t = SignTest tx i \<Longrightarrow> key s \<noteq> None \<Longrightarrow> sign_step lib (s, P) Quiet (s, P(t := SignLoad tx i))"
| sign_load: "P t = SignLoad tx i \<Longrightarrow> sign_step lib (s, P) Quiet (s, P(t := SignRun tx i (key s)))"
| sign_run: "P t = SignRun tx i p \<Longrightarrow> lib p (key_words s) tx i = r \<Longrightarrow> (\<And>m. r \<noteq> Panic m) \<Longrightarrow>
    sign_step lib (s, P) (Signed t tx i (sign_result r)) (s, P(t := Out))"
| sign_panic: "P t = SignRun tx i p \<Longrightarrow> lib p (key_words s) tx i = Panic m \<Longrightarrow>
    sign_step lib (s, P) (Crash t) (s, P(t := Dead))"
| call_close: "P t = Out \<Longrightarrow> sign_step lib (s, P) Quiet (s, P(t := CloseTest))"
| close_gone: "P t = CloseTest \<Longrightarrow> key s = None \<Longrightarrow> sign_step lib (s, P) (Closed t) (s, P(t := Out))"
| close_live: "P t = CloseTest \<Longrightarrow> key s \<noteq> None \<Longrightarrow> sign_step lib (s, P) Quiet (s, P(t := CloseD))"
| close_D: "P t = CloseD \<Longrightarrow> key s \<noteq> None \<Longrightarrow> sign_step lib (s, P) Quiet (s, P(t := CloseBits))"
| close_bits: "P t = CloseBits \<Longrightarrow> key s \<noteq> None \<Longrightarrow> sign_step lib (s, P) Quiet (s, P(t := CloseClear 0))"
| close_nil: "P t = CloseD \<or> P t = CloseBits \<Longrightarrow> key s = None \<Longrightarrow> sign_step lib (s, P) (Crash t) (s, P(t := Dead))"
| clear_word: "P t = CloseClear j \<Longrightarrow> j < length (key_words s) \<Longrightarrow>
    sign_step lib (s, P) Quiet (s\<lparr>key_words := (key_words s)[j := 0]\<rparr>, P(t := CloseClear (Suc j)))"
| clear_end: "P t = CloseClear j \<Longrightarrow> length (key_words s) \<le> j \<Longrightarrow> sign_step lib (s, P) Quiet (s, P(t := CloseStore))"
| close_store: "P t = CloseStore \<Longrightarrow> sign_step lib (s, P) (Closed t) (s\<lparr>key := None\<rparr>, P(t := Out))"

inductive sign_run_of :: "'key sign_lib \<Rightarrow> 'key signers \<Rightarrow> sevent list \<Rightarrow> 'key signers \<Rightarrow> bool" for lib where
  no_step: "sign_run_of lib z [] z"
| one_more: "sign_run_of lib z es z' \<Longrightarrow> sign_step lib z' e z'' \<Longrightarrow> sign_run_of lib z (es @ [e]) z''"

text \<open>The start: a signer made for a key, every goroutine outside.\<close>

definition fresh :: "('abi, 'key, 'z) geth_tx_scheme \<Rightarrow> 'key \<Rightarrow> 'key signers" where
  "fresh g k = (signer_of_key g k, \<lambda>_. Out)"

lemma sign_run_trans: "sign_run_of lib z' fs z'' \<Longrightarrow> sign_run_of lib z es z' \<Longrightarrow> sign_run_of lib z (es @ fs) z''"
proof (induction rule: sign_run_of.induct)
  case (one_more z fs z' e z'')
  then show ?case using sign_run_of.one_more [of lib _ "es @ fs" z' e z''] by simp
qed simp

lemma sign_run_first: "sign_step lib z e z' \<Longrightarrow> sign_run_of lib z' es z'' \<Longrightarrow> sign_run_of lib z (e # es) z''"
  using sign_run_trans [of lib z' es z'' z "[e]"] one_more [OF no_step, of lib z e z'] by simp

section \<open>A call alone is a run\<close>

text \<open>Clearing the words that are left.\<close>

lemma clear_run:
  "P t = CloseClear j \<Longrightarrow> j \<le> length (key_words s) \<Longrightarrow>
    sign_run_of lib (s, P) (replicate (Suc (length (key_words s) - j)) Quiet)
      (s\<lparr>key_words := take j (key_words s) @ replicate (length (key_words s) - j) 0\<rparr>, P(t := CloseStore))"
proof (induction "length (key_words s) - j" arbitrary: j s P)
  case 0
  then have "length (key_words s) = j" by simp
  with one_more [OF no_step clear_end [of P t j s lib, OF 0(2)]] show ?case by (simp add: fun_upd_def)
next
  case (Suc n)
  let ?s = "s\<lparr>key_words := (key_words s)[j := 0]\<rparr>"
  from Suc.hyps(2) have j: "j < length (key_words s)" by simp
  then have n: "length (key_words s) - j = Suc (length (key_words ?s) - Suc j)" by simp
  have words: "take (Suc j) ((key_words s)[j := 0]) @ replicate m 0 = take j (key_words s) @ 0 # replicate m 0" for m
    using j by (simp add: take_Suc_conv_app_nth)
  from Suc.hyps(2) j have "n = length (key_words ?s) - Suc j" by simp
  from Suc.hyps(1) [OF this, of "P(t := CloseClear (Suc j))"] j
  have "sign_run_of lib (?s, P(t := CloseClear (Suc j))) (replicate (Suc (length (key_words ?s) - Suc j)) Quiet)
    (?s\<lparr>key_words := take (Suc j) (key_words ?s) @ replicate (length (key_words ?s) - Suc j) 0\<rparr>, P(t := CloseStore))"
    by simp
  from sign_run_first [OF clear_word [of P t, OF Suc.prems(1) j] this] show ?case
    unfolding n by (simp add: words)
qed

definition cleared :: "'key EnvSigner \<Rightarrow> 'key EnvSigner" where
  "cleared s = s\<lparr>key_words := map (\<lambda>_. 0) (key_words s)\<rparr>"

lemma close_run_to_store:
  assumes "P t = CloseBits" and "key s \<noteq> None"
  shows "\<exists>n. sign_run_of lib (s, P) (replicate n Quiet) (cleared s, P(t := CloseStore))"
proof -
  from clear_run [of "P(t := CloseClear 0)" t 0 s lib]
  have "sign_run_of lib (s, P(t := CloseClear 0)) (replicate (Suc (length (key_words s))) Quiet) (cleared s, P(t := CloseStore))"
    by (simp add: cleared_def map_replicate_const)
  from sign_run_first [OF close_bits [of P t, OF assms] this] show ?thesis
    by (intro exI [of _ "Suc (Suc (length (key_words s)))"]) simp
qed

lemma close_run:
  assumes "P t = CloseBits" and "key s \<noteq> None"
  shows "\<exists>n. sign_run_of lib (s, P) (replicate n Quiet @ [Closed t]) ((cleared s)\<lparr>key := None\<rparr>, P(t := Out))"
proof -
  from close_run_to_store [of P t, OF assms] obtain n
    where n: "sign_run_of lib (s, P) (replicate n Quiet) (cleared s, P(t := CloseStore))" by blast
  from one_more [OF n close_store [of _ t]] show ?thesis by (intro exI [of _ n]) simp
qed

lemma Close_is_run:
  assumes "P t = Out" and "EnvSigner_Close s = Some (r, s')"
  shows "\<exists>n. sign_run_of lib (s, P) (replicate n Quiet @ [Closed t]) (s', P)"
proof -
  have P: "P(t := Out) = P" using assms(1) by (simp add: fun_upd_idem)
  note call = call_close [of P t lib s, OF assms(1)]
  show ?thesis
  proof (cases "key s")
    case None
    with assms(2) have "s' = s" by (simp add: EnvSigner_Close_def)
    with sign_run_first [OF call one_more [OF no_step close_gone [of _ t]]] None P
    have "sign_run_of lib (s, P) (Quiet # [Closed t]) (s', P)" by simp
    then show ?thesis by (intro exI [of _ 1]) simp
  next
    case (Some k)
    then have live: "key s \<noteq> None" by simp
    from close_run [of "P(t := CloseBits)" t s lib] live obtain n where
      n: "sign_run_of lib (s, P(t := CloseBits)) (replicate n Quiet @ [Closed t]) ((cleared s)\<lparr>key := None\<rparr>, P)"
      by (auto simp: P)
    have "sign_step lib (s, P(t := CloseTest)) Quiet (s, P(t := CloseD))"
      and "sign_step lib (s, P(t := CloseD)) Quiet (s, P(t := CloseBits))"
      using close_live [of "P(t := CloseTest)" t s lib] close_D [of "P(t := CloseD)" t s lib] live by simp_all
    note run = sign_run_first [OF call sign_run_first [OF this(1) sign_run_first [OF this(2) n]]]
    have "s' = (cleared s)\<lparr>key := None\<rparr>" using assms(2) Some by (cases s) (auto simp: EnvSigner_Close_def cleared_def)
    with run show ?thesis by (intro exI [of _ "Suc (Suc (Suc n))"]) simp
  qed
qed

text \<open>The library, given the pointer and the words of a key, signs with that key.\<close>

definition signs_with :: "('abi, 'key, 'z) geth_tx_scheme \<Rightarrow> 'key sign_lib \<Rightarrow> bool" where
  "signs_with g lib \<longleftrightarrow> (\<forall>k tx i. lib (Some k) (KeyBits g k) tx i = types_SignTx g tx i k)"

lemma SignTx_is_run:
  assumes g: "signs_with g lib" and "P t = Out" and words: "\<And>k. key s = Some k \<Longrightarrow> key_words s = KeyBits g k"
    and run: "EnvSigner_SignTx g tx i s = Some (r, s')" and np: "\<And>m. r \<noteq> Panic m"
  shows "\<exists>n. sign_run_of lib (s, P) (replicate n Quiet @ [Signed t tx i r]) (s', P)"
proof -
  have P: "P(t := Out) = P" using assms(2) by (simp add: fun_upd_idem)
  note call = call_sign [of P t lib s tx i, OF assms(2)]
  from run have s': "s' = s" by (auto simp: EnvSigner_SignTx_def split: option.splits)
  show ?thesis
  proof (cases "key s")
    case None
    with run have "r = Err closed_error" by (simp add: EnvSigner_SignTx_def closed_error_def)
    with sign_run_first [OF call one_more [OF no_step sign_closed [of _ t]]] None P s'
    have "sign_run_of lib (s, P) (Quiet # [Signed t tx i r]) (s', P)" by simp
    then show ?thesis by (intro exI [of _ 1]) simp
  next
    case (Some k)
    with run have r: "r = sign_result (types_SignTx g tx i k)" by (simp add: EnvSigner_SignTx_def sign_result_def)
    with np have "types_SignTx g tx i k \<noteq> Panic m" for m by (metis chkR.simps(3) sign_result_def)
    then have sign: "sign_step lib (s, P(t := SignRun tx i (key s))) (Signed t tx i r) (s, P)"
      using sign_run [of "P(t := SignRun tx i (key s))" t tx i "key s" lib s "types_SignTx g tx i k"] g words [OF Some] Some r
      by (simp add: signs_with_def P)
    have "sign_step lib (s, P(t := SignTest tx i)) Quiet (s, P(t := SignLoad tx i))"
      and "sign_step lib (s, P(t := SignLoad tx i)) Quiet (s, P(t := SignRun tx i (key s)))"
      using sign_live [of "P(t := SignTest tx i)" t tx i s lib] sign_load [of "P(t := SignLoad tx i)" t tx i lib s] Some by simp_all
    note run = sign_run_first [OF call sign_run_first [OF this(1) sign_run_first [OF this(2) one_more [OF no_step sign]]]]
    then show ?thesis by (intro exI [of _ 3]) (simp add: numeral_3_eq_3 s')
  qed
qed

section \<open>After Close\<close>

text \<open>
  The pointer goes only after the words: a goroutine that clears them has cleared those before its
  index, and a word that is zero stays zero.
\<close>

definition zero_below :: "nat \<Rightarrow> 'key EnvSigner \<Rightarrow> bool" where
  "zero_below j s \<longleftrightarrow> (\<forall>i < j. i < length (key_words s) \<longrightarrow> key_words s ! i = 0)"

fun clears_ok :: "'key EnvSigner \<Rightarrow> 'key spc \<Rightarrow> bool" where
  "clears_ok s (CloseClear j) = zero_below j s"
| "clears_ok s CloseStore = zero_below (length (key_words s)) s"
| "clears_ok s _ = True"

definition signer_inv :: "'key signers \<Rightarrow> bool" where
  "signer_inv = (\<lambda>(s, P). (key s = None \<longrightarrow> zero_below (length (key_words s)) s) \<and> (\<forall>t. clears_ok s (P t)))"

lemma zero_below_wiped: "key s = None \<Longrightarrow> zero_below (length (key_words s)) s \<Longrightarrow> wiped s"
  by (auto simp: zero_below_def wiped_def in_set_conv_nth)

lemma zero_below_clear:
  "zero_below m s \<Longrightarrow> zero_below m (s\<lparr>key_words := (key_words s)[j := 0]\<rparr>)"
  "zero_below j s \<Longrightarrow> zero_below (Suc j) (s\<lparr>key_words := (key_words s)[j := 0]\<rparr>)"
  by (cases "j < length (key_words s)"; auto simp: zero_below_def nth_list_update less_Suc_eq)+

lemma zero_below_le: "zero_below j s \<Longrightarrow> m \<le> j \<Longrightarrow> zero_below m s"
  by (simp add: zero_below_def)

lemma clears_ok_clear: "clears_ok s p \<Longrightarrow> clears_ok (s\<lparr>key_words := (key_words s)[j := 0]\<rparr>) p"
  by (cases p) (simp_all add: zero_below_clear)

lemma clears_ok_key: "clears_ok (s\<lparr>key := k\<rparr>) p = clears_ok s p"
  by (cases p) (simp_all add: zero_below_def)

lemma signer_inv_move: "signer_inv (s, P) \<Longrightarrow> clears_ok s p \<Longrightarrow> signer_inv (s, P(t := p))"
  by (simp add: signer_inv_def)

lemma sign_step_inv: "sign_step lib z e z' \<Longrightarrow> signer_inv z \<Longrightarrow> signer_inv z'"
proof (induction rule: sign_step.induct)
  case (clear_word P t j s)
  then have "clears_ok s (CloseClear j)" unfolding signer_inv_def by (metis case_prod_conv)
  with clear_word show ?case by (simp add: signer_inv_def zero_below_clear clears_ok_clear)
next
  case (clear_end P t j s)
  then have "clears_ok s (CloseClear j)" unfolding signer_inv_def by (metis case_prod_conv)
  with clear_end show ?case by (intro signer_inv_move) (auto intro: zero_below_le)
next
  case (close_store P t s)
  then have "clears_ok s CloseStore" unfolding signer_inv_def by (metis case_prod_conv)
  with close_store show ?case by (simp add: signer_inv_def clears_ok_key) (simp add: zero_below_def)
qed (erule signer_inv_move; simp add: zero_below_def)+

lemma sign_run_inv: "sign_run_of lib z es z' \<Longrightarrow> signer_inv z \<Longrightarrow> signer_inv z'"
  by (induction rule: sign_run_of.induct) (auto dest: sign_step_inv)

lemma fresh_inv: "signer_inv (fresh g k)"
  by (simp add: fresh_def signer_inv_def signer_of_key_def)

text \<open>A nil pointer stays nil, and a \<open>Close\<close> that returns leaves one.\<close>

lemma step_keeps_nil: "sign_step lib z e z' \<Longrightarrow> key (fst z) = None \<Longrightarrow> key (fst z') = None"
  by (induction rule: sign_step.induct) simp_all

lemma run_keeps_nil: "sign_run_of lib z es z' \<Longrightarrow> key (fst z) = None \<Longrightarrow> key (fst z') = None"
  by (induction rule: sign_run_of.induct) (auto dest: step_keeps_nil)

lemma step_closed_nil: "sign_step lib z e z' \<Longrightarrow> e = Closed t \<Longrightarrow> key (fst z') = None"
  by (induction rule: sign_step.induct) simp_all

lemma run_closed_nil: "sign_run_of lib z es z' \<Longrightarrow> Closed t \<in> set es \<Longrightarrow> key (fst z') = None"
  by (induction rule: sign_run_of.induct) (auto dest: step_closed_nil step_keeps_nil)

text \<open>A goroutine past the test of \<open>SignTx\<close>, and why no other signs once the pointer is nil.\<close>

definition past_test :: "transaction \<Rightarrow> int option \<Rightarrow> 'key spc \<Rightarrow> bool" where
  "past_test tx i p \<longleftrightarrow> p = SignLoad tx i \<or> (\<exists>k. p = SignRun tx i k)"

lemma past_test_simps [simp]:
  "past_test tx i (SignLoad tx' i') \<longleftrightarrow> tx' = tx \<and> i' = i" "past_test tx i (SignRun tx' i' k) \<longleftrightarrow> tx' = tx \<and> i' = i"
  "\<not> past_test tx i Out" "\<not> past_test tx i (SignTest tx' i')" "\<not> past_test tx i CloseTest" "\<not> past_test tx i CloseD"
  "\<not> past_test tx i CloseBits" "\<not> past_test tx i (CloseClear j)" "\<not> past_test tx i CloseStore" "\<not> past_test tx i Dead"
  by (auto simp: past_test_def)

lemma nil_step:
  "sign_step lib z e z' \<Longrightarrow> key (fst z) = None \<Longrightarrow> past_test tx i (snd z' u) \<Longrightarrow> past_test tx i (snd z u)"
  by (induction rule: sign_step.induct) (auto split: if_splits)

lemma nil_run:
  "sign_run_of lib z es z' \<Longrightarrow> key (fst z) = None \<Longrightarrow> past_test tx i (snd z' u) \<Longrightarrow> past_test tx i (snd z u)"
  by (induction rule: sign_run_of.induct) (auto dest: nil_step run_keeps_nil)

lemma nil_step_signed:
  "sign_step lib z e z' \<Longrightarrow> key (fst z) = None \<Longrightarrow> e = Signed u tx i r \<Longrightarrow> r = Err closed_error \<or> past_test tx i (snd z u)"
  by (induction rule: sign_step.induct) auto

lemma nil_run_signed:
  "sign_run_of lib z es z' \<Longrightarrow> key (fst z) = None \<Longrightarrow> Signed u tx i r \<in> set es \<Longrightarrow>
    r = Err closed_error \<or> past_test tx i (snd z u)"
proof (induction rule: sign_run_of.induct)
  case (one_more z es z' e z'')
  note nil = run_keeps_nil [OF one_more.hyps(1) one_more.prems(1)]
  from one_more.prems(2) consider "Signed u tx i r \<in> set es" | "e = Signed u tx i r" by auto
  then show ?case
  proof cases
    case 1
    with one_more show ?thesis by blast
  next
    case 2
    with nil_step_signed [OF one_more.hyps(2) nil] nil_run [OF one_more.hyps(1) one_more.prems(1)] show ?thesis by blast
  qed
qed simp

text \<open>
  C24: goroutines call \<open>SignTx\<close> and \<open>Close\<close> of one signer at once, in any interleaving. When a \<open>Close\<close>
  has returned, the pointer and every word of the key are gone, and a \<open>SignTx\<close> that returns later
  fails with the error of a closed signer, unless it had already passed its test of the pointer.
\<close>

theorem concurrent_signer_closed:
  assumes "sign_run_of lib (fresh g k) es (s, P)" and "Closed t \<in> set es" and "sign_run_of lib (s, P) es' z"
    and "Signed u tx i r \<in> set es'"
  shows "wiped s \<and> (r = Err closed_error \<or> P u = SignLoad tx i \<or> (\<exists>p. P u = SignRun tx i p))"
proof -
  from run_closed_nil [OF assms(1,2)] have nil: "key s = None" by simp
  with sign_run_inv [OF assms(1) fresh_inv] have "wiped s" by (simp add: signer_inv_def zero_below_wiped)
  with nil_run_signed [OF assms(3) _ assms(4)] nil show ?thesis by (simp add: past_test_def)
qed

text \<open>What the library does with the pointer of an intact key, and fails with otherwise.\<close>

definition demo_lib :: "nat sign_lib" where
  "demo_lib p ws tx i = (case p of None \<Rightarrow> Err (errmsg ''no key'') | Some k \<Rightarrow> types_SignTx demo_tx tx i k)"

theorem concurrent_signer_closed_witness:
  "\<exists>es s P es' z. sign_run_of demo_lib (fresh demo_tx 3) es (s, P) \<and> Closed 0 \<in> set es \<and> sign_run_of demo_lib (s, P) es' z \<and>
     Signed 1 (LegacyTx 5 None 6 7 0 []) (Some 1) (Err closed_error) \<in> set es' \<and> wiped s"
proof -
  let ?tx = "LegacyTx 5 None 6 7 0 []" and ?s = "(cleared (signer_of_key demo_tx 3))\<lparr>key := None\<rparr>" and ?P = "\<lambda>_. Out"
  have "EnvSigner_Close (signer_of_key demo_tx 3) = Some (Ok (), ?s)"
    by (simp add: EnvSigner_Close_def signer_of_key_def cleared_def)
  from Close_is_run [of ?P 0, OF _ this, of demo_lib] obtain n
    where close: "sign_run_of demo_lib (fresh demo_tx 3) (replicate n Quiet @ [Closed 0]) (?s, ?P)" by (auto simp: fresh_def)
  have "signs_with demo_tx demo_lib" by (simp add: signs_with_def demo_lib_def)
  moreover have "EnvSigner_SignTx demo_tx ?tx (Some 1) ?s = Some (Err closed_error, ?s)"
    by (simp add: EnvSigner_SignTx_def closed_error_def)
  ultimately obtain m where sign: "sign_run_of demo_lib (?s, ?P) (replicate m Quiet @ [Signed 1 ?tx (Some 1) (Err closed_error)]) (?s, ?P)"
    using SignTx_is_run [of demo_tx demo_lib ?P 1 ?s ?tx "Some 1" "Err closed_error" ?s] by auto
  from concurrent_signer_closed [OF close _ sign, of 0 1 ?tx "Some 1" "Err closed_error"] have "wiped ?s" by simp
  with close sign show ?thesis by (intro exI conjI) (assumption | simp)+
qed

section \<open>Before Close\<close>

text \<open>The words only ever lose their value; as long as they have it, the pointer that is read is the key's.\<close>

definition fades :: "u64 list \<Rightarrow> u64 list \<Rightarrow> bool" where
  "fades xs ys \<longleftrightarrow> length ys = length xs \<and> (\<forall>j < length xs. ys ! j = xs ! j \<or> ys ! j = 0)"

lemma fades_refl: "fades xs xs"
  by (simp add: fades_def)

lemma fades_trans: "fades xs ys \<Longrightarrow> fades ys zs \<Longrightarrow> fades xs zs"
  unfolding fades_def by metis

lemma fades_back: "fades xs ys \<Longrightarrow> fades ys xs \<Longrightarrow> xs = ys"
  unfolding fades_def by (metis nth_equalityI)

lemma step_fades: "sign_step lib z e z' \<Longrightarrow> fades (key_words (fst z)) (key_words (fst z'))"
  by (induction rule: sign_step.induct) (auto simp: fades_def nth_list_update)

lemma run_fades: "sign_run_of lib z es z' \<Longrightarrow> fades (key_words (fst z)) (key_words (fst z'))"
  by (induction rule: sign_run_of.induct) (auto intro: fades_refl fades_trans dest: step_fades)

definition holds_key :: "'key \<Rightarrow> 'key signers \<Rightarrow> bool" where
  "holds_key k = (\<lambda>(s, P). key s = Some k \<and> (\<forall>t tx i p. P t = SignRun tx i p \<longrightarrow> p = Some k))"

lemma holds_key_step: "sign_step lib z e z' \<Longrightarrow> holds_key k z \<Longrightarrow> key (fst z') \<noteq> None \<Longrightarrow> holds_key k z'"
  by (induction rule: sign_step.induct; auto simp: holds_key_def; metis option.inject)

lemma holds_key_signed:
  "sign_step lib z e z' \<Longrightarrow> holds_key k z \<Longrightarrow> e = Signed u tx i r \<Longrightarrow>
    r = sign_result (lib (Some k) (key_words (fst z)) tx i)"
  by (induction rule: sign_step.induct) (auto simp: holds_key_def)

text \<open>
  As long as \<open>Close\<close> has neither cleared a word nor reset the pointer, every \<open>SignTx\<close> returned what a
  call alone returns, however many ran at once.
\<close>

theorem signing_undisturbed:
  assumes run: "sign_run_of lib (fresh g k) es z" and g: "signs_with g lib" and "key (fst z) \<noteq> None"
    and "key_words (fst z) = KeyBits g k"
  shows "holds_key k z \<and>
    (\<forall>u tx i r. Signed u tx i r \<in> set es \<longrightarrow> EnvSigner_SignTx g tx i (signer_of_key g k) = Some (r, signer_of_key g k))"
  using assms(1,3,4)
proof (induction "fresh g k" es z rule: sign_run_of.induct)
  case no_step
  then show ?case by (simp add: holds_key_def fresh_def signer_of_key_def)
next
  case (one_more es z e z')
  from one_more.hyps(3) one_more.prems(1) have key: "key (fst z) \<noteq> None" by (metis step_keeps_nil)
  have "fades (KeyBits g k) (key_words (fst z))"
    using run_fades [OF one_more.hyps(1)] by (simp add: fresh_def signer_of_key_def)
  moreover have "fades (key_words (fst z)) (KeyBits g k)"
    using step_fades [OF one_more.hyps(3)] one_more.prems(2) by simp
  ultimately have words: "key_words (fst z) = KeyBits g k" by (metis fades_back)
  note IH = one_more.hyps(2) [OF key words]
  have "EnvSigner_SignTx g tx i (signer_of_key g k) = Some (r, signer_of_key g k)" if "e = Signed u tx i r" for u tx i r
    using holds_key_signed [OF one_more.hyps(3) conjunct1 [OF IH] that] g words
    by (simp add: EnvSigner_SignTx_def signer_of_key_def sign_result_def signs_with_def)
  with IH holds_key_step [OF one_more.hyps(3)] one_more.prems(1) show ?case by auto
qed

section \<open>What the tests do not exclude\<close>

lemma close_between:
  assumes "sign_run_of lib z es (signer_of_key g k, P)" and "P t = Out"
  shows "\<exists>es' s. sign_run_of lib z es' (s, P) \<and> Closed t \<in> set es' \<and> key s = None \<and> key_words s = map (\<lambda>_. 0) (KeyBits g k)"
proof -
  let ?s = "(cleared (signer_of_key g k))\<lparr>key := None\<rparr>"
  have "EnvSigner_Close (signer_of_key g k) = Some (Ok (), ?s)"
    by (simp add: EnvSigner_Close_def signer_of_key_def cleared_def)
  from Close_is_run [of P t, OF assms(2) this, of lib] obtain n
    where "sign_run_of lib (signer_of_key g k, P) (replicate n Quiet @ [Closed t]) (?s, P)" by blast
  from sign_run_trans [OF this assms(1)] show ?thesis
    by (intro exI [of _ "es @ replicate n Quiet @ [Closed t]"] exI [of _ ?s]) (simp add: cleared_def signer_of_key_def)
qed

lemma reach_sign_load:
  "sign_run_of lib (fresh g k) [Quiet, Quiet] (signer_of_key g k, (\<lambda>_. Out)(t := SignLoad tx i))"
proof -
  have "sign_step lib (signer_of_key g k, (\<lambda>_. Out)(t := SignTest tx i)) Quiet (signer_of_key g k, (\<lambda>_. Out)(t := SignLoad tx i))"
    using sign_live [of "(\<lambda>_. Out)(t := SignTest tx i)" t tx i "signer_of_key g k" lib] by (simp add: signer_of_key_def)
  from sign_run_first [OF call_sign [of "\<lambda>_. Out" t lib "signer_of_key g k" tx i] one_more [OF no_step this]] show ?thesis
    by (simp add: fresh_def)
qed

lemma reach_close_D:
  "sign_run_of lib (fresh g k) [Quiet, Quiet] (signer_of_key g k, (\<lambda>_. Out)(t := CloseD))"
proof -
  have "sign_step lib (signer_of_key g k, (\<lambda>_. Out)(t := CloseTest)) Quiet (signer_of_key g k, (\<lambda>_. Out)(t := CloseD))"
    using close_live [of "(\<lambda>_. Out)(t := CloseTest)" t "signer_of_key g k" lib] by (simp add: signer_of_key_def)
  from sign_run_first [OF call_close [of "\<lambda>_. Out" t lib "signer_of_key g k"] one_more [OF no_step this]] show ?thesis
    by (simp add: fresh_def)
qed

text \<open>
  C25: the limit of the guarantee. Two \<open>Close\<close> at once can end in a nil dereference. A \<open>SignTx\<close> that has
  passed its test can go on to call \<open>types.SignTx\<close> with a nil pointer, or with a key all of whose
  words have been cleared.
\<close>

theorem close_races:
  "(\<exists>es z. sign_run_of lib (fresh g k) es z \<and> Closed 0 \<in> set es \<and> Crash 1 \<in> set es) \<and>
   (\<exists>es s P. sign_run_of lib (fresh g k) es (s, P) \<and> Closed 0 \<in> set es \<and> P 1 = SignRun tx i None) \<and>
   (\<exists>es s P. sign_run_of lib (fresh g k) es (s, P) \<and> P 1 = SignRun tx i (Some k) \<and> key_words s = map (\<lambda>_. 0) (KeyBits g k))"
proof (intro conjI)
  from close_between [OF reach_close_D [of lib g k 1], of 0] obtain es s
    where es: "sign_run_of lib (fresh g k) es (s, (\<lambda>_. Out)(1 := CloseD))" "Closed 0 \<in> set es" "key s = None" by auto
  from one_more [OF es(1) close_nil [of "(\<lambda>_. Out)(1 := CloseD)" 1 s lib]] es(2,3)
  show "\<exists>es z. sign_run_of lib (fresh g k) es z \<and> Closed 0 \<in> set es \<and> Crash 1 \<in> set es" by fastforce
next
  from close_between [OF reach_sign_load [of lib g k 1 tx i], of 0] obtain es s
    where es: "sign_run_of lib (fresh g k) es (s, (\<lambda>_. Out)(1 := SignLoad tx i))" "Closed 0 \<in> set es" "key s = None" by auto
  from one_more [OF es(1) sign_load [of "(\<lambda>_. Out)(1 := SignLoad tx i)" 1 tx i lib s]] es(2,3)
  show "\<exists>es s P. sign_run_of lib (fresh g k) es (s, P) \<and> Closed 0 \<in> set es \<and> P 1 = SignRun tx i None" by fastforce
next
  have "sign_run_of lib (fresh g k) [Quiet, Quiet, Quiet] (signer_of_key g k, (\<lambda>_. Out)(1 := SignRun tx i (Some k)))"
    using one_more [OF reach_sign_load [of lib g k 1 tx i] sign_load [of "(\<lambda>_. Out)(1 := SignLoad tx i)" 1 tx i lib]]
    by (simp add: signer_of_key_def)
  from close_between [OF this, of 0] obtain es s
    where "sign_run_of lib (fresh g k) es (s, (\<lambda>_. Out)(1 := SignRun tx i (Some k)))" "key_words s = map (\<lambda>_. 0) (KeyBits g k)" by auto
  then show "\<exists>es s P. sign_run_of lib (fresh g k) es (s, P) \<and> P 1 = SignRun tx i (Some k) \<and> key_words s = map (\<lambda>_. 0) (KeyBits g k)"
    by fastforce
qed

end
