(* ===== verification/SafeClient.thy ===== *)
theory SafeClient
  imports TxWait Embedded Validate LocalNonce "HOL-Library.AList"
begin

text \<open>
  \<open>pkg/safe\<close>: the options of a client, \<open>New\<close>, and the methods of the client over the transaction
  manager; \<open>RandomSalt\<close>. The methods work on the version's deployment in the shared registry.
\<close>

section \<open>State\<close>

text \<open>
  The world of the package: the registry of versions, whose deployments all clients share, the
  registry of chains, and the world \<open>'w\<close> outside.
\<close>

record ('abi, 'w) safe_world =
  versions :: "'abi version_registry"
  chains :: chain_registry
  world :: 'w

text \<open>
  A nonce manager given to \<open>New\<close>: the manager and, if it is an \<open>Initable\<close>, its method \<open>Init\<close>.
  The JSON-RPC client is also the source of nonces; \<open>'src\<close> is that view of it.
\<close>

record ('w, 's, 'ctx, 'src) nonce_value =
  nv_manager :: "('w, 's, 'ctx) manager"
  nv_Init :: "('src \<Rightarrow> int option \<Rightarrow> address \<Rightarrow> ('w, unit) prog) option"

record ('w, 's, 'ctx, 'src) Options =
  opt_Chain :: "chain option"
  opt_Client :: "(('w, 'ctx) eth_client \<times> 'src) option"
  opt_Signer :: "('w, 'ctx) signer option"
  opt_Version :: string
  NonceManager :: "('w, 's, 'ctx, 'src) nonce_value option"
  DeployTimeout :: int
  opt_GasMultiplier :: float64
  ReceiptPollInterval :: int

definition defaultDeployTimeout :: int where "defaultDeployTimeout = 2 * 60 * 1000000000"
definition defaultReceiptPollInterval :: int where "defaultReceiptPollInterval = 2 * 1000000000"

definition opt_validate :: "('w, 's, 'ctx, 'src) Options \<Rightarrow> unit result" where
  "opt_validate o' =
     (if opt_Chain o' = None then Err (errmsg ''chain is required'')
      else if opt_Client o' = None then Err (errmsg ''client is required'')
      else if opt_Signer o' = None then Err (errmsg ''signer is required'')
      else if opt_Version o' = [] then Err (errmsg ''version is required'')
      else Ok ())"

definition opt_deployTimeout :: "('w, 's, 'ctx, 'src) Options \<Rightarrow> int" where
  "opt_deployTimeout o' = (if DeployTimeout o' \<le> 0 then defaultDeployTimeout else DeployTimeout o')"

definition opt_gasMultiplier :: "('w, 's, 'ctx, 'src) Options \<Rightarrow> float64" where
  "opt_gasMultiplier o' = (if opt_GasMultiplier o' \<le> 0 then defaultGasMultiplier else opt_GasMultiplier o')"

definition opt_receiptPollInterval :: "('w, 's, 'ctx, 'src) Options \<Rightarrow> int" where
  "opt_receiptPollInterval o' = (if ReceiptPollInterval o' \<le> 0 then defaultReceiptPollInterval else ReceiptPollInterval o')"

text \<open>The client; \<open>c_version\<close> is the key of its deployment in the registry.\<close>

record ('w, 's, 'ctx, 'src) client =
  c_chain :: chain
  c_txManager :: "('w, 's, 'ctx) TxManager"
  c_version :: string
  c_opts :: "('w, 's, 'ctx, 'src) Options"

record DeployResult =
  dr_SafeAddress :: address
  dr_TxHash :: hash
  dr_BlockNumber :: u64
  dr_GasUsed :: u64

text \<open>A call on the deployment of a version, and a call on the world outside.\<close>

definition on_version :: "string \<Rightarrow> (('abi, 'w) tx_world, 'a) prog \<Rightarrow> (('abi, 'w) safe_world, 'a) prog" where
  "on_version v m w =
     (case map_of (versions w) v of
        None \<Rightarrow> Some (Panic ''nil pointer dereference'', w)
      | Some d \<Rightarrow>
          (case m \<lparr>deployment = d, chain_reg = chains w, outer = world w\<rparr> of
             None \<Rightarrow> None
           | Some (r, t) \<Rightarrow>
               Some (r, w\<lparr>versions := AList.update v (deployment t) (versions w), chains := chain_reg t, world := outer t\<rparr>)))"

definition on_world :: "('w, 'a) prog \<Rightarrow> (('abi, 'w) safe_world, 'a) prog" where
  "on_world m w = (case m (world w) of None \<Rightarrow> None | Some (r, v) \<Rightarrow> Some (r, w\<lparr>world := v\<rparr>))"

section \<open>New\<close>

definition get_version :: "string \<Rightarrow> (('abi, 'w) safe_world, unit) prog" where
  "get_version v w = Some (chkR (Get v (versions w)) Err (\<lambda>_. Ok ()), w)"

definition not_on_chain :: "string \<Rightarrow> chain \<Rightarrow> gerr \<Rightarrow> (('abi, 'w) safe_world, 'a) prog" where
  "not_on_chain v c e =
     (if errors_is e ErrVersionNotOnChain
      then gfail (Errorf ''%w: version %s is not deployed on chain %s'' [EStr v, EStr (Name c)] [ErrVersionNotOnChain])
      else gfail e)"

text \<open>\<open>local_New\<close> is \<open>local.NewNonceManager(local.Options{})\<close>.\<close>

definition New ::
  "('abi, 'z) geth_scheme \<Rightarrow> ('w, ('w, 's, 'ctx, 'src) nonce_value) prog \<Rightarrow> ('w, 's, 'ctx, 'src) Options \<Rightarrow>
     (('abi, 'w) safe_world, ('w, 's, 'ctx, 'src) client) prog" where
  "New g local_New opts =
     (case opt_validate opts of
        Err e \<Rightarrow> gfail e
      | Panic p \<Rightarrow> (\<lambda>w. Some (Panic p, w))
      | Ok _ \<Rightarrow>
          (let c = the (opt_Chain opts); v = opt_Version opts; s = the (opt_Signer opts) in
           chk (get_version v)
             (\<lambda>e. if errors_is e ErrUnknownVersion then gfail (Errorf ''%w: %w'' [] [ErrUnknownVersion, e]) else gfail e) (\<lambda>_.
           chk (on_version v (dep (\<lambda>r. ProxyFactory g r (ID c)))) (not_on_chain v c) (\<lambda>_.
           chk (on_version v (dep (\<lambda>r. Singleton g r (ID c) (IsL2 c)))) (not_on_chain v c) (\<lambda>_.
           chk (case NonceManager opts of None \<Rightarrow> on_world local_New | Some nm \<Rightarrow> gret nm) gfail (\<lambda>nm.
           chk (case nv_Init nm of
                  None \<Rightarrow> gret ()
                | Some ini \<Rightarrow> on_world (\<lambda>w. ini (snd (the (opt_Client opts))) (ID c) (signer_Address s w) w))
             (\<lambda>e. gfail (wrapf ''failed to initialise nonce manager: %w'' e)) (\<lambda>_.
           gret \<lparr>c_chain = c,
                 c_txManager = TxManager.New (fst (the (opt_Client opts))) s (nv_manager nm) (opt_receiptPollInterval opts),
                 c_version = v, c_opts = opts\<rparr>)))))))"

section \<open>The methods\<close>

definition safe_input :: "address list \<Rightarrow> byte \<Rightarrow> byte list \<Rightarrow> predict_Input" where
  "safe_input owners threshold salt = \<lparr>Owners = owners, Threshold = threshold, Salt = salt\<rparr>"

definition validated :: "address list \<Rightarrow> byte \<Rightarrow> (('abi, 'w) safe_world, 'a) prog \<Rightarrow> (('abi, 'w) safe_world, 'a) prog" where
  "validated owners threshold m =
     (case validateSafeConfig owners threshold of Ok _ \<Rightarrow> m | Err e \<Rightarrow> gfail e | Panic p \<Rightarrow> (\<lambda>w. Some (Panic p, w)))"

definition PredictAddress ::
  "('abi, 'z) geth_scheme \<Rightarrow> 'abi \<Rightarrow> ('w, 's, 'ctx, 'src) client \<Rightarrow> address list \<Rightarrow> byte \<Rightarrow> byte list \<Rightarrow>
     (('abi, 'w) safe_world, address) prog" where
  "PredictAddress g a c owners threshold salt =
     validated owners threshold
       (chk (on_version (c_version c)
              (dep (\<lambda>r. Predict.Address g a r (safe_input owners threshold salt) (ID (c_chain c)) (IsL2 (c_chain c)))))
          gfail gret)"

definition IsDeployed :: "('w, 's, 'ctx, 'src) client \<Rightarrow> 'ctx \<Rightarrow> address \<Rightarrow> (('abi, 'w) safe_world, bool) prog" where
  "IsDeployed c ctx a = on_world (TxManager.IsDeployed (c_txManager c) ctx a)"

definition deploy_result :: "Result \<Rightarrow> DeployResult" where
  "deploy_result r =
     \<lparr>dr_SafeAddress = SafeAddress r, dr_TxHash = ResTxHash r, dr_BlockNumber = ResBlockNumber r, dr_GasUsed = ResGasUsed r\<rparr>"

definition Deploy ::
  "('abi, 'key, 'z) geth_tx_scheme \<Rightarrow> 'abi \<Rightarrow> (float64 \<Rightarrow> u64) \<Rightarrow> ('w, 'ctx) contexts \<Rightarrow> ('w, 's, 'ctx, 'src) client \<Rightarrow> 'ctx \<Rightarrow>
     address list \<Rightarrow> byte \<Rightarrow> byte list \<Rightarrow> (('abi, 'w) safe_world, DeployResult) prog" where
  "Deploy g a impl cs c ctx owners threshold salt =
     validated owners threshold
       (chk (on_version (c_version c)
              (TxManager.Deploy g a impl cs (c_txManager c) ctx (ID (c_chain c)) (IsL2 (c_chain c))
                 (safe_input owners threshold salt)
                 (Some \<lparr>GasMultiplier = opt_gasMultiplier (c_opts c), Timeout = opt_deployTimeout (c_opts c)\<rparr>)))
          (\<lambda>e. gfail (wrapf ''safe: %w'' e)) (\<lambda>r. gret (deploy_result r)))"

definition SubmitDeployment ::
  "('abi, 'key, 'z) geth_tx_scheme \<Rightarrow> 'abi \<Rightarrow> (float64 \<Rightarrow> u64) \<Rightarrow> ('w, 's, 'ctx, 'src) client \<Rightarrow> 'ctx \<Rightarrow>
     address list \<Rightarrow> byte \<Rightarrow> byte list \<Rightarrow> (('abi, 'w) safe_world, hash) prog" where
  "SubmitDeployment g a impl c ctx owners threshold salt =
     validated owners threshold
       (chk (on_version (c_version c)
              (Submit g a impl (c_txManager c) ctx (ID (c_chain c)) (IsL2 (c_chain c)) (safe_input owners threshold salt)
                 (Some \<lparr>GasMultiplier = opt_gasMultiplier (c_opts c), Timeout = 0\<rparr>)))
          (\<lambda>e. gfail (wrapf ''safe: %w'' e)) gret)"

definition WaitForDeployment ::
  "('abi, 'z) geth_scheme \<Rightarrow> 'abi \<Rightarrow> ('w, 'ctx) contexts \<Rightarrow> ('w, 's, 'ctx, 'src) client \<Rightarrow> 'ctx \<Rightarrow>
     address list \<Rightarrow> byte \<Rightarrow> byte list \<Rightarrow> hash \<Rightarrow> (('abi, 'w) safe_world, DeployResult) prog" where
  "WaitForDeployment g a cs c ctx owners threshold salt txHash =
     chk (on_version (c_version c)
            (Wait g a cs (c_txManager c) ctx (ID (c_chain c)) (IsL2 (c_chain c)) (safe_input owners threshold salt) txHash))
       (\<lambda>e. gfail (wrapf ''safe: %w'' e)) (\<lambda>r. gret (deploy_result r))"

definition client_Close :: "('w, 's, 'ctx, 'src) client \<Rightarrow> (('abi, 'w) safe_world, unit) prog" where
  "client_Close c = on_world (TxManager_Close (c_txManager c))"

text \<open>\<open>rand.Read\<close> fills the slice; \<open>read n\<close> is what it leaves in a slice of length \<open>n\<close>.\<close>

definition RandomSalt :: "(nat \<Rightarrow> ('w, byte list) prog) \<Rightarrow> ('w, byte list) prog" where
  "RandomSalt read = chk (read 32) (\<lambda>e. gfail (wrapf ''failed to generate random salt: %w'' e)) gret"

section \<open>The local nonce manager as the default\<close>

definition local_nonce_value :: "('e local_world, nat, 'e ctx, 'e source) nonce_value" where
  "local_nonce_value =
     \<lparr>nv_manager = \<lparr>nm_Acquire = LocalNonce.Acquire, nm_Reset = \<lambda>_. LocalNonce.Reset, resolve_slot = slot_resolve\<rparr>,
      nv_Init = Some (\<lambda>src i a w. case LocalNonce.Init (Some src) i a (mgr w) of (r, m) \<Rightarrow> Some (r, w\<lparr>mgr := m\<rparr>))\<rparr>"

definition local_New :: "('e local_world, ('e local_world, nat, 'e ctx, 'e source) nonce_value) prog" where
  "local_New w = Some (Ok local_nonce_value, w\<lparr>mgr := LocalNonce.NewNonceManager 0, slots := []\<rparr>)"

section \<open>What the methods keep of the registry\<close>

definition registry_ok :: "('abi, 'z) geth_scheme \<Rightarrow> ('abi, 'w) safe_world \<Rightarrow> bool" where
  "registry_ok g w \<longleftrightarrow> (\<forall>v d. map_of (versions w) v = Some d \<longrightarrow> deployment_ok g d)"

definition same_registry :: "('abi, 'z) geth_scheme \<Rightarrow> ('abi, 'w) safe_world \<Rightarrow> ('abi, 'w) safe_world \<Rightarrow> bool" where
  "same_registry g w w' \<longleftrightarrow>
     registry_ok g w' \<and> chains w' = chains w \<and>
     (\<forall>v. rel_option same_files (map_of (versions w) v) (map_of (versions w') v))"

lemma same_registry_refl: "registry_ok g w \<Longrightarrow> same_registry g w w"
  by (simp add: same_registry_def option.rel_refl)

lemma rel_same_files_trans:
  "rel_option same_files x y \<Longrightarrow> rel_option same_files y z \<Longrightarrow> rel_option same_files x z"
  by (cases x; cases y; cases z) (simp_all, erule same_files_trans, assumption)

lemma same_registry_trans: "same_registry g a b \<Longrightarrow> same_registry g b c \<Longrightarrow> same_registry g a c"
proof -
  assume ab: "same_registry g a b" and bc: "same_registry g b c"
  have "rel_option same_files (map_of (versions a) v) (map_of (versions c) v)" for v
  proof (rule rel_same_files_trans)
    show "rel_option same_files (map_of (versions a) v) (map_of (versions b) v)" using ab by (simp add: same_registry_def)
    show "rel_option same_files (map_of (versions b) v) (map_of (versions c) v)" using bc by (simp add: same_registry_def)
  qed
  with ab bc show ?thesis by (simp add: same_registry_def)
qed

definition keeps_registry :: "('abi, 'z) geth_scheme \<Rightarrow> (('abi, 'w) safe_world, 'a) prog \<Rightarrow> bool" where
  "keeps_registry g m \<longleftrightarrow> (\<forall>w r w'. registry_ok g w \<longrightarrow> m w = Some (r, w') \<longrightarrow> same_registry g w w')"

lemma keeps_registryD:
  "keeps_registry g m \<Longrightarrow> registry_ok g w \<Longrightarrow> m w = Some (r, w') \<Longrightarrow> same_registry g w w'"
  unfolding keeps_registry_def by blast

lemma keeps_registry_chk:
  assumes m: "keeps_registry g m" and h: "\<And>e. keeps_registry g (h e)" and k: "\<And>x. keeps_registry g (k x)"
  shows "keeps_registry g (chk m h k)"
proof -
  have ok: "same_registry g w v \<Longrightarrow> registry_ok g v" for w v by (simp add: same_registry_def)
  show ?thesis unfolding keeps_registry_def
    by (intro allI impI) (erule chk_runE;
      blast intro: same_registry_trans ok keeps_registryD [OF m] keeps_registryD [OF h] keeps_registryD [OF k])
qed

lemma on_version_run:
  assumes "map_of (versions w) v = Some d" and "m \<lparr>deployment = d, chain_reg = chains w, outer = world w\<rparr> = Some (r, t)"
  shows "on_version v m w =
    Some (r, w\<lparr>versions := AList.update v (deployment t) (versions w), chains := chain_reg t, world := outer t\<rparr>)"
  using assms by (simp add: on_version_def)

lemma keeps_registry_on_version:
  assumes "keeps_world g m"
  shows "keeps_registry g (on_version v m)"
  unfolding keeps_registry_def
proof (intro allI impI)
  fix w r w'
  assume w: "registry_ok g w" and run: "on_version v m w = Some (r, w')"
  show "same_registry g w w'"
  proof (cases "map_of (versions w) v")
    case None
    with run w show ?thesis by (simp add: on_version_def same_registry_refl)
  next
    case (Some d)
    from w Some have d: "deployment_ok g d" by (simp add: registry_ok_def)
    from run Some obtain t where t: "m \<lparr>deployment = d, chain_reg = chains w, outer = world w\<rparr> = Some (r, t)"
      and w': "w' = w\<lparr>versions := AList.update v (deployment t) (versions w), chains := chain_reg t, world := outer t\<rparr>"
      by (auto simp: on_version_def split: option.splits)
    from keeps_worldD [OF assms _ t] d have same: "deployment_ok g (deployment t)" "same_files d (deployment t)" "chain_reg t = chains w"
      by (simp_all add: same_world_def)
    with w Some show ?thesis
      by (auto simp: same_registry_def registry_ok_def w' update_conv' option.rel_refl)
  qed
qed

lemma keeps_registry_on_world: "keeps_registry g (on_world m)"
  and keeps_registry_gret: "keeps_registry g (gret x)" and keeps_registry_gfail: "keeps_registry g (gfail e)"
  and keeps_registry_panic: "keeps_registry g (\<lambda>w. Some (Panic p, w))"
  and keeps_registry_get_version: "keeps_registry g (get_version v)"
  by (auto simp: keeps_registry_def on_world_def gret_def gfail_def get_version_def same_registry_refl
      same_registry_def registry_ok_def option.rel_refl split: option.splits)

lemma keeps_registry_not_on_chain: "keeps_registry g (not_on_chain v c e)"
  by (simp add: not_on_chain_def keeps_registry_gfail)

lemma keeps_registry_validated: "keeps_registry g m \<Longrightarrow> keeps_registry g (validated owners th m)"
  by (simp add: validated_def keeps_registry_gfail keeps_registry_panic split: result.split)

lemma keeps_registry_if: "keeps_registry g p \<Longrightarrow> keeps_registry g q \<Longrightarrow> keeps_registry g (if b then p else q)"
  by simp

lemmas keeps_registry_rules = keeps_registry_chk keeps_registry_on_version keeps_registry_on_world keeps_registry_gret
  keeps_registry_gfail keeps_registry_panic keeps_registry_get_version keeps_registry_not_on_chain keeps_registry_validated
  keeps_registry_if keeps_world_ProxyFactory keeps_world_Singleton keeps_world_Address keeps_world_Submit keeps_world_Wait keeps_world_Deploy

lemma keeps_registry_New: "keeps_registry g (New g local_New' opts)"
  unfolding New_def Let_def
  by (cases "opt_validate opts"; cases "NonceManager opts")
    (auto intro!: keeps_registry_rules split: option.split)

lemma keeps_registry_Deploy: "geth_laws g \<Longrightarrow> keeps_registry g (Deploy g a impl cs c ctx owners th salt)"
  unfolding Deploy_def by (intro keeps_registry_rules)

text \<open>
  C35: the registry stays well-formed under every operation of the package: the deployments
  registered keep their versions and files, every cache entry is what \<open>Load\<close> returns for its
  chain, no version appears or disappears, and the chain registry is left alone, whether the
  operation succeeds, fails or panics.
\<close>

theorem client_keeps_registry:
  assumes "geth_laws g"
  shows "keeps_registry g (New g fresh opts) \<and> keeps_registry g (PredictAddress g a c owners th salt) \<and>
    keeps_registry g (IsDeployed c ctx addr) \<and> keeps_registry g (Deploy g a impl cs c ctx owners th salt) \<and>
    keeps_registry g (SubmitDeployment g a impl c ctx owners th salt) \<and>
    keeps_registry g (WaitForDeployment g a cs c ctx owners th salt h) \<and> keeps_registry g (client_Close c)"
  unfolding PredictAddress_def IsDeployed_def SubmitDeployment_def WaitForDeployment_def client_Close_def
  by (intro conjI keeps_registry_New keeps_registry_Deploy keeps_registry_rules assms)

section \<open>Deployment and prediction\<close>

text \<open>What a client sees of the world, and the address it predicts.\<close>

definition view :: "string \<Rightarrow> ('abi, 'w) safe_world \<Rightarrow> ('abi, 'w) tx_world" where
  "view v w = \<lparr>deployment = the (map_of (versions w) v), chain_reg = chains w, outer = world w\<rparr>"

definition registered :: "string \<Rightarrow> ('abi, 'w) safe_world \<Rightarrow> bool" where
  "registered v w \<longleftrightarrow> map_of (versions w) v \<noteq> None"

lemma view_ok: "registry_ok g w \<Longrightarrow> registered v w \<Longrightarrow> deployment_ok g (deployment (view v w))"
  by (auto simp: registry_ok_def registered_def view_def)

lemma on_version_view:
  assumes "registered v w"
  shows "on_version v m w =
    (case m (view v w) of
       None \<Rightarrow> None
     | Some (r, t) \<Rightarrow>
         Some (r, w\<lparr>versions := AList.update v (deployment t) (versions w), chains := chain_reg t, world := outer t\<rparr>))"
  using assms by (auto simp: on_version_def registered_def view_def)

lemma on_version_viewI:
  "registered v w \<Longrightarrow> m (view v w) = Some (r, t) \<Longrightarrow> \<exists>w'. on_version v m w = Some (r, w')"
  by (simp add: on_version_view)

lemma same_registry_view:
  assumes "same_registry g w w'" and "registered v w"
  shows "registered v w'" and "predicted g a (view v w') input i l2 = predicted g a (view v w) input i l2"
proof -
  from assms(1) have rel: "rel_option same_files (map_of (versions w) v) (map_of (versions w') v)"
    and ch: "chains w' = chains w" by (simp_all add: same_registry_def)
  from assms(2) obtain d where d: "map_of (versions w) v = Some d" by (auto simp: registered_def)
  with rel obtain d' where d': "map_of (versions w') v = Some d'" and same: "same_files d d'"
    by (auto simp: option_rel_Some1)
  from d' show "registered v w'" by (simp add: registered_def)
  from d d' same ch show "predicted g a (view v w') input i l2 = predicted g a (view v w) input i l2"
    by (simp add: predicted_def predict_reference_def view_def same_files_def)
qed

lemma PredictAddress_run:
  assumes "geth_laws g" and "registry_ok g w" and "registered (c_version c) w" and "ID (c_chain c) = Some i"
    and "validateSafeConfig owners th = Ok ()"
  shows "\<exists>w'. PredictAddress g a c owners th salt w =
    Some (predicted g a (view (c_version c) w) (safe_input owners th salt) (Some i) (IsL2 (c_chain c)), w')"
proof -
  let ?p = "predicted g a (view (c_version c) w) (safe_input owners th salt) (Some i) (IsL2 (c_chain c))"
  let ?m = "dep (\<lambda>r. Predict.Address g a r (safe_input owners th salt) (Some i) (IsL2 (c_chain c)))"
  from dep_Address [OF assms(1) view_ok [OF assms(2,3)], of a "safe_input owners th salt" i "IsL2 (c_chain c)"]
  obtain t where "?m (view (c_version c) w) = Some (?p, t)" by blast
  with on_version_viewI [OF assms(3), of ?m] obtain w' where "on_version (c_version c) ?m w = Some (?p, w')" by blast
  with assms(4,5) show ?thesis
    by (cases ?p) (auto simp: PredictAddress_def validated_def chk_def gfail_def gret_def)
qed

lemma tm_Wait_Ok:
  assumes "geth_laws g" and "deployment_ok g (deployment w)" and "Wait g a cs t ctx (Some i) l2 input h w = Some (Ok res, w')"
  shows "predicted g a w input (Some i) l2 = Ok (SafeAddress res)"
  using iffD1 [OF Wait_Ok_iff [OF assms(1,2)] exI, OF conjI [OF assms(3) refl]] by auto

lemma tm_Deploy_Ok:
  assumes g: "geth_laws g" and ok: "deployment_ok g (deployment w)"
    and run: "TxManager.Deploy g a impl cs t ctx (Some i) l2 input opts w = Some (Ok res, w')"
  shows "predicted g a w input (Some i) l2 = Ok (SafeAddress res)"
proof -
  from run obtain h u tctx where sub: "Submit g a impl t ctx (Some i) l2 input opts w = Some (Ok h, u)"
    and wait: "Wait g a cs t tctx (Some i) l2 input h u = Some (Ok res, w')"
    unfolding TxManager.Deploy_def
    by (auto elim!: chk_OkE simp: extern_def reads_def gfail_def gret_def split: if_splits)
  have same: "same_world g w u" by (rule keeps_worldD [OF keeps_world_Submit [OF g] ok sub])
  then have "deployment_ok g (deployment u)" by (simp add: same_world_def)
  from tm_Wait_Ok [OF g this wait] same_world_files(3) [OF same] show ?thesis by simp
qed

lemma Deploy_Ok_config: "Deploy g a impl cs c ctx owners th salt w = Some (Ok res, w') \<Longrightarrow> validateSafeConfig owners th = Ok ()"
  by (cases "validateSafeConfig owners th") (auto simp: Deploy_def validated_def gfail_def)

lemma Deploy_address:
  assumes g: "geth_laws g" and ok: "registry_ok g w" and c: "registered (c_version c) w" and j: "ID (c_chain c) = Some j"
    and run: "Deploy g a impl cs c ctx owners th salt w = Some (Ok res, w')"
  shows "predicted g a (view (c_version c) w) (safe_input owners th salt) (Some j) (IsL2 (c_chain c)) = Ok (dr_SafeAddress res)"
proof -
  let ?m = "TxManager.Deploy g a impl cs (c_txManager c) ctx (Some j) (IsL2 (c_chain c)) (safe_input owners th salt)
    (Some \<lparr>GasMultiplier = opt_gasMultiplier (c_opts c), Timeout = opt_deployTimeout (c_opts c)\<rparr>)"
  from run Deploy_Ok_config [OF run] obtain r z where "on_version (c_version c) ?m w = Some (Ok r, z)" and res: "res = deploy_result r"
    by (auto simp: Deploy_def validated_def j gfail_def gret_def elim!: chk_OkE)
  then obtain t where "?m (view (c_version c) w) = Some (Ok r, t)" by (auto simp: on_version_view [OF c] split: option.splits)
  from tm_Deploy_Ok [OF g view_ok [OF ok c] this] show ?thesis by (simp add: res deploy_result_def)
qed

text \<open>
  The address of a deployment is the address that was predicted. If \<open>Deploy\<close> returns a
  result, \<open>PredictAddress\<close> on the same configuration returns the address in it, and does so before
  the deployment and after it.
\<close>

theorem deploy_matches_prediction:
  assumes g: "geth_laws g" and ok: "registry_ok g w" and c: "registered (c_version c) w" and i: "ID (c_chain c) \<noteq> None"
    and run: "Deploy g a impl cs c ctx owners th salt w = Some (Ok res, w')"
  shows "(\<exists>u. PredictAddress g a c owners th salt w = Some (Ok (dr_SafeAddress res), u)) \<and>
    (\<exists>u. PredictAddress g a c owners th salt w' = Some (Ok (dr_SafeAddress res), u))"
proof -
  from i obtain j where j: "ID (c_chain c) = Some j" by blast
  note valid = Deploy_Ok_config [OF run] and p = Deploy_address [OF g ok c j run]
  have same: "same_registry g w w'"
    by (rule keeps_registryD [OF keeps_registry_Deploy [OF g] ok run])
  from same have ok': "registry_ok g w'" by (simp add: same_registry_def)
  from PredictAddress_run [OF g ok c j valid, of a salt]
    PredictAddress_run [OF g ok' same_registry_view(1) [OF same c] j valid, of a salt]
    same_registry_view(2) [OF same c] p show ?thesis by simp
qed

section \<open>Deploy as Submit and Wait\<close>

lemma update_update: "AList.update k y (AList.update k x r) = AList.update k y r"
  by (induction r) auto

lemma on_version_gret: "map_of (versions w) v = Some d \<Longrightarrow> on_version v (gret x) w = Some (Ok x, w)"
  by (cases w) (auto simp: on_version_def gret_def update_nonempty update_triv)

lemma on_version_chk: "on_version v (chk m h k) = chk (on_version v m) (\<lambda>e. on_version v (h e)) (\<lambda>x. on_version v (k x))"
proof
  fix w
  show "on_version v (chk m h k) w = chk (on_version v m) (\<lambda>e. on_version v (h e)) (\<lambda>x. on_version v (k x)) w"
  proof (cases "map_of (versions w) v")
    case None
    then show ?thesis by (simp add: on_version_def chk_def)
  next
    case (Some d)
    show ?thesis
    proof (cases "m \<lparr>deployment = d, chain_reg = chains w, outer = world w\<rparr>")
      case None
      with Some show ?thesis by (simp add: on_version_def chk_def)
    next
      case run: (Some rt)
      obtain r t where rt: "rt = (r, t)" by (cases rt)
      have key: "map_of (AList.update v (deployment t) (versions w)) v = Some (deployment t)" by (simp add: update_conv')
      have t: "\<lparr>deployment = deployment t, chain_reg = chain_reg t, outer = outer t\<rparr> = t" by simp
      from Some run rt key show ?thesis
        by (cases r) (simp_all add: on_version_def chk_def t update_update split: option.split)
    qed
  qed
qed

lemma on_version_reads:
  "on_version v (extern (reads f)) w = Some (Ok x, w') \<longleftrightarrow> map_of (versions w) v \<noteq> None \<and> x = f (world w) \<and> w' = w"
  by (cases w) (auto simp: on_version_def extern_def reads_def update_nonempty update_triv split: option.splits)

lemma on_version_gret_Ok:
  "on_version v (gret y) w = Some (Ok x, w') \<longleftrightarrow> map_of (versions w) v \<noteq> None \<and> x = y \<and> w' = w"
  by (cases "map_of (versions w) v") (auto simp: on_version_gret, simp add: on_version_def)

lemma on_version_gfail: "on_version v (gfail e) w \<noteq> Some (Ok x, w')"
  by (auto simp: on_version_def gfail_def split: option.splits)

lemma on_version_key: "on_version v m w = Some (Ok x, w') \<Longrightarrow> map_of (versions w) v \<noteq> None \<and> map_of (versions w') v \<noteq> None"
  by (auto simp: on_version_def update_conv' split: option.splits)

lemma Submit_opts:
  assumes "TxManager.gasMultiplier o1 = TxManager.gasMultiplier o2"
  shows "Submit g a impl t ctx i l2 input o1 = Submit g a impl t ctx i l2 input o2"
  unfolding Submit_def assms by (rule refl)

lemma on_version_Deploy:
  "on_version v (TxManager.Deploy g a impl cs t ctx i l2 input opts) w = Some (Ok r, w') \<longleftrightarrow>
     (\<exists>h u. on_version v (Submit g a impl t ctx i l2 input opts) w = Some (Ok h, u) \<and>
       on_version v (Wait g a cs t (WithTimeout cs ctx (opts_timeout opts) (world u)) i l2 input h) u = Some (Ok r, w'))"
    (is "?L \<longleftrightarrow> ?R")
proof
  assume ?L
  then show ?R unfolding TxManager.Deploy_def on_version_chk
    by (auto elim!: chk_OkE simp: on_version_gfail on_version_reads on_version_gret_Ok split: if_splits)
next
  assume ?R
  then obtain h u where sub: "on_version v (Submit g a impl t ctx i l2 input opts) w = Some (Ok h, u)"
    and wait: "on_version v (Wait g a cs t (WithTimeout cs ctx (opts_timeout opts) (world u)) i l2 input h) u = Some (Ok r, w')"
    by blast
  have "on_version v (extern (reads (WithTimeout cs ctx (opts_timeout opts)))) u =
      Some (Ok (WithTimeout cs ctx (opts_timeout opts) (world u)), u)"
    using on_version_key [OF sub] by (simp add: on_version_reads)
  moreover have "on_version v (gret r) w' = Some (Ok r, w')" using on_version_key [OF wait] by (simp add: on_version_gret_Ok)
  ultimately show ?L using sub wait unfolding TxManager.Deploy_def on_version_chk by simp
qed

lemma chk_wrap_Ok:
  "chk m (\<lambda>e. gfail (f e)) (\<lambda>x. gret (k x)) w = Some (Ok y, v) \<longleftrightarrow> (\<exists>x. m w = Some (Ok x, v) \<and> y = k x)"
  "chk m (\<lambda>e. gfail (f e)) gret w = Some (Ok z, v) \<longleftrightarrow> m w = Some (Ok z, v)"
  by (auto simp: chk_def gfail_def gret_def split: option.splits prod.splits result.splits)


section \<open>What New checks\<close>

lemma opt_validate_Ok:
  "opt_validate o' = Ok () \<longleftrightarrow> opt_Chain o' \<noteq> None \<and> opt_Client o' \<noteq> None \<and> opt_Signer o' \<noteq> None \<and> opt_Version o' \<noteq> []"
  by (auto simp: opt_validate_def)

lemma not_on_chain_gfail: "\<exists>e'. not_on_chain v c e = gfail e' \<and> (errors_is e ErrVersionNotOnChain \<longrightarrow> errors_is e' ErrVersionNotOnChain)"
  by (auto simp: not_on_chain_def)

lemma chk_gfails_OkE:
  assumes "chk m h k w = Some (Ok y, v)" and "\<And>e. \<exists>e'. h e = gfail e'"
  obtains x u where "m w = Some (Ok x, u)" and "k x u = Some (Ok y, v)"
proof (rule chk_OkE [OF assms(1)])
  show "h e w' \<noteq> Some (Ok z, u)" for e w' z u using assms(2) [of e] by (auto simp: gfail_def)
qed (rule that)

lemma get_version_Ok: "get_version v w = Some (Ok x, w') \<longleftrightarrow> map_of (versions w) v \<noteq> None \<and> w' = w"
  by (auto simp: get_version_def Get_def split: option.splits)

text \<open>
  C33: a client that \<open>New\<close> returns has everything its methods dereference: the chain, the node and
  the signer of the options, a version that is registered, and a positive poll interval; and at
  that time the version's files had an EVM deployment of the factory and of the singleton for the
  chain.
\<close>

theorem new_client_ready:
  assumes g: "geth_laws g" and ok: "registry_ok g w" and run: "SafeClient.New g fresh opts w = Some (Ok c, w')"
  shows "opt_Chain opts = Some (c_chain c) \<and> c_version c = opt_Version opts \<and> c_opts c = opts \<and>
    (\<exists>cl src s. opt_Client opts = Some (cl, src) \<and> client (c_txManager c) = cl \<and>
      opt_Signer opts = Some s \<and> tm_signer (c_txManager c) = s) \<and>
    0 < receiptPollInterval (c_txManager c) \<and> registered (c_version c) w' \<and>
    (\<exists>f s. factory_of g (view (c_version c) w) (ID (c_chain c)) = Ok f \<and>
      singleton_of g (view (c_version c) w) (ID (c_chain c)) (IsL2 (c_chain c)) = Ok s)"
proof (cases "opt_validate opts")
  case (Ok x)
  then obtain ch cl src s where o1: "opt_Chain opts = Some ch" "opt_Client opts = Some (cl, src)" "opt_Signer opts = Some s"
    by (auto simp: opt_validate_def split: if_splits)
  let ?v = "opt_Version opts"
  have fails: "\<exists>e'. not_on_chain ?v ch e = gfail e'" for e using not_on_chain_gfail [of ?v ch e] by blast
  from run Ok o1 obtain u1 u2 f q where
    ver: "map_of (versions w) ?v \<noteq> None" and
    fac: "on_version ?v (dep (\<lambda>r. ProxyFactory g r (ID ch))) w = Some (Ok f, u1)" and
    sing: "on_version ?v (dep (\<lambda>r. Singleton g r (ID ch) (IsL2 ch))) u1 = Some (Ok q, u2)" and
    c: "c_chain c = ch" "c_opts c = opts" "client (c_txManager c) = cl" "tm_signer (c_txManager c) = s"
      "0 < receiptPollInterval (c_txManager c)" and v: "c_version c = ?v"
    unfolding New_def Let_def
    by (auto elim!: chk_gfails_OkE simp: get_version_Ok fails gret_def TxManager.New_def TxManager.defaultReceiptPollInterval_def
        split: if_splits)
  with ver have cw: "registered (c_version c) w" by (simp add: registered_def)
  note view1 = view_ok [OF ok cw]
  from dep_ProxyFactory [OF view1, of "ID ch"] obtain t1
    where t1: "dep (\<lambda>r. ProxyFactory g r (ID ch)) (view (c_version c) w) = Some (factory_of g (view (c_version c) w) (ID ch), t1)"
      "same_prefix g (view (c_version c) w) t1" by blast
  with on_version_view [OF cw, of "dep (\<lambda>r. ProxyFactory g r (ID ch))"] fac v
  have f: "factory_of g (view (c_version c) w) (ID ch) = Ok f"
    and u1: "u1 = w\<lparr>versions := AList.update ?v (deployment t1) (versions w), chains := chain_reg t1, world := outer t1\<rparr>"
    by simp_all
  have view2: "view ?v u1 = t1" by (simp add: view_def u1 update_conv')
  have cu: "registered (c_version c) u1" using v by (simp add: registered_def u1 update_conv')
  from dep_Singleton [OF same_prefix_ok [OF t1(2)], of "ID ch" "IsL2 ch"] obtain t2
    where "dep (\<lambda>r. Singleton g r (ID ch) (IsL2 ch)) t1 = Some (singleton_of g t1 (ID ch) (IsL2 ch), t2)" by blast
  with on_version_view [OF cu, of "dep (\<lambda>r. Singleton g r (ID ch) (IsL2 ch))"] sing v view2
    same_prefix_files(2) [OF t1(2)]
  have q: "singleton_of g (view (c_version c) w) (ID ch) (IsL2 ch) = Ok q" by simp
  have reg: "registered (c_version c) w'"
    by (rule same_registry_view(1) [OF keeps_registryD [OF keeps_registry_New ok run] cw])
  from c v f q reg o1 show ?thesis by auto
qed (use run in \<open>auto simp: New_def gfail_def\<close>)

lemma New_version_step:
  assumes "opt_validate opts = Ok ()" and "opt_Chain opts = Some ch" and "map_of (versions w) (opt_Version opts) = Some d"
    and "geth_laws g" and "registry_ok g w"
  defines "t \<equiv> view (opt_Version opts) w"
  shows "factory_of g t (ID ch) = Err e \<Longrightarrow> \<exists>w'. SafeClient.New g fresh opts w = not_on_chain (opt_Version opts) ch e w'"
    and "factory_of g t (ID ch) = Ok f \<Longrightarrow> singleton_of g t (ID ch) (IsL2 ch) = Err e \<Longrightarrow>
      \<exists>w'. SafeClient.New g fresh opts w = not_on_chain (opt_Version opts) ch e w'"
proof -
  let ?v = "opt_Version opts"
  have cw: "registered ?v w" using assms(3) by (simp add: registered_def)
  have ok: "deployment_ok g (deployment t)" using view_ok [OF assms(5) cw] by (simp add: t_def)
  from dep_ProxyFactory [OF ok, of "ID ch"] obtain t1
    where t1: "dep (\<lambda>r. ProxyFactory g r (ID ch)) t = Some (factory_of g t (ID ch), t1)" "same_prefix g t t1" by blast
  define u1 where "u1 = w\<lparr>versions := AList.update ?v (deployment t1) (versions w), chains := chain_reg t1, world := outer t1\<rparr>"
  have fac: "on_version ?v (dep (\<lambda>r. ProxyFactory g r (ID ch))) w = Some (factory_of g t (ID ch), u1)"
    using on_version_view [OF cw, of "dep (\<lambda>r. ProxyFactory g r (ID ch))"] t1(1) by (simp add: t_def u1_def)
  have cu: "registered ?v u1" by (simp add: registered_def u1_def update_conv')
  have t1v: "view ?v u1 = t1" by (simp add: view_def u1_def update_conv')
  from dep_Singleton [OF same_prefix_ok [OF t1(2)], of "ID ch" "IsL2 ch"] obtain t2
    where "dep (\<lambda>r. Singleton g r (ID ch) (IsL2 ch)) t1 = Some (singleton_of g t1 (ID ch) (IsL2 ch), t2)" by blast
  with on_version_viewI [OF cu, of "dep (\<lambda>r. Singleton g r (ID ch) (IsL2 ch))"] t1v same_prefix_files(2) [OF t1(2)]
  obtain u2 where sing: "on_version ?v (dep (\<lambda>r. Singleton g r (ID ch) (IsL2 ch))) u1 = Some (singleton_of g t (ID ch) (IsL2 ch), u2)"
    by fastforce
  have get: "get_version ?v w = Some (Ok (), w)" using assms(3) by (simp add: get_version_Ok)
  show "factory_of g t (ID ch) = Err e \<Longrightarrow> \<exists>w'. SafeClient.New g fresh opts w = not_on_chain ?v ch e w'"
    using get fac assms(1,2) by (auto simp: New_def Let_def)
  show "factory_of g t (ID ch) = Ok f \<Longrightarrow> singleton_of g t (ID ch) (IsL2 ch) = Err e \<Longrightarrow>
      \<exists>w'. SafeClient.New g fresh opts w = not_on_chain ?v ch e w'"
    using get fac sing assms(1,2) by (auto simp: New_def Let_def)
qed


lemma on_version_dep_world: "on_version v (dep f) w = Some (r, w') \<Longrightarrow> world w' = world w"
  by (auto simp: on_version_def dep_def split: option.splits prod.splits)

text \<open>What a client without a nonce manager of its own starts from.\<close>

lemma New_local:
  assumes "NonceManager opts = None" and "opt_Signer opts = Some s" and "opt_Client opts = Some (cl, src)"
    and "SafeClient.New g local_New opts w = Some (Ok c, w')"
  shows "(\<exists>poll. c_txManager c = TxManager.New cl s (nv_manager local_nonce_value) poll) \<and> is_idle (world w') \<and>
    counter_of (mgr (world w')) = Fetch \<and> source (mgr (world w')) = Some src \<and>
    nm_address (mgr (world w')) \<noteq> 0 \<and> (\<exists>u. nm_address (mgr (world w')) = signer_Address s u) \<and>
    env (world w') = env (world w)"
proof (cases "opt_validate opts")
  case (Ok x)
  then obtain ch where ch: "opt_Chain opts = Some ch" by (auto simp: opt_validate_def split: if_splits)
  have fails: "\<exists>e'. not_on_chain (opt_Version opts) ch e = gfail e'" for e using not_on_chain_gfail by blast
  from Ok ch assms obtain u2 u3 nm where nm: "on_world local_New u2 = Some (Ok nm, u3)"
    and ini: "(case nv_Init nm of None \<Rightarrow> gret ()
        | Some ini \<Rightarrow> on_world (\<lambda>w. ini (snd (the (opt_Client opts))) (ID (the (opt_Chain opts)))
            (signer_Address (the (opt_Signer opts)) w) w)) u3 = Some (Ok (), w')"
    and c: "c_txManager c = TxManager.New cl s (nv_manager nm) (opt_receiptPollInterval opts)" and u2: "world u2 = world w"
    unfolding New_def Let_def
    by (auto elim!: chk_gfails_OkE simp: fails gret_def get_version_Ok dest!: on_version_dep_world)
  from nm have nmv: "nm = local_nonce_value"
    and u3: "u3 = u2\<lparr>world := (world u2)\<lparr>mgr := LocalNonce.NewNonceManager 0, slots := []\<rparr>\<rparr>"
    by (simp_all add: on_world_def local_New_def)
  from ini [unfolded nmv] u3 assms(2,3) have w': "world w' = (world u3)\<lparr>mgr := (LocalNonce.NewNonceManager 0)\<lparr>source := Some src,
      nm_address := signer_Address s (world u3)\<rparr>\<rparr>" and "signer_Address s (world u3) \<noteq> 0"
    by (auto simp: local_nonce_value_def on_world_def LocalNonce.Init_def split: if_splits)
  with c nmv u3 u2 show ?thesis by (auto simp: is_idle_def counter_of_def LocalNonce.NewNonceManager_def)
qed (use assms(4) in \<open>auto simp: New_def gfail_def\<close>)

text \<open>
  Without a nonce manager in the options \<open>New\<close> makes a local one, ready for the first
  deployment: no slot is outstanding, and the first nonce will be read from the node for the
  signer's address. A zero address is refused.
\<close>

theorem new_default_manager:
  assumes "NonceManager opts = None" and "opt_Signer opts = Some s" and "opt_Client opts = Some (cl, src)"
    and "SafeClient.New g local_New opts w = Some (Ok c, w')"
  shows "nonceManager (c_txManager c) = nv_manager local_nonce_value \<and> is_idle (world w') \<and>
    counter_of (mgr (world w')) = Fetch \<and> source (mgr (world w')) = Some src \<and>
    nm_address (mgr (world w')) \<noteq> 0 \<and> (\<exists>u. nm_address (mgr (world w')) = signer_Address s u)"
  using New_local [OF assms] by (auto simp: TxManager.New_def)

text \<open>
  \<open>PredictAddress\<close>, \<open>Deploy\<close> and \<open>SubmitDeployment\<close> refuse an invalid configuration with the
  error of the validation alone, before any call: nothing is loaded, no nonce is acquired, and
  the world is unchanged.
\<close>

theorem invalid_config_refused:
  assumes "validateSafeConfig owners th = Err e"
  shows "PredictAddress g a c owners th salt w = Some (Err e, w) \<and>
    Deploy g a impl cs c ctx owners th salt w = Some (Err e, w) \<and>
    SubmitDeployment g a impl c ctx owners th salt w = Some (Err e, w)"
  using assms by (simp add: PredictAddress_def Deploy_def SubmitDeployment_def validated_def gfail_def)

section \<open>A concrete client\<close>

definition demo_safe_of :: "'w \<Rightarrow> (string, 'w) safe_world" where
  "demo_safe_of v = \<lparr>versions = [(''1.4.1'', demo_deployment)], chains = Map.empty, world = v\<rparr>"

definition demo_safe :: "(string, int) safe_world" where
  "demo_safe = demo_safe_of 0"

definition demo_chain :: chain where
  "demo_chain = \<lparr>ID = Some 1, Name = ''Ethereum'', IsL2 = True, forksChainID = None\<rparr>"

definition demo_opts :: "int option \<Rightarrow> receipt \<Rightarrow> string \<Rightarrow> (int, unit, int, unit) Options" where
  "demo_opts m rc v =
     \<lparr>opt_Chain = Some demo_chain, opt_Client = Some (clock_client m rc, ()), opt_Signer = Some demo_signer, opt_Version = v,
      NonceManager = Some \<lparr>nv_manager = clock_nm, nv_Init = None\<rparr>, DeployTimeout = 0, opt_GasMultiplier = Fin 0 0,
      ReceiptPollInterval = 0\<rparr>"

definition demo_sc :: "int option \<Rightarrow> receipt \<Rightarrow> (int, unit, int, unit) client" where
  "demo_sc m rc =
     \<lparr>c_chain = demo_chain, c_txManager = clock_tm m rc, c_version = ''1.4.1'', c_opts = demo_opts m rc ''1.4.1''\<rparr>"

lemma demo_safe_ok: "registry_ok demo_tx demo_safe"
  using demo_version(1) [of "0 :: int"] by (simp add: registry_ok_def demo_safe_def demo_safe_of_def demo_tx_world_def)

lemma demo_registered: "registered ''1.4.1'' demo_safe"
  by (simp add: registered_def demo_safe_def demo_safe_of_def)

lemma demo_view: "view ''1.4.1'' demo_safe = demo_tx_world 0" "view ''1.4.1'' (demo_safe_of v) = demo_tx_world v"
  by (simp_all add: view_def demo_safe_def demo_safe_of_def demo_tx_world_def)

lemma demo_config: "validateSafeConfig [5] 1 = Ok ()"
  by (simp add: validateSafeConfig_def)

theorem client_keeps_registry_witness: "keeps_registry demo_tx (PredictAddress demo_tx ''[]'' (demo_sc None (demo_receipt 1 0)) [5] 1 [1, 2])"
  by (rule conjunct1 [OF conjunct2 [OF client_keeps_registry [OF demo_tx_laws]]])

theorem invalid_config_refused_witness:
  "Deploy demo_tx ''[]'' (\<lambda>_. 0) clock_contexts (demo_sc None (demo_receipt 1 0)) 7 [] 1 [] demo_safe = Some (Err ErrEmptyOwners, demo_safe)"
proof -
  have "validateSafeConfig [] 1 = Err ErrEmptyOwners" by (simp add: validateSafeConfig_def)
  from invalid_config_refused [OF this, of demo_tx "''[]''" "demo_sc None (demo_receipt 1 0)" "[]" demo_safe "\<lambda>_. 0" clock_contexts 7]
  show ?thesis by simp
qed


lemma demo_tm_deploy:
  assumes p: "predicted demo_tx ''[]'' (demo_tx_world (0 :: int)) demo_input (Some 1) True = Ok p"
    and o: "opts_timeout opts = 120000000000"
  shows "\<exists>res w'. TxManager.Deploy demo_tx ''[]'' (\<lambda>_. 0) clock_contexts (clock_tm (Some 1) (demo_receipt 1 p)) 7000000000 (Some 1) True
    demo_input opts (demo_tx_world 0) = Some (Ok res, w')"
proof -
  let ?t = "clock_tm (Some 1) (demo_receipt 1 p)"
  from demo_submit [OF same_world_refl [OF demo_version(1)], of 0 "\<lambda>_. 0" ?t 7000000000 opts]
  obtain h u where sub: "Submit demo_tx ''[]'' (\<lambda>_. 0) ?t 7000000000 (Some 1) True demo_input opts (demo_tx_world 0) = Some (Ok h, u)"
    and u: "outer u = 0" by (auto simp: clock_defs with_slot_eval demo_tx_world_def)
  have same: "same_world demo_tx (demo_tx_world 0) u" by (rule keeps_worldD [OF keeps_world_Submit [OF demo_tx_laws] demo_version(1) sub])
  then have ok: "deployment_ok demo_tx (deployment u)" by (simp add: same_world_def)
  have ctx: "WithTimeout clock_contexts 7000000000 (opts_timeout opts) (outer u) = 7000000000"
    by (simp add: o u clock_contexts_def)
  have rc: "waitForReceipt clock_contexts ?t 7000000000 h (outer u) = Some (Ok (demo_receipt 1 p), 2000000000)"
    unfolding u by (rule demo_clock_receipt)
  have cp: "created_proxy demo_tx u (Some 1) (demo_receipt 1 p) = Ok p"
    using demo_created [of "0 :: int" 1 p] by (simp add: created_proxy_def same_world_files(1) [OF same])
  from Wait_run [OF demo_tx_laws ok p [folded same_world_files(3) [OF same]] rc] obtain w'
    where wait: "Wait demo_tx ''[]'' clock_contexts ?t 7000000000 (Some 1) True demo_input h u =
      Some (wait_outcome h p (Ok p) (demo_receipt 1 p), w')" by (auto simp: cp)
  obtain res where "wait_outcome h p (Ok p) (demo_receipt 1 p) = Ok res"
    by (simp add: wait_outcome_def demo_receipt_def ReceiptStatusFailed_def big_Uint64_def)
  moreover have "Wait demo_tx ''[]'' clock_contexts ?t (WithTimeout clock_contexts 7000000000 (opts_timeout opts) (outer u)) (Some 1) True
      demo_input h u = Some (wait_outcome h p (Ok p) (demo_receipt 1 p), w')" unfolding ctx by (rule wait)
  ultimately show ?thesis using Deploy_run [OF sub] by simp
qed

lemma demo_client_Deploy:
  "\<exists>p res w'. SafeClient.Deploy demo_tx ''[]'' (\<lambda>_. 0) clock_contexts (demo_sc (Some 1) (demo_receipt 1 p)) 7000000000 [5] 1 [1, 2] demo_safe =
      Some (Ok res, w')"
proof -
  from demo_predicted [of "0 :: int"] obtain p
    where p: "predicted demo_tx ''[]'' (demo_tx_world (0 :: int)) demo_input (Some 1) True = Ok p" by blast
  let ?c = "demo_sc (Some 1) (demo_receipt 1 p)"
  let ?o = "Some \<lparr>GasMultiplier = opt_gasMultiplier (c_opts ?c), Timeout = opt_deployTimeout (c_opts ?c)\<rparr>"
  let ?m = "TxManager.Deploy demo_tx ''[]'' (\<lambda>_. 0) clock_contexts (clock_tm (Some 1) (demo_receipt 1 p)) 7000000000 (Some 1) True demo_input ?o"
  have "opts_timeout ?o = 120000000000"
    by (simp add: opts_timeout_def opt_deployTimeout_def SafeClient.defaultDeployTimeout_def demo_sc_def demo_opts_def)
  from demo_tm_deploy [OF p this] obtain r t where "?m (view (c_version ?c) demo_safe) = Some (Ok r, t)"
    by (auto simp: demo_sc_def demo_view)
  with on_version_viewI [OF demo_registered, of ?m] obtain u
    where u: "on_version (c_version ?c) ?m demo_safe = Some (Ok r, u)" by (auto simp: demo_sc_def)
  have c: "c_version ?c = ''1.4.1''" "c_txManager ?c = clock_tm (Some 1) (demo_receipt 1 p)" "ID (c_chain ?c) = Some 1" "IsL2 (c_chain ?c)"
    and input: "safe_input [5] 1 [1, 2] = demo_input"
    by (simp_all add: demo_sc_def demo_chain_def safe_input_def demo_input_def)
  have run: "SafeClient.Deploy demo_tx ''[]'' (\<lambda>_. 0) clock_contexts ?c 7000000000 [5] 1 [1, 2] demo_safe = Some (Ok (deploy_result r), u)"
    using u by (simp add: SafeClient.Deploy_def validated_def demo_config c input chk_wrap_Ok gret_def)
  then show ?thesis by blast
qed

theorem deploy_matches_prediction_witness:
  "\<exists>p res w'. SafeClient.Deploy demo_tx ''[]'' (\<lambda>_. 0) clock_contexts (demo_sc (Some 1) (demo_receipt 1 p)) 7000000000 [5] 1 [1, 2] demo_safe =
      Some (Ok res, w') \<and>
    (\<exists>u. PredictAddress demo_tx ''[]'' (demo_sc (Some 1) (demo_receipt 1 p)) [5] 1 [1, 2] w' = Some (Ok (dr_SafeAddress res), u))"
proof -
  from demo_client_Deploy obtain p res w' where run: "SafeClient.Deploy demo_tx ''[]'' (\<lambda>_. 0) clock_contexts
    (demo_sc (Some 1) (demo_receipt 1 p)) 7000000000 [5] 1 [1, 2] demo_safe = Some (Ok res, w')" by blast
  have "registered (c_version (demo_sc (Some 1) (demo_receipt 1 p))) demo_safe" "ID (c_chain (demo_sc (Some 1) (demo_receipt 1 p))) \<noteq> None"
    using demo_registered by (simp_all add: demo_sc_def demo_chain_def)
  from deploy_matches_prediction [OF demo_tx_laws demo_safe_ok this run] run show ?thesis by blast
qed

text \<open>The checks of \<open>New\<close> on version 1.4.1 and chain 1, in any outer world.\<close>

lemma demo_New_checks:
  "\<exists>u z. get_version ''1.4.1'' (demo_safe_of v) = Some (Ok (), demo_safe_of v) \<and>
    on_version ''1.4.1'' (dep (\<lambda>r. ProxyFactory demo_tx r (Some 1))) (demo_safe_of v) =
      Some (Ok \<lparr>ParsedDeployment.Address = 7, ABI = ''[]''\<rparr>, u) \<and>
    on_version ''1.4.1'' (dep (\<lambda>r. Singleton demo_tx r (Some 1) True)) u =
      Some (Ok \<lparr>ParsedDeployment.Address = 7, ABI = ''[]''\<rparr>, z) \<and> world z = v"
proof -
  let ?fac = "dep (\<lambda>r. ProxyFactory demo_tx r (Some 1))" and ?sing = "dep (\<lambda>r. Singleton demo_tx r (Some 1) True)"
  have run: "\<exists>y. on_version ''1.4.1'' m x = Some (r, y) \<and> view ''1.4.1'' y = t \<and> map_of (versions y) ''1.4.1'' \<noteq> None \<and> world y = outer t"
    if "map_of (versions x) ''1.4.1'' \<noteq> None" "m (view ''1.4.1'' x) = Some (r, t)"
    for m :: "((string, 'a) tx_world, string ParsedDeployment) prog" and x r t
    using that by (auto simp: on_version_def view_def update_conv')
  from dep_ProxyFactory [OF demo_version(1), of "Some 1" v] demo_version(2) [of v] obtain t1
    where t1: "?fac (demo_tx_world v) = Some (Ok \<lparr>ParsedDeployment.Address = 7, ABI = ''[]''\<rparr>, t1)"
      "same_prefix demo_tx (demo_tx_world v) t1" by auto
  from run [of "demo_safe_of v" ?fac "Ok \<lparr>ParsedDeployment.Address = 7, ABI = ''[]''\<rparr>" t1] t1(1)
  obtain u where u: "on_version ''1.4.1'' ?fac (demo_safe_of v) = Some (Ok \<lparr>ParsedDeployment.Address = 7, ABI = ''[]''\<rparr>, u)"
    "view ''1.4.1'' u = t1" "map_of (versions u) ''1.4.1'' \<noteq> None" by (auto simp: demo_view(2)) (auto simp: demo_safe_of_def)
  from dep_Singleton [OF same_prefix_ok [OF t1(2)], of "Some 1" True] demo_version(3) [of v] same_prefix_files(2) [OF t1(2)]
  obtain t2 where t2: "?sing t1 = Some (Ok \<lparr>ParsedDeployment.Address = 7, ABI = ''[]''\<rparr>, t2)" "same_prefix demo_tx t1 t2" by auto
  with run [OF u(3), of ?sing "Ok \<lparr>ParsedDeployment.Address = 7, ABI = ''[]''\<rparr>" t2] u(2) obtain z
    where z: "on_version ''1.4.1'' ?sing u = Some (Ok \<lparr>ParsedDeployment.Address = 7, ABI = ''[]''\<rparr>, z)" "world z = outer t2" by auto
  have "world z = v" using z(2) t1(2) t2(2) by (simp add: same_prefix_def demo_tx_world_def)
  with u(1) z(1) show ?thesis by (auto simp: get_version_Ok demo_safe_of_def)
qed

theorem new_client_ready_witness:
  "\<exists>c w'. SafeClient.New demo_tx (\<lambda>_. None) (demo_opts None (demo_receipt 1 0) ''1.4.1'') demo_safe = Some (Ok c, w') \<and>
     c_chain c = demo_chain \<and> 0 < receiptPollInterval (c_txManager c) \<and> registered (c_version c) w'"
proof -
  let ?o = "demo_opts None (demo_receipt 1 0) ''1.4.1''"
  from demo_New_checks [of "0 :: int"] obtain d w' where run: "SafeClient.New demo_tx (\<lambda>_. None) ?o demo_safe = Some (Ok d, w')"
    by (auto simp: New_def Let_def opt_validate_def demo_opts_def demo_chain_def gret_def demo_safe_def)
  from run new_client_ready [OF demo_tx_laws demo_safe_ok run] show ?thesis
    by (auto simp: demo_opts_def)
qed

definition demo_local_opts :: "(unit local_world, nat, unit ctx, unit source) Options" where
  "demo_local_opts =
     \<lparr>opt_Chain = Some demo_chain,
      opt_Client = Some (\<lparr>CodeAt = \<lambda>_ _. gret [], EstimateGas = \<lambda>_ _. gret 100, SuggestGasTipCap = \<lambda>_. gret 1, SuggestGasPrice = \<lambda>_. gret 1,
        HeaderByNumber = \<lambda>_. gret None, SendTransaction = \<lambda>_ _. gret (), TransactionReceipt = \<lambda>_ _. gret (demo_receipt 1 0)\<rparr>, \<lambda>_ _. gret 7),
      opt_Signer = Some demo_signer, opt_Version = ''1.4.1'', NonceManager = None, DeployTimeout = 0,
      opt_GasMultiplier = Fin 0 0, ReceiptPollInterval = 0\<rparr>"

theorem new_default_manager_witness:
  "\<exists>c w'. SafeClient.New demo_tx local_New demo_local_opts
      (demo_safe_of \<lparr>mgr = LocalNonce.NewNonceManager 0, slots = [False], env = ()\<rparr>) = Some (Ok c, w') \<and>
    is_idle (world w') \<and> counter_of (mgr (world w')) = Fetch"
proof -
  let ?v = "\<lparr>mgr = LocalNonce.NewNonceManager 0, slots = [False], env = ()\<rparr>"
  from demo_New_checks [of ?v] obtain c w'
    where run: "SafeClient.New demo_tx local_New demo_local_opts (demo_safe_of ?v) = Some (Ok c, w')"
    by (auto simp: New_def Let_def opt_validate_def demo_local_opts_def demo_chain_def gret_def demo_safe_of_def on_world_def
        local_New_def local_nonce_value_def LocalNonce.Init_def demo_signer_def)
  have "NonceManager demo_local_opts = None" "opt_Signer demo_local_opts = Some demo_signer" and "\<exists>cl src. opt_Client demo_local_opts = Some (cl, src)"
    by (simp_all add: demo_local_opts_def)
  then show ?thesis using new_default_manager [OF _ _ _ run] run by blast
qed

section \<open>Waiting without a deadline\<close>

text \<open>
  C13: \<open>WaitForDeployment\<close> sets no deadline of its own. If the caller's context never ends and the
  node never shows the receipt, the call does not return, whatever the options say of a timeout.
\<close>

theorem wait_has_no_timeout:
  assumes g: "geth_laws g" and ok: "registry_ok g w" and c: "registered (c_version c) w" and i: "ID (c_chain c) = Some i"
    and p: "predicted g a (view (c_version c) w) (safe_input owners th salt) (Some i) (IsL2 (c_chain c)) = Ok p"
    and endless: "endless cs (c_txManager c) ctx h"
  shows "WaitForDeployment g a cs c ctx owners th salt h w = None"
  using Wait_endless [OF g view_ok [OF ok c] p endless]
  by (simp add: WaitForDeployment_def chk_def on_version_view [OF c] i)

definition patient_contexts :: "(int, int) contexts" where
  "patient_contexts = \<lparr>select_timer = \<lambda>d p now. (None, now + p), WithTimeout = \<lambda>d p now. min d (now + p)\<rparr>"

theorem wait_has_no_timeout_witness:
  "WaitForDeployment demo_tx ''[]'' patient_contexts (demo_sc None (demo_receipt 1 0)) 7000000000 [5] 1 [1, 2] 9 demo_safe = None"
proof -
  let ?c = "demo_sc None (demo_receipt 1 0)"
  from demo_predicted [of "0 :: int"] obtain p
    where p: "predicted demo_tx ''[]'' (demo_tx_world (0 :: int)) demo_input (Some 1) True = Ok p" by blast
  have c: "c_version ?c = ''1.4.1''" "c_txManager ?c = clock_tm None (demo_receipt 1 0)" "ID (c_chain ?c) = Some 1" "IsL2 (c_chain ?c)"
    and input: "safe_input [5] 1 [1, 2] = demo_input"
    by (simp_all add: demo_sc_def demo_chain_def safe_input_def demo_input_def)
  have "endless patient_contexts (clock_tm None (demo_receipt 1 0)) 7000000000 9"
    by (simp add: endless_def clock_defs patient_contexts_def)
  with wait_has_no_timeout [OF demo_tx_laws demo_safe_ok, of ?c 1 "''[]''" "[5]" 1 "[1, 2]" p patient_contexts 7000000000 9]
    demo_registered p c input show ?thesis by (simp add: demo_view)
qed

end
