(* ===== verification/MockClient.thy ===== *)
theory MockClient
  imports SafeClient
begin

text \<open>
  \<open>testing/mock\<close>: the in-memory client for tests, with its recorded deployments, its block number
  and its queue of forced errors. Its predictions use version 1.4.1 of the shared registry.
\<close>

section \<open>State\<close>

record deployedSafe =
  ds_owners :: "address list"
  ds_threshold :: byte
  ds_txHash :: hash
  ds_block :: u64
  ds_gasUsed :: u64

text \<open>
  The map from addresses to deployments as an association list (Go iterates over it in any
  order); a forced error may be nil. The mutex makes each method one step.
\<close>

record mock_client =
  deployed :: "(address \<times> deployedSafe) list"
  blockNum :: u64
  forcedErrs :: "gerr option list"

definition NewClient :: mock_client where
  "NewClient = \<lparr>deployed = [], blockNum = 1, forcedErrs = []\<rparr>"

section \<open>Helpers\<close>

text \<open>\<open>sha256\<close> is \<open>crypto/sha256\<close>; \<open>PutUint64\<close> writes eight big-endian bytes.\<close>

definition syntheticTxHash :: "('abi, 'z) geth_scheme \<Rightarrow> (byte list \<Rightarrow> byte list) \<Rightarrow> address \<Rightarrow> u64 \<Rightarrow> hash" where
  "syntheticTxHash g sha256 a block = BytesToHash g (sha256 (AddressBytes g a @ word_bytes 8 block))"

definition predictAddress ::
  "('abi, 'z) geth_scheme \<Rightarrow> 'abi \<Rightarrow> address list \<Rightarrow> byte \<Rightarrow> byte list \<Rightarrow> (('abi, 'w) safe_world, address) prog" where
  "predictAddress g a owners threshold salt =
     chk (get_version V141) gfail (\<lambda>_.
       on_version V141 (dep (\<lambda>r. Predict.Address g a r (safe_input owners threshold salt) (Some 1) False)))"

definition consumeForcedErr :: "mock_client \<Rightarrow> gerr option \<times> mock_client" where
  "consumeForcedErr c =
     (case forcedErrs c of [] \<Rightarrow> (None, c) | e # es \<Rightarrow> (e, c\<lparr>forcedErrs := es\<rparr>))"

section \<open>The methods\<close>

definition mock_PredictAddress ::
  "('abi, 'z) geth_scheme \<Rightarrow> 'abi \<Rightarrow> address list \<Rightarrow> byte \<Rightarrow> byte list \<Rightarrow> (('abi, mock_client) safe_world, address) prog" where
  "mock_PredictAddress g a owners threshold salt = predictAddress g a owners threshold salt"

definition mock_IsDeployed :: "address \<Rightarrow> (('abi, mock_client) safe_world, bool) prog" where
  "mock_IsDeployed addr = on_world (reads (\<lambda>c. map_of (deployed c) addr \<noteq> None))"

text \<open>The critical section of \<open>Deploy\<close>, and of \<open>WaitForDeployment\<close>.\<close>

definition record_deployment ::
  "('abi, 'z) geth_scheme \<Rightarrow> (byte list \<Rightarrow> byte list) \<Rightarrow> address list \<Rightarrow> byte \<Rightarrow> address \<Rightarrow> (mock_client, DeployResult) prog" where
  "record_deployment g sha256 owners threshold addr c =
     (case consumeForcedErr c of
        (Some e, c) \<Rightarrow> Some (Err e, c)
      | (None, c) \<Rightarrow>
          if map_of (deployed c) addr \<noteq> None
          then Some (Err (Errorf ''%w: %s'' [EAddr addr] [ErrAddressAlreadyDeployed]), c)
          else
            (let txHash = syntheticTxHash g sha256 addr (blockNum c);
                 block = blockNum c + 1;
                 s = \<lparr>ds_owners = owners, ds_threshold = threshold, ds_txHash = txHash, ds_block = block, ds_gasUsed = 200000\<rparr>
             in Some (Ok \<lparr>dr_SafeAddress = addr, dr_TxHash = txHash, dr_BlockNumber = block, dr_GasUsed = 200000\<rparr>,
                  c\<lparr>deployed := AList.update addr s (deployed c), blockNum := block\<rparr>)))"

definition find_deployment :: "address \<Rightarrow> hash \<Rightarrow> (mock_client, DeployResult) prog" where
  "find_deployment addr txHash c =
     (case consumeForcedErr c of
        (Some e, c) \<Rightarrow> Some (Err e, c)
      | (None, c) \<Rightarrow>
          (case map_of (deployed c) addr of
             None \<Rightarrow> Some (Err (Errorf ''no deployment found for address %s'' [EAddr addr] []), c)
           | Some s \<Rightarrow>
               if ds_txHash s \<noteq> txHash then Some (Err (Errorf ''tx hash mismatch for address %s'' [EAddr addr] []), c)
               else Some (Ok \<lparr>dr_SafeAddress = addr, dr_TxHash = ds_txHash s, dr_BlockNumber = ds_block s,
                              dr_GasUsed = ds_gasUsed s\<rparr>, c)))"

definition mock_Deploy ::
  "('abi, 'z) geth_scheme \<Rightarrow> (byte list \<Rightarrow> byte list) \<Rightarrow> 'abi \<Rightarrow> address list \<Rightarrow> byte \<Rightarrow> byte list \<Rightarrow>
     (('abi, mock_client) safe_world, DeployResult) prog" where
  "mock_Deploy g sha256 a owners threshold salt =
     chk (predictAddress g a owners threshold salt) gfail (\<lambda>addr. on_world (record_deployment g sha256 owners threshold addr))"

definition mock_SubmitDeployment ::
  "('abi, 'z) geth_scheme \<Rightarrow> (byte list \<Rightarrow> byte list) \<Rightarrow> 'abi \<Rightarrow> address list \<Rightarrow> byte \<Rightarrow> byte list \<Rightarrow>
     (('abi, mock_client) safe_world, hash) prog" where
  "mock_SubmitDeployment g sha256 a owners threshold salt =
     chk (mock_Deploy g sha256 a owners threshold salt) gfail (\<lambda>r. gret (dr_TxHash r))"

definition mock_WaitForDeployment ::
  "('abi, 'z) geth_scheme \<Rightarrow> 'abi \<Rightarrow> address list \<Rightarrow> byte \<Rightarrow> byte list \<Rightarrow> hash \<Rightarrow>
     (('abi, mock_client) safe_world, DeployResult) prog" where
  "mock_WaitForDeployment g a owners threshold salt txHash =
     chk (predictAddress g a owners threshold salt) gfail (\<lambda>addr. on_world (find_deployment addr txHash))"

definition mock_Close :: "('w, unit) prog" where
  "mock_Close = gret ()"

definition mock_Reset :: "(('abi, mock_client) safe_world, unit) prog" where
  "mock_Reset = on_world (\<lambda>c. Some (Ok (), c\<lparr>deployed := [], blockNum := 1, forcedErrs := []\<rparr>))"

definition DeployedAddresses :: "(('abi, mock_client) safe_world, address list) prog" where
  "DeployedAddresses = on_world (reads (\<lambda>c. map fst (deployed c)))"

definition ForceErrors :: "gerr option list \<Rightarrow> (('abi, mock_client) safe_world, unit) prog" where
  "ForceErrors errs = on_world (\<lambda>c. Some (Ok (), c\<lparr>forcedErrs := forcedErrs c @ errs\<rparr>))"

definition ForceError :: "gerr option \<Rightarrow> (('abi, mock_client) safe_world, unit) prog" where
  "ForceError e = ForceErrors [e]"

section \<open>Sequences of calls\<close>

datatype mock_op =
    MDeploy "address list" byte "byte list"
  | MSubmit "address list" byte "byte list"
  | MWait "address list" byte "byte list" hash
  | MForce "gerr option list"
  | MReset

fun mock_step ::
  "('abi, 'z) geth_scheme \<Rightarrow> (byte list \<Rightarrow> byte list) \<Rightarrow> 'abi \<Rightarrow> mock_op \<Rightarrow> (('abi, mock_client) safe_world, unit) prog" where
  "mock_step g sha256 a (MDeploy owners th salt) = chk (mock_Deploy g sha256 a owners th salt) gfail (\<lambda>_. gret ())"
| "mock_step g sha256 a (MSubmit owners th salt) = chk (mock_SubmitDeployment g sha256 a owners th salt) gfail (\<lambda>_. gret ())"
| "mock_step g sha256 a (MWait owners th salt h) = chk (mock_WaitForDeployment g a owners th salt h) gfail (\<lambda>_. gret ())"
| "mock_step g sha256 a (MForce es) = ForceErrors es"
| "mock_step g sha256 a MReset = mock_Reset"

text \<open>The results of a sequence; a panic ends it.\<close>

fun mock_run ::
  "('abi, 'z) geth_scheme \<Rightarrow> (byte list \<Rightarrow> byte list) \<Rightarrow> 'abi \<Rightarrow> mock_op list \<Rightarrow> (('abi, mock_client) safe_world, unit) prog" where
  "mock_run g sha256 a [] = gret ()"
| "mock_run g sha256 a (op # ops) =
     chk (mock_step g sha256 a op) (\<lambda>_. mock_run g sha256 a ops) (\<lambda>_. mock_run g sha256 a ops)"

text \<open>
  The \<open>i\<close>-th deployment since the client was made or reset is in block \<open>i + 2\<close>; its hash is made
  of its address and the block before.
\<close>

definition recorded :: "('abi, 'z) geth_scheme \<Rightarrow> (byte list \<Rightarrow> byte list) \<Rightarrow> nat \<Rightarrow> address \<times> deployedSafe \<Rightarrow> bool" where
  "recorded g sha256 i e \<longleftrightarrow>
     ds_block (snd e) = of_nat (i + 2) \<and> ds_txHash (snd e) = syntheticTxHash g sha256 (fst e) (of_nat (i + 1))"

definition mock_inv :: "('abi, 'z) geth_scheme \<Rightarrow> (byte list \<Rightarrow> byte list) \<Rightarrow> mock_client \<Rightarrow> bool" where
  "mock_inv g sha256 c \<longleftrightarrow>
     distinct (map fst (deployed c)) \<and> blockNum c = of_nat (length (deployed c) + 1) \<and>
     (\<forall>i < length (deployed c). recorded g sha256 i (deployed c ! i))"

lemma mock_inv_NewClient: "mock_inv g sha256 NewClient"
  by (simp add: mock_inv_def NewClient_def)

lemma mock_inv_reset [simp]: "mock_inv g sha256 (c\<lparr>deployed := [], blockNum := 1\<rparr>)"
  by (simp add: mock_inv_def)

lemma mock_inv_forced [simp]: "mock_inv g sha256 (c\<lparr>forcedErrs := es\<rparr>) = mock_inv g sha256 c"
  by (simp add: mock_inv_def)

lemma update_new: "map_of r k = None \<Longrightarrow> AList.update k v r = r @ [(k, v)]"
  by (induction r) (auto split: if_splits)

lemma record_deployment_inv:
  assumes "mock_inv g sha256 c" and "record_deployment g sha256 owners th addr c = Some (r, c')"
  shows "mock_inv g sha256 c'"
proof -
  obtain e c1 where c1: "consumeForcedErr c = (e, c1)" by fastforce
  then have inv: "mock_inv g sha256 c1" using assms(1) by (auto simp: consumeForcedErr_def split: list.splits)
  show ?thesis
  proof (cases "e = None \<and> map_of (deployed c1) addr = None")
    case False
    with assms(2) c1 inv show ?thesis by (auto simp: record_deployment_def split: option.splits if_splits)
  next
    case True
    then have "addr \<notin> fst ` set (deployed c1)" by (simp add: map_of_eq_None_iff)
    with True assms(2) c1 inv show ?thesis
      by (auto simp: record_deployment_def mock_inv_def Let_def update_new nth_append recorded_def less_Suc_eq add.commute)
  qed
qed

lemma find_deployment_inv:
  "mock_inv g sha256 c \<Longrightarrow> find_deployment addr h c = Some (r, c') \<Longrightarrow> mock_inv g sha256 c'"
  by (auto simp: find_deployment_def consumeForcedErr_def split: option.splits list.splits if_splits)

text \<open>A relation between the client before and after that every part of a method respects.\<close>

definition inner_step :: "('w \<Rightarrow> 'w \<Rightarrow> bool) \<Rightarrow> (('abi, 'w) safe_world, 'a) prog \<Rightarrow> bool" where
  "inner_step Q m \<longleftrightarrow> (\<forall>w r w'. m w = Some (r, w') \<longrightarrow> Q (world w) (world w'))"

lemma inner_stepD: "inner_step Q m \<Longrightarrow> m w = Some (r, w') \<Longrightarrow> Q (world w) (world w')"
  unfolding inner_step_def by blast

lemma inner_step_chk:
  assumes Q: "transp Q" and m: "inner_step Q m" and h: "\<And>e. inner_step Q (h e)" and k: "\<And>x. inner_step Q (k x)"
  shows "inner_step Q (chk m h k)"
  unfolding inner_step_def
  by (intro allI impI) (erule chk_runE; blast intro: transpD [OF Q] inner_stepD [OF m] inner_stepD [OF h] inner_stepD [OF k])

lemma inner_step_basic:
  assumes "reflp Q"
  shows "inner_step Q (gret x)" and "inner_step Q (gfail e)" and "inner_step Q (get_version v)" and "inner_step Q (on_version v (dep f))"
  using assms by (auto simp: inner_step_def gret_def gfail_def get_version_def on_version_def dep_def reflpD
      split: option.splits prod.splits)

lemma inner_step_on_world: "(\<And>c r c'. m c = Some (r, c') \<Longrightarrow> Q c c') \<Longrightarrow> inner_step Q (on_world m)"
  by (auto simp: inner_step_def on_world_def split: option.splits)

lemma inner_step_mock:
  assumes Q: "transp Q" "reflp Q" and rec: "\<And>owners th addr c r c'. record_deployment g sha256 owners th addr c = Some (r, c') \<Longrightarrow> Q c c'"
    and find: "\<And>addr h c r c'. find_deployment addr h c = Some (r, c') \<Longrightarrow> Q c c'"
    and force: "\<And>c es. Q c (c\<lparr>forcedErrs := es\<rparr>)"
    and reset: "MReset \<in> set ops \<Longrightarrow> \<forall>c. Q c (c\<lparr>deployed := [], blockNum := 1, forcedErrs := []\<rparr>)"
  shows "inner_step Q (mock_run g sha256 a ops)"
  using reset
proof (induction ops)
  case Nil
  show ?case by (simp add: inner_step_basic Q)
next
  case (Cons op ops)
  then have IH: "inner_step Q (mock_run g sha256 a ops)" by simp
  have predict: "inner_step Q (predictAddress g a owners th salt)" for owners th salt
    unfolding predictAddress_def by (intro inner_step_chk inner_step_basic Q)
  have "inner_step Q (mock_step g sha256 a op)"
  proof (cases op)
    case MReset
    with Cons.prems show ?thesis by (auto simp: mock_Reset_def intro!: inner_step_on_world)
  qed (use rec find force in \<open>auto simp: mock_SubmitDeployment_def mock_Deploy_def mock_WaitForDeployment_def ForceErrors_def
      intro!: inner_step_chk inner_step_basic inner_step_on_world Q predict\<close>)
  with IH show ?case by (simp add: inner_step_chk Q)
qed

text \<open>
  C37: after any calls on a new client, and after any reset, the addresses recorded are distinct,
  the block number counts the deployments, and the \<open>i\<close>-th deployment is in block \<open>i + 2\<close> with the
  synthetic hash of its address and its turn: no two deployments hash the same message.
\<close>

theorem mock_client_invariant:
  assumes "world w = NewClient" and "mock_run g sha256 a ops w = Some (r, w')"
  shows "mock_inv g sha256 (world w')"
proof -
  let ?Q = "\<lambda>c c'. mock_inv g sha256 c \<longrightarrow> mock_inv g sha256 c'"
  have "inner_step ?Q (mock_run g sha256 a ops)"
    by (intro inner_step_mock) (auto simp: transp_def reflp_def intro: record_deployment_inv find_deployment_inv)
  from inner_stepD [OF this assms(2)] assms(1) mock_inv_NewClient [of g sha256] show ?thesis by simp
qed

section \<open>Predictions of the mock\<close>

lemma keeps_registry_predictAddress: "geth_laws g \<Longrightarrow> keeps_registry g (predictAddress g a owners th salt)"
  unfolding predictAddress_def by (intro keeps_registry_rules)

lemma keeps_registry_mock_step: "geth_laws g \<Longrightarrow> keeps_registry g (mock_step g sha256 a op)"
  by (cases op) (auto simp: mock_SubmitDeployment_def mock_Deploy_def mock_WaitForDeployment_def ForceErrors_def mock_Reset_def
      intro!: keeps_registry_rules keeps_registry_predictAddress)

lemma keeps_registry_mock_run: "geth_laws g \<Longrightarrow> keeps_registry g (mock_run g sha256 a ops)"
  by (induction ops) (auto intro!: keeps_registry_rules keeps_registry_mock_step)

definition mock_address ::
  "('abi, 'z) geth_scheme \<Rightarrow> 'abi \<Rightarrow> ('abi, 'w) safe_world \<Rightarrow> address list \<Rightarrow> byte \<Rightarrow> byte list \<Rightarrow> address result" where
  "mock_address g a w owners th salt = predicted g a (view V141 w) (safe_input owners th salt) (Some 1) False"

lemma predictAddress_run:
  assumes "geth_laws g" and "registry_ok g w" and "registered V141 w"
  shows "\<exists>w'. predictAddress g a owners th salt w = Some (mock_address g a w owners th salt, w') \<and> world w' = world w"
proof -
  let ?m = "dep (\<lambda>r. Predict.Address g a r (safe_input owners th salt) (Some 1) False)"
  from dep_Address [OF assms(1) view_ok [OF assms(2,3)], of a "safe_input owners th salt" 1 False]
  obtain t where "?m (view V141 w) = Some (mock_address g a w owners th salt, t)" by (auto simp: mock_address_def)
  with on_version_viewI [OF assms(3), of ?m] obtain w'
    where w': "on_version V141 ?m w = Some (mock_address g a w owners th salt, w')" by blast
  moreover have "inner_step (=) (on_version V141 ?m)" by (rule inner_step_basic) (simp add: reflp_def)
  ultimately have "world w' = world w" using inner_stepD [of "(=)"] by metis
  moreover have "get_version V141 w = Some (Ok (), w)" using assms(3) by (simp add: get_version_Ok registered_def)
  ultimately show ?thesis using w' by (simp add: predictAddress_def)
qed

text \<open>What is recorded stays recorded until a reset.\<close>

definition extends :: "mock_client \<Rightarrow> mock_client \<Rightarrow> bool" where
  "extends c c' \<longleftrightarrow> map_of (deployed c) \<subseteq>\<^sub>m map_of (deployed c')"

lemma record_deployment_extends: "record_deployment g sha256 owners th addr c = Some (r, c') \<Longrightarrow> extends c c'"
  by (auto simp: record_deployment_def consumeForcedErr_def extends_def Let_def map_le_def update_conv' dom_def
      split: option.splits list.splits if_splits)

lemma find_deployment_extends: "find_deployment addr h c = Some (r, c') \<Longrightarrow> extends c c'"
  by (auto simp: find_deployment_def consumeForcedErr_def extends_def split: option.splits list.splits if_splits)

lemma mock_run_extends:
  assumes "MReset \<notin> set ops" and "mock_run g sha256 a ops w = Some (r, w')"
  shows "extends (world w) (world w')"
proof -
  have "inner_step extends (mock_run g sha256 a ops)"
    by (rule inner_step_mock) (use assms(1) in \<open>auto simp: transp_def reflp_def extends_def
      intro: map_le_trans record_deployment_extends [unfolded extends_def] find_deployment_extends [unfolded extends_def]\<close>)
  from inner_stepD [OF this assms(2)] show ?thesis .
qed

lemma record_deployment_Ok:
  assumes "record_deployment g sha256 owners th addr c = Some (Ok r, c')"
  shows "dr_SafeAddress r = addr \<and>
    (\<exists>s. map_of (deployed c') addr = Some s \<and> ds_txHash s = dr_TxHash r \<and> ds_block s = dr_BlockNumber r \<and> ds_gasUsed s = dr_GasUsed r)"
  using assms by (auto simp: record_deployment_def Let_def update_conv' split: option.splits prod.splits if_splits)

text \<open>
  C38: what \<open>SubmitDeployment\<close> of the mock returns, \<open>WaitForDeployment\<close> accepts. After a submission
  and any further calls but a reset, with no forced error pending, waiting for the hash with the
  same configuration gives the result of the submission: the address that is predicted, that hash,
  and the address counts as deployed.
\<close>

theorem mock_submit_then_wait:
  assumes g: "geth_laws g" and ok: "registry_ok g w" and reg: "registered V141 w"
    and sub: "mock_SubmitDeployment g sha256 a owners th salt w = Some (Ok h, w1)"
    and ops: "mock_run g sha256 a ops w1 = Some (Ok (), w2)" "MReset \<notin> set ops" "forcedErrs (world w2) = []"
  shows "\<exists>r w3. mock_WaitForDeployment g a owners th salt h w2 = Some (Ok r, w3) \<and> dr_TxHash r = h \<and>
    mock_address g a w owners th salt = Ok (dr_SafeAddress r) \<and>
    (\<exists>w4. mock_IsDeployed (dr_SafeAddress r) w2 = Some (Ok True, w4))"
proof -
  let ?p = "mock_address g a w owners th salt"
  obtain u where u: "predictAddress g a owners th salt w = Some (?p, u)" using predictAddress_run [OF g ok reg] by blast
  from sub u obtain addr where p: "?p = Ok addr"
    by (cases ?p) (auto simp: mock_SubmitDeployment_def mock_Deploy_def chk_def gfail_def)
  with sub u obtain r where r: "on_world (record_deployment g sha256 owners th addr) u = Some (Ok r, w1)" and h: "h = dr_TxHash r"
    by (auto simp: mock_SubmitDeployment_def mock_Deploy_def gfail_def gret_def elim!: chk_OkE)
  then obtain c where "record_deployment g sha256 owners th addr (world u) = Some (Ok r, c)" and w1: "world w1 = c"
    by (auto simp: on_world_def split: option.splits)
  from record_deployment_Ok [OF this(1)] w1 obtain s where s: "map_of (deployed (world w1)) addr = Some s" "ds_txHash s = h"
    using h by auto
  with mock_run_extends [OF ops(2,1)] have s2: "map_of (deployed (world w2)) addr = Some s"
    by (auto simp: extends_def map_le_def dom_def)
  have "keeps_registry g (mock_SubmitDeployment g sha256 a owners th salt)"
    unfolding mock_SubmitDeployment_def mock_Deploy_def by (intro keeps_registry_rules keeps_registry_predictAddress g)
  from keeps_registryD [OF this ok sub] have same: "same_registry g w w2"
    by (meson keeps_registryD [OF keeps_registry_mock_run [OF g] _ ops(1)] same_registry_def same_registry_trans)
  have p2: "mock_address g a w2 owners th salt = Ok addr"
    using p same_registry_view(2) [OF same reg] by (simp add: mock_address_def)
  from same have "registry_ok g w2" by (simp add: same_registry_def)
  from predictAddress_run [OF g this same_registry_view(1) [OF same reg], of a owners th salt] p2 obtain v
    where "predictAddress g a owners th salt w2 = Some (Ok addr, v)" "world v = world w2" by auto
  with s(2) s2 ops(3) p show ?thesis
    by (simp add: mock_WaitForDeployment_def on_world_def find_deployment_def consumeForcedErr_def mock_IsDeployed_def reads_def)
qed

section \<open>Forced errors\<close>

fun mock_deploys ::
  "('abi, 'z) geth_scheme \<Rightarrow> (byte list \<Rightarrow> byte list) \<Rightarrow> 'abi \<Rightarrow> (address list \<times> byte \<times> byte list) list \<Rightarrow>
     ('abi, mock_client) safe_world \<Rightarrow> (DeployResult result list \<times> ('abi, mock_client) safe_world) option" where
  "mock_deploys g sha256 a [] w = Some ([], w)"
| "mock_deploys g sha256 a ((owners, th, salt) # cs) w =
     (case mock_Deploy g sha256 a owners th salt w of
        None \<Rightarrow> None
      | Some (r, v) \<Rightarrow> (case mock_deploys g sha256 a cs v of None \<Rightarrow> None | Some (rs, u) \<Rightarrow> Some (r # rs, u)))"

definition predictable :: "('abi, 'z) geth_scheme \<Rightarrow> 'abi \<Rightarrow> ('abi, 'w) safe_world \<Rightarrow> address list \<times> byte \<times> byte list \<Rightarrow> bool" where
  "predictable g a w cfg \<longleftrightarrow> (case cfg of (owners, th, salt) \<Rightarrow> \<exists>p. mock_address g a w owners th salt = Ok p)"

definition follows_force :: "gerr option \<Rightarrow> DeployResult result \<Rightarrow> bool" where
  "follows_force f r \<longleftrightarrow>
     (case f of Some e \<Rightarrow> r = Err e | None \<Rightarrow> (\<exists>x. r = Ok x) \<or> (\<exists>e. r = Err e \<and> errors_is e ErrAddressAlreadyDeployed))"

lemma mock_Deploy_run:
  assumes g: "geth_laws g" and ok: "registry_ok g w" and reg: "registered V141 w" and p: "predictable g a w (owners, th, salt)"
  shows "\<exists>r w'. mock_Deploy g sha256 a owners th salt w = Some (r, w') \<and> same_registry g w w' \<and>
    forcedErrs (world w') = tl (forcedErrs (world w)) \<and>
    follows_force (case forcedErrs (world w) of [] \<Rightarrow> None | f # _ \<Rightarrow> f) r"
proof -
  from p obtain addr where addr: "mock_address g a w owners th salt = Ok addr" by (auto simp: predictable_def)
  with predictAddress_run [OF g ok reg, of a owners th salt] obtain u
    where u: "predictAddress g a owners th salt w = Some (Ok addr, u)" "world u = world w" by auto
  have "\<exists>r c. record_deployment g sha256 owners th addr (world w) = Some (r, c) \<and> forcedErrs c = tl (forcedErrs (world w)) \<and>
      follows_force (case forcedErrs (world w) of [] \<Rightarrow> None | f # _ \<Rightarrow> f) r"
    by (auto simp: record_deployment_def consumeForcedErr_def follows_force_def Let_def split: list.split option.split)
  then obtain r c where c: "record_deployment g sha256 owners th addr (world w) = Some (r, c)"
    "forcedErrs c = tl (forcedErrs (world w))" "follows_force (case forcedErrs (world w) of [] \<Rightarrow> None | f # _ \<Rightarrow> f) r" by blast
  have run: "mock_Deploy g sha256 a owners th salt w = Some (r, u\<lparr>world := c\<rparr>)"
    using u c(1) by (simp add: mock_Deploy_def on_world_def)
  have "keeps_registry g (mock_Deploy g sha256 a owners th salt)"
    unfolding mock_Deploy_def by (intro keeps_registry_rules keeps_registry_predictAddress g)
  from keeps_registryD [OF this ok run] run c(2,3) show ?thesis by simp
qed

text \<open>
  Forced errors are returned in the order they were queued, one per call, also across calls
  of \<open>ForceErrors\<close>; a nil lets its call through, which then succeeds or reports that the address is
  already deployed; once the queue is empty every call goes through.
\<close>

theorem forced_errors_in_order:
  assumes "geth_laws g" and "registry_ok g w" and "registered V141 w" and "\<forall>cfg \<in> set cs. predictable g a w cfg"
  shows "\<exists>rs w'. mock_deploys g sha256 a cs w = Some (rs, w') \<and>
    forcedErrs (world w') = drop (length cs) (forcedErrs (world w)) \<and>
    list_all2 follows_force (take (length cs) (forcedErrs (world w) @ replicate (length cs) None)) rs"
  using assms(2,3,4)
proof (induction cs arbitrary: w)
  case (Cons cfg cs)
  obtain owners th salt where cfg: "cfg = (owners, th, salt)" by (cases cfg)
  with mock_Deploy_run [OF assms(1) Cons.prems(1,2), of a owners th salt sha256] Cons.prems(3) obtain r v
    where r: "mock_Deploy g sha256 a owners th salt w = Some (r, v)" "same_registry g w v"
      "forcedErrs (world v) = tl (forcedErrs (world w))"
      "follows_force (case forcedErrs (world w) of [] \<Rightarrow> None | f # _ \<Rightarrow> f) r" by auto
  have "predictable g a v x = predictable g a w x" for x
    using same_registry_view(2) [OF r(2) Cons.prems(2)] by (simp add: predictable_def mock_address_def)
  with Cons.IH [of v] Cons.prems same_registry_view(1) [OF r(2) Cons.prems(2)] r(2) obtain rs w'
    where rs: "mock_deploys g sha256 a cs v = Some (rs, w')" "forcedErrs (world w') = drop (length cs) (forcedErrs (world v))"
      "list_all2 follows_force (take (length cs) (forcedErrs (world v) @ replicate (length cs) None)) rs"
    by (auto simp: same_registry_def)
  have "take (length cs) (es @ replicate (length cs) None) = take (length cs) (es @ replicate (Suc (length cs)) None)" for es :: "gerr option list"
    by (simp add: replicate_append_same [symmetric] del: replicate.simps)
  with r rs cfg show ?case
    by (cases "forcedErrs (world w)") (auto simp: drop_Suc)
qed simp

section \<open>Concrete calls\<close>

definition demo_mock :: "gerr option list \<Rightarrow> (string, mock_client) safe_world" where
  "demo_mock es = demo_safe_of (NewClient\<lparr>forcedErrs := es\<rparr>)"

lemma demo_mock_ok: "registry_ok demo_tx (demo_mock es)" "registered V141 (demo_mock es)"
  using demo_version(1) [of "()"]
  by (simp_all add: registry_ok_def registered_def demo_mock_def demo_safe_of_def demo_tx_world_def V141_def Version141_def)

lemma demo_mock_address: "\<exists>p. mock_address demo_tx ''[]'' (demo_mock es) os th salt = Ok p"
proof -
  have "view V141 (demo_mock es) = demo_tx_world (NewClient\<lparr>forcedErrs := es\<rparr>)"
    by (simp add: V141_def Version141_def demo_mock_def demo_view)
  moreover have "singleton_of demo_tx (demo_tx_world v) (Some 1) False = Ok \<lparr>ParsedDeployment.Address = 7, ABI = ''[]''\<rparr>" for v :: mock_client
    using demo_version(3) [of v] by (simp add: singleton_of_def demo_tx_world_def demo_deployment_def NewBaseDeployment_def)
  ultimately show ?thesis using demo_version(2) [of "NewClient\<lparr>forcedErrs := es\<rparr>"] demo_BuildInitializer [of "''[]''" os th]
    by (auto simp: mock_address_def predicted_def predict_reference_def Let_def factory_of_def singleton_of_def safe_input_def)
qed

theorem mock_client_invariant_witness:
  "\<exists>w'. mock_run demo_tx (\<lambda>bs. bs) ''[]'' [MForce [None], MReset] (demo_mock []) = Some (Ok (), w') \<and>
     mock_inv demo_tx (\<lambda>bs. bs) (world w')"
proof -
  have new: "world (demo_mock []) = NewClient" by (simp add: demo_mock_def demo_safe_of_def NewClient_def)
  have "\<exists>w'. mock_run demo_tx (\<lambda>bs. bs) ''[]'' [MForce [None], MReset] (demo_mock []) = Some (Ok (), w')"
    by (simp add: ForceErrors_def mock_Reset_def on_world_def gret_def)
  with mock_client_invariant [OF new, of demo_tx "\<lambda>bs. bs" "''[]''"] show ?thesis by blast
qed

lemma demo_mock_submit:
  "\<exists>h w1. mock_SubmitDeployment demo_tx (\<lambda>bs. bs) ''[]'' [5] 1 [1, 2] (demo_mock []) = Some (Ok h, w1) \<and> forcedErrs (world w1) = []"
proof -
  obtain p where p: "mock_address demo_tx ''[]'' (demo_mock []) [5] 1 [1, 2] = Ok p" using demo_mock_address by blast
  with predictAddress_run [OF demo_tx_laws demo_mock_ok, of "''[]''" "[5]" 1 "[1, 2]" "[]"] obtain u
    where u: "predictAddress demo_tx ''[]'' [5] 1 [1, 2] (demo_mock []) = Some (Ok p, u)" "world u = NewClient"
    by (auto simp: demo_mock_def demo_safe_of_def NewClient_def)
  then show ?thesis
    by (auto simp: mock_SubmitDeployment_def mock_Deploy_def on_world_def record_deployment_def consumeForcedErr_def NewClient_def
        Let_def gret_def)
qed

theorem mock_submit_then_wait_witness:
  "\<exists>h w1 w2 r w3. mock_SubmitDeployment demo_tx (\<lambda>bs. bs) ''[]'' [5] 1 [1, 2] (demo_mock []) = Some (Ok h, w1) \<and>
     mock_run demo_tx (\<lambda>bs. bs) ''[]'' [MForce []] w1 = Some (Ok (), w2) \<and>
     mock_WaitForDeployment demo_tx ''[]'' [5] 1 [1, 2] h w2 = Some (Ok r, w3) \<and> dr_TxHash r = h"
proof -
  from demo_mock_submit obtain h w1 where w1: "mock_SubmitDeployment demo_tx (\<lambda>bs. bs) ''[]'' [5] 1 [1, 2] (demo_mock []) = Some (Ok h, w1)"
    "forcedErrs (world w1) = []" by blast
  then obtain w2 where w2: "mock_run demo_tx (\<lambda>bs. bs) ''[]'' [MForce []] w1 = Some (Ok (), w2)" "forcedErrs (world w2) = []"
    by (simp add: ForceErrors_def on_world_def gret_def)
  from mock_submit_then_wait [OF demo_tx_laws demo_mock_ok w1(1) w2(1) _ w2(2)] w1(1) w2(1) show ?thesis by auto
qed

theorem forced_errors_in_order_witness:
  "\<exists>rs w'. mock_deploys demo_tx (\<lambda>bs. bs) ''[]'' [([5], 1, [1, 2]), ([5], 1, [1, 2])] (demo_mock [Some ErrDeployTimeout, None]) = Some (rs, w') \<and>
     rs ! 0 = Err ErrDeployTimeout \<and> length rs = 2"
proof -
  have "\<forall>cfg \<in> set [([5], 1, [1, 2]), ([5], 1, [1, 2])]. predictable demo_tx ''[]'' (demo_mock [Some ErrDeployTimeout, None]) cfg"
    using demo_mock_address by (simp add: predictable_def)
  from forced_errors_in_order [OF demo_tx_laws demo_mock_ok this, of "\<lambda>bs. bs"] obtain rs w'
    where rs: "mock_deploys demo_tx (\<lambda>bs. bs) ''[]'' [([5], 1, [1, 2]), ([5], 1, [1, 2])] (demo_mock [Some ErrDeployTimeout, None]) = Some (rs, w')"
    and all: "list_all2 follows_force [Some ErrDeployTimeout, None] rs"
    by (auto simp: demo_mock_def demo_safe_of_def)
  from all obtain x y where "rs = [x, y]" and "follows_force (Some ErrDeployTimeout) x" by (auto simp: list_all2_Cons1)
  with rs show ?thesis by (auto simp: follows_force_def)
qed

end
