(* ===== verification/ClientRun.thy ===== *)
theory ClientRun
  imports SafeClient TxNonce
begin

text \<open>
  A client of \<open>pkg/safe\<close> with the nonce manager that \<open>New\<close> makes by default: what any sequence of
  calls of its methods does to the manager and to the transactions handed to the node.
\<close>

section \<open>Steps that go on from the counter\<close>

text \<open>
  The manager is ready again, and what was sent follows the counter, whatever is sent later.
\<close>

definition goes_on :: "'e base_source \<Rightarrow> 'e logged local_world \<Rightarrow> 'e logged local_world \<Rightarrow> bool" where
  "goes_on f w w' \<longleftrightarrow>
     (ready f w \<longrightarrow> ready f w' \<and>
       (\<exists>l. sends (env w') = sends (env w) @ l \<and>
         (\<forall>l'. log_follows (counter_of (mgr w')) l' \<longrightarrow> log_follows (counter_of (mgr w)) (l @ l'))))"

lemma goes_on_refl: "reflp (goes_on f)"
  by (auto simp: reflp_def goes_on_def)

lemma goes_on_trans: "transp (goes_on f)"
proof (rule transpI)
  fix u v w
  assume uv: "goes_on f u v" and vw: "goes_on f v w"
  show "goes_on f u w" unfolding goes_on_def
  proof (intro impI conjI)
    assume u: "ready f u"
    with uv obtain l1 where v: "ready f v" and l1: "sends (env v) = sends (env u) @ l1"
      "\<And>l'. log_follows (counter_of (mgr v)) l' \<Longrightarrow> log_follows (counter_of (mgr u)) (l1 @ l')"
      unfolding goes_on_def by blast
    from vw v obtain l2 where w: "ready f w" and l2: "sends (env w) = sends (env v) @ l2"
      "\<And>l'. log_follows (counter_of (mgr w)) l' \<Longrightarrow> log_follows (counter_of (mgr v)) (l2 @ l')"
      unfolding goes_on_def by blast
    show "ready f w" by (rule w)
    from l1 l2 show "\<exists>l. sends (env w) = sends (env u) @ l \<and>
        (\<forall>l'. log_follows (counter_of (mgr w)) l' \<longrightarrow> log_follows (counter_of (mgr u)) (l @ l'))"
      by (intro exI [of _ "l1 @ l2"]) simp
  qed
qed

lemma stays_ready_goes_on: "stays_ready f w w' \<Longrightarrow> goes_on f w w'"
  unfolding stays_ready_def follows_on_def goes_on_def by blast

definition unmoved :: "'e logged local_world \<Rightarrow> 'e logged local_world \<Rightarrow> bool" where
  "unmoved w w' \<longleftrightarrow> mgr w' = mgr w \<and> slots w' = slots w \<and> sends (env w') = sends (env w)"

lemma unmoved_goes_on: "unmoved w w' \<Longrightarrow> goes_on f w w'"
  by (auto simp: unmoved_def goes_on_def ready_def is_idle_def wired_def)

section \<open>Wait and Deploy\<close>

text \<open>Waiting for a timer leaves the nonce manager alone and sends nothing.\<close>

definition quiet_contexts :: "('e logged local_world, 'ctx) contexts \<Rightarrow> bool" where
  "quiet_contexts cs \<longleftrightarrow> (\<forall>ctx t w r w'. select_timer cs ctx t w = (r, w') \<longrightarrow> unmoved w w')"

lemma receipt_round_unmoved:
  assumes "quiet_contexts cs" and "client t = wire_client c" and "receipt_round cs t ctx h w = Some (q, w')"
  shows "unmoved w w'"
proof -
  obtain e v where sel: "select_timer cs ctx (receiptPollInterval t) w = (e, v)" by fastforce
  with assms(1) have v: "unmoved w v" unfolding quiet_contexts_def by blast
  show ?thesis
  proof (cases e)
    case None
    have "quiet_prog (chk (over (TransactionReceipt c ctx h)) (\<lambda>_. gret None) (\<lambda>r. gret (Some r)))"
      by (intro quiet_chk quiet_over quiet_gret)
    moreover from None sel assms(2,3) have
      "chk (over (TransactionReceipt c ctx h)) (\<lambda>_. gret None) (\<lambda>r. gret (Some r)) v = Some (q, w')"
      by (simp add: receipt_round_def wire_client_def)
    ultimately have "unmoved v w'" unfolding quiet_prog_def unmoved_def by blast
    with v show ?thesis by (simp add: unmoved_def)
  next
    case (Some x)
    with sel assms(3) v show ?thesis by (simp add: receipt_round_def)
  qed
qed

lemma silent_unmoved:
  "quiet_contexts cs \<Longrightarrow> client t = wire_client c \<Longrightarrow> silent cs t ctx h k w = Some w' \<Longrightarrow> unmoved w w'"
proof (induction k arbitrary: w)
  case (Suc k)
  then obtain v where v: "receipt_round cs t ctx h w = Some (Ok None, v)" and rest: "silent cs t ctx h k v = Some w'"
    by (auto split: option.splits prod.splits result.splits)
  from receipt_round_unmoved [OF Suc.prems(1,2) v] Suc.IH [OF Suc.prems(1,2) rest] show ?case by (simp add: unmoved_def)
qed (simp add: unmoved_def)

lemma waitForReceipt_unmoved:
  assumes "quiet_contexts cs" and "client t = wire_client c" and "waitForReceipt cs t ctx h w = Some (r, w')"
  shows "unmoved w w'"
proof -
  from waitForReceipt_polled [OF assms(3)] obtain k u q where "silent cs t ctx h k w = Some u"
    and "receipt_round cs t ctx h u = Some (q, w')" by (auto simp: polled_def)
  with silent_unmoved [OF assms(1,2)] receipt_round_unmoved [OF assms(1,2)] show ?thesis
    unfolding unmoved_def by metis
qed

lemma outer_step_seq:
  assumes Q: "transp Q" and m: "outer_step Q m" and h: "\<And>e. outer_step Q (h e)" and k: "\<And>x. outer_step Q (k x)"
  shows "outer_step Q (chk m h k)"
  unfolding outer_step_def
  by (intro allI impI) (erule chk_runE; blast intro: transpD [OF Q] outer_stepD [OF m] outer_stepD [OF h] outer_stepD [OF k])

lemma outer_step_keeps: "reflp Q \<Longrightarrow> keeps_outer m \<Longrightarrow> outer_step Q m"
  by (simp add: outer_step_def keeps_outer_def reflpD)

lemma outer_step_if: "outer_step Q p \<Longrightarrow> outer_step Q q \<Longrightarrow> outer_step Q (if b then p else q)"
  by simp

lemma keeps_outer_extract: "keeps_outer (extractDeployedAddress g rc i)"
  unfolding extractDeployedAddress_def
  by (intro keeps_outer_chk keeps_outer_dep keeps_outer_gfail) (auto intro: keeps_outer_pure keeps_outer_gfail split: option.split)

lemmas keeps_outer_rules = keeps_outer_dep keeps_outer_pure keeps_outer_gfail keeps_outer_gret keeps_outer_extract

lemmas goes_on_steps = outer_step_seq [OF goes_on_trans] outer_step_if outer_step_keeps [OF goes_on_refl] keeps_outer_rules

lemma wait_step:
  assumes "quiet_contexts cs" and "client t = wire_client c"
  shows "outer_step (goes_on f) (Wait g a cs t ctx i l2 input h)"
proof -
  have wait: "outer_step (goes_on f) (extern (waitForReceipt cs t ctx h))"
    using waitForReceipt_unmoved [OF assms] unmoved_goes_on
    by (fastforce simp: outer_step_def extern_def split: option.splits prod.splits)
  show ?thesis unfolding Wait_def by (rule wait goes_on_steps)+
qed

lemma New_fields:
  "client (TxManager.New c s nm p) = c" "tm_signer (TxManager.New c s nm p) = s" "nonceManager (TxManager.New c s nm p) = nm"
  by (simp_all add: TxManager.New_def)

lemma Submit_poll:
  "Submit g a impl (TxManager.New c s nm p) ctx i l2 input opts = Submit g a impl (TxManager.New c s nm q) ctx i l2 input opts"
  unfolding Submit_def already_deployed_def TxManager.IsDeployed_def Reuse_slot_def New_fields by (rule refl)

abbreviation local_tm where
  "local_tm c s poll \<equiv> TxManager.New (wire_client c) (wire_signer s) local_manager poll"

lemma local_submit_step:
  assumes "signs_payload s"
  shows "outer_step (goes_on f) (Submit g a impl (local_tm c s poll) (log_ctx x) i l2 input opts)"
  using submit_step [OF assms, of f g a impl c x i l2 input opts] stays_ready_goes_on
  unfolding Submit_poll [of g a impl _ _ _ poll _ _ _ _ _ 0] wire_def outer_step_def by blast

lemma local_deploy_step:
  assumes "signs_payload s" and "quiet_contexts cs"
  shows "outer_step (goes_on f) (TxManager.Deploy g a impl cs (local_tm c s poll) (log_ctx x) i l2 input opts)"
proof -
  have "keeps_outer (extern (reads h))" for h
    by (auto simp: keeps_outer_def extern_def reads_def)
  note clock = outer_step_keeps [OF goes_on_refl this]
  have "client (local_tm c s poll) = wire_client c" by (simp add: TxManager.New_def)
  note wait = wait_step [OF assms(2) this]
  show ?thesis unfolding TxManager.Deploy_def by (rule local_submit_step [OF assms(1)] clock wait goes_on_steps)+
qed

section \<open>The methods of the client\<close>

definition world_step :: "('w \<Rightarrow> 'w \<Rightarrow> bool) \<Rightarrow> (('abi, 'w) safe_world, 'a) prog \<Rightarrow> bool" where
  "world_step Q m \<longleftrightarrow> (\<forall>w r w'. m w = Some (r, w') \<longrightarrow> (\<forall>p. r \<noteq> Panic p) \<longrightarrow> Q (world w) (world w'))"

lemma world_stepD: "world_step Q m \<Longrightarrow> m w = Some (r, w') \<Longrightarrow> \<forall>p. r \<noteq> Panic p \<Longrightarrow> Q (world w) (world w')"
  unfolding world_step_def by blast

lemma world_step_seq:
  assumes Q: "transp Q" and m: "world_step Q m" and h: "\<And>e. world_step Q (h e)" and k: "\<And>x. world_step Q (k x)"
  shows "world_step Q (chk m h k)"
  unfolding world_step_def
  by (intro allI impI) (erule chk_runE; blast intro: transpD [OF Q] world_stepD [OF m] world_stepD [OF h] world_stepD [OF k])

lemma world_step_unit:
  "reflp Q \<Longrightarrow> world_step Q (gret x)" "reflp Q \<Longrightarrow> world_step Q (gfail e)"
  "reflp Q \<Longrightarrow> world_step Q (\<lambda>w. Some (r, w))"
  by (simp_all add: world_step_def gret_def gfail_def reflpD)

lemma world_step_version: "outer_step Q m \<Longrightarrow> world_step Q (on_version v m)"
  by (fastforce simp: world_step_def outer_step_def on_version_def split: option.splits prod.splits)

lemma world_step_world: "(\<And>w r w'. m w = Some (r, w') \<Longrightarrow> Q w w') \<Longrightarrow> world_step Q (on_world m)"
  by (auto simp: world_step_def on_world_def split: option.splits)

lemma world_step_validated: "reflp Q \<Longrightarrow> world_step Q m \<Longrightarrow> world_step Q (validated owners th m)"
  by (auto simp: validated_def world_step_unit split: result.split)

lemmas world_steps = world_step_seq [OF goes_on_trans] world_step_unit [OF goes_on_refl]
  world_step_validated [OF goes_on_refl] world_step_version

datatype client_op =
    OpPredict "address list" byte "byte list"
  | OpIsDeployed address
  | OpDeploy "address list" byte "byte list"
  | OpSubmit "address list" byte "byte list"
  | OpWait "address list" byte "byte list" hash

text \<open>
  One call, its result dropped; then any number of calls, each with a context of its own, whether or
  not each succeeds.
\<close>

fun client_call ::
  "('abi, 'key, 'z) geth_tx_scheme \<Rightarrow> 'abi \<Rightarrow> (float64 \<Rightarrow> u64) \<Rightarrow> ('w, 'ctx) contexts \<Rightarrow> ('w, 's, 'ctx, 'src) client \<Rightarrow> 'ctx \<Rightarrow>
     client_op \<Rightarrow> (('abi, 'w) safe_world, unit) prog" where
  "client_call g a impl cs c ctx (OpPredict os th salt) = chk (PredictAddress g a c os th salt) gfail (\<lambda>_. gret ())"
| "client_call g a impl cs c ctx (OpIsDeployed addr) = chk (SafeClient.IsDeployed c ctx addr) gfail (\<lambda>_. gret ())"
| "client_call g a impl cs c ctx (OpDeploy os th salt) =
     chk (SafeClient.Deploy g a impl cs c ctx os th salt) gfail (\<lambda>_. gret ())"
| "client_call g a impl cs c ctx (OpSubmit os th salt) =
     chk (SubmitDeployment g a impl c ctx os th salt) gfail (\<lambda>_. gret ())"
| "client_call g a impl cs c ctx (OpWait os th salt h) =
     chk (WaitForDeployment g a cs c ctx os th salt h) gfail (\<lambda>_. gret ())"

fun client_calls ::
  "('abi, 'key, 'z) geth_tx_scheme \<Rightarrow> 'abi \<Rightarrow> (float64 \<Rightarrow> u64) \<Rightarrow> ('w, 'ctx) contexts \<Rightarrow> ('w, 's, 'ctx, 'src) client \<Rightarrow>
     ('ctx \<times> client_op) list \<Rightarrow> (('abi, 'w) safe_world, unit) prog" where
  "client_calls g a impl cs c [] = gret ()"
| "client_calls g a impl cs c ((ctx, op) # ops) =
     chk (client_call g a impl cs c ctx op) (\<lambda>_. client_calls g a impl cs c ops) (\<lambda>_. client_calls g a impl cs c ops)"

text \<open>The contexts of the callers, which leave the log of what was sent alone.\<close>

abbreviation with_ctxs :: "('e ctx \<times> client_op) list \<Rightarrow> ('e logged ctx \<times> client_op) list" where
  "with_ctxs ops \<equiv> map (\<lambda>(x, op). (log_ctx x, op)) ops"

lemma IsDeployed_unmoved:
  assumes "client t = wire_client c" and "TxManager.IsDeployed t ctx addr w = Some (r, w')"
  shows "unmoved w w'"
proof -
  have "quiet_prog (TxManager.IsDeployed t ctx addr)"
    unfolding TxManager.IsDeployed_def assms(1) wire_client_def eth_client.simps
    by (intro quiet_chk quiet_over quiet_gret quiet_gfail)
  with assms(2) show ?thesis unfolding quiet_prog_def unmoved_def by blast
qed

lemma dep_step: "outer_step (goes_on f) (dep q)"
  by (rule goes_on_steps)+

lemma client_call_step:
  assumes s: "signs_payload s" and cs: "quiet_contexts cs" and t: "c_txManager c = local_tm cl s poll"
  shows "world_step (goes_on f) (client_call g a impl cs c (log_ctx x) op)"
proof -
  have cl: "client (c_txManager c) = wire_client cl" by (simp add: t TxManager.New_def)
  have deployed: "world_step (goes_on f) (SafeClient.IsDeployed c ctx addr)" for ctx addr
    unfolding SafeClient.IsDeployed_def
    by (rule world_step_world) (rule unmoved_goes_on, rule IsDeployed_unmoved [OF cl])
  show ?thesis
    by (cases op; simp only: client_call.simps PredictAddress_def SafeClient.Deploy_def SubmitDeployment_def WaitForDeployment_def t)
      (rule deployed dep_step local_submit_step [OF s] local_deploy_step [OF s cs] wait_step [OF cs cl [unfolded t]] world_steps)+
qed

lemma client_calls_step:
  assumes "signs_payload s" and "quiet_contexts cs" and "c_txManager c = local_tm cl s poll"
  shows "world_step (goes_on f) (client_calls g a impl cs c (with_ctxs ops))"
  by (induction ops) (auto simp: world_steps client_call_step [OF assms])

section \<open>From New on\<close>

lemma default_manager: "nv_manager local_nonce_value = local_manager"
  by (simp add: local_nonce_value_def local_manager_def)

lemma default_client_goes_on:
  assumes s: "signs_payload s" and cs: "quiet_contexts cs" and "NonceManager opts = None" and "opt_Signer opts = Some (wire_signer s)"
    and "opt_Client opts = Some (wire_client cl, log_source f)" and "SafeClient.New g local_New opts w = Some (Ok c, w1)"
    and run: "client_calls g a impl cs c (with_ctxs ops) w1 = Some (Ok (), w2)"
  shows "ready f (world w2) \<and> log_follows Fetch (sent_after (world w) (world w2))"
proof -
  from New_local [OF assms(3-6)] obtain poll where t: "c_txManager c = local_tm cl s poll"
    and w1: "ready f (world w1)" "counter_of (mgr (world w1)) = Fetch" "env (world w1) = env (world w)"
    by (auto simp: ready_def wired_def default_manager)
  from world_stepD [OF client_calls_step [OF s cs t] run, of f] have "goes_on f (world w1) (world w2)" by simp
  with w1 obtain l where "ready f (world w2)" and l: "sends (env (world w2)) = sends (env (world w)) @ l"
    and "\<forall>l'. log_follows (counter_of (mgr (world w2))) l' \<longrightarrow> log_follows Fetch (l @ l')"
    unfolding goes_on_def by auto
  moreover from this(3) have "log_follows Fetch (l @ [])" by (elim allE [of _ "[]"]) simp
  ultimately show ?thesis by (simp add: sent_after_def l)
qed

text \<open>An instance: the node and the signer of \<open>demo_client\<close>, version 1.4.1 on chain 1.\<close>

definition default_opts :: "(bool list logged local_world, nat, bool list logged ctx, bool list logged source) Options" where
  "default_opts =
     \<lparr>opt_Chain = Some demo_chain, opt_Client = Some (wire_client demo_client, log_source (\<lambda>_ _. gret 7)),
      opt_Signer = Some (wire_signer demo_signer), opt_Version = ''1.4.1'', NonceManager = None, DeployTimeout = 0,
      opt_GasMultiplier = Fin 0 0, ReceiptPollInterval = 0\<rparr>"

definition default_contexts :: "(bool list logged local_world, bool list logged ctx) contexts" where
  "default_contexts = \<lparr>select_timer = \<lambda>_ _ w. (Some context_DeadlineExceeded, w), WithTimeout = \<lambda>c _ _. c\<rparr>"

lemma default_contexts_quiet: "quiet_contexts default_contexts"
  by (simp add: quiet_contexts_def default_contexts_def unmoved_def)

definition default_world :: "bool list logged local_world" where
  "default_world = \<lparr>mgr = LocalNonce.NewNonceManager 0, slots = [], env = \<lparr>base = [True, True, True, True], sends = []\<rparr>\<rparr>"

lemma default_New:
  "\<exists>c w. SafeClient.New demo_tx local_New default_opts (demo_safe_of default_world) = Some (Ok c, w) \<and>
     c_version c = ''1.4.1'' \<and> c_chain c = demo_chain \<and> c_opts c = default_opts \<and>
     c_txManager c = local_tm demo_client demo_signer 2000000000 \<and>
     world w = default_world\<lparr>mgr := (LocalNonce.NewNonceManager 0)\<lparr>source := Some (log_source (\<lambda>_ _. gret 7)), nm_address := 9\<rparr>\<rparr>"
proof -
  from demo_New_checks [of default_world] show ?thesis
    by (auto simp: SafeClient.New_def Let_def opt_validate_def default_opts_def demo_chain_def gret_def demo_safe_of_def on_world_def
        local_New_def local_nonce_value_def LocalNonce.Init_def demo_signer_def wire_signer_def default_world_def
        opt_receiptPollInterval_def SafeClient.defaultReceiptPollInterval_def local_manager_def)
qed

lemma default_first_call:
  assumes w: "same_world demo_tx (demo_tx_world v) w"
    and o: "outer w = default_world\<lparr>mgr := (LocalNonce.NewNonceManager 0)\<lparr>source := Some (log_source (\<lambda>_ _. gret 7)), nm_address := 9\<rparr>\<rparr>"
  shows "\<exists>w' tx h. same_world demo_tx (demo_tx_world v) w' \<and>
    outer w' = demo_local 7 [True, True] [True] [(tx, True)] \<and> demo_call opts w = Some (Ok h, w')"
proof -
  from demo_submit [OF w, of "\<lambda>_. 0" "wire demo_client demo_signer" "log_ctx (\<lambda>_ e. (None, e))" opts] o
  obtain w' h tx where r: "demo_call opts w = Some (Ok h, w'\<lparr>outer := demo_local 7 [True, True] [True] [(tx, True)]\<rparr>)"
    and w': "same_world demo_tx (demo_tx_world v) w'"
    by (auto simp: demo_call_def with_slot_eval demo_local_eval Let_def default_world_def LocalNonce.NewNonceManager_def log_source_def fetch_pending_def)
  from w' have "same_world demo_tx (demo_tx_world v) (w'\<lparr>outer := x\<rparr>)" for x by (simp add: same_world_def)
  with r show ?thesis by force
qed

definition default_ops :: "(bool list ctx \<times> client_op) list" where
  "default_ops = map (Pair (\<lambda>_ e. (None, e))) [OpSubmit [] 1 [], OpSubmit [5] 1 [1, 2], OpPredict [] 1 [], OpSubmit [5] 1 [1, 2]]"

lemma on_version_to:
  "registered v w \<Longrightarrow> m (view v w) = Some (r, t) \<Longrightarrow>
    \<exists>w'. on_version v m w = Some (r, w') \<and> registered v w' \<and> view v w' = t \<and> world w' = outer t"
  by (auto simp: on_version_view registered_def view_def update_conv')

lemma default_run:
  "\<exists>c w1 w2. SafeClient.New demo_tx local_New default_opts (demo_safe_of default_world) = Some (Ok c, w1) \<and>
     client_calls demo_tx ''[]'' (\<lambda>_. 0) default_contexts c (with_ctxs default_ops) w1 = Some (Ok (), w2) \<and>
     length (sends (env (world w2))) = 2 \<and> (\<forall>e \<in> set (sends (env (world w2))). snd e)"
proof -
  let ?v = "default_world\<lparr>mgr := (LocalNonce.NewNonceManager 0)\<lparr>source := Some (log_source (\<lambda>_ _. gret 7)), nm_address := 9\<rparr>\<rparr>"
    and ?o = "Some \<lparr>GasMultiplier = opt_gasMultiplier default_opts, Timeout = 0\<rparr>"
  from default_New obtain c w1 where new: "SafeClient.New demo_tx local_New default_opts (demo_safe_of default_world) = Some (Ok c, w1)"
    and c: "c_version c = ''1.4.1''" "c_chain c = demo_chain" "c_opts c = default_opts"
      "c_txManager c = local_tm demo_client demo_signer 2000000000" and w1: "world w1 = ?v" by blast
  have ok: "registry_ok demo_tx (demo_safe_of default_world)"
    using demo_version(1) [of default_world] by (simp add: SafeClient.registry_ok_def demo_safe_of_def demo_tx_world_def)
  from keeps_registryD [OF keeps_registry_New ok new] obtain d
    where d: "map_of (versions w1) ''1.4.1'' = Some d" "same_files demo_deployment d" and ch: "chains w1 = Map.empty"
      and dok: "deployment_ok demo_tx d"
    by (auto simp: same_registry_def SafeClient.registry_ok_def demo_safe_of_def option_rel_Some1 dest!: spec [of _ "''1.4.1''"])
  have reg: "registered ''1.4.1'' w1" by (simp add: registered_def d)
  have "same_world demo_tx (demo_tx_world default_world) (view ''1.4.1'' w1)" and "outer (view ''1.4.1'' w1) = ?v"
    using d ch dok w1 by (simp_all add: same_world_def view_def demo_tx_world_def)
  from default_first_call [OF this, of ?o] obtain t tx h where t: "same_world demo_tx (demo_tx_world default_world) t"
    "outer t = demo_local 7 (True # True # []) [True] [(tx, True)]" "demo_call ?o (view ''1.4.1'' w1) = Some (Ok h, t)" by auto
  from demo_call_sent [OF t(1,2), of ?o] obtain u ty h' where u: "outer u = demo_local 8 [] [True, True] [(tx, True), (ty, True)]"
    "demo_call ?o t = Some (Ok h', u)" by auto
  have bad: "validateSafeConfig [] 1 = Err ErrEmptyOwners" by (simp add: validateSafeConfig_def)
  have input: "safe_input [5] 1 [1, 2] = demo_input" by (simp add: safe_input_def demo_input_def)
  have sub: "client_call demo_tx ''[]'' (\<lambda>_. 0) default_contexts c (log_ctx (\<lambda>_ e. (None, e))) (OpSubmit [5] 1 [1, 2]) w = Some (Ok (), w')"
    if "on_version ''1.4.1'' (demo_call ?o) w = Some (Ok h, w')" for h w w'
    using that demo_config by (simp add: SubmitDeployment_def validated_def input c demo_chain_def demo_call_def wire_def
        Submit_poll [of _ _ _ _ _ _ 2000000000 _ _ _ _ _ 0] gret_def)
  have refused: "\<exists>e. client_call demo_tx ''[]'' (\<lambda>_. 0) default_contexts c (log_ctx (\<lambda>_ e. (None, e))) op w = Some (Err e, w)"
    if "op = OpSubmit [] 1 [] \<or> op = OpPredict [] 1 []" for op w
    using that bad by (auto simp: SubmitDeployment_def PredictAddress_def validated_def gfail_def gret_def)
  from refused [of "OpSubmit [] 1 []" w1] obtain e where e: "client_call demo_tx ''[]'' (\<lambda>_. 0) default_contexts c
    (log_ctx (\<lambda>_ e. (None, e))) (OpSubmit [] 1 []) w1 = Some (Err e, w1)" by blast
  from on_version_to [OF reg, of "demo_call ?o"] t(3) obtain w2 where w2: "on_version ''1.4.1'' (demo_call ?o) w1 = Some (Ok h, w2)"
    "registered ''1.4.1'' w2" "view ''1.4.1'' w2 = t" by blast
  from on_version_to [OF w2(2), of "demo_call ?o"] w2(3) u obtain w3
    where w3: "on_version ''1.4.1'' (demo_call ?o) w2 = Some (Ok h', w3)" "world w3 = outer u" by auto
  from refused [of "OpPredict [] 1 []" w2] obtain e' where e': "client_call demo_tx ''[]'' (\<lambda>_. 0) default_contexts c
    (log_ctx (\<lambda>_ e. (None, e))) (OpPredict [] 1 []) w2 = Some (Err e', w2)" by blast
  have "client_calls demo_tx ''[]'' (\<lambda>_. 0) default_contexts c (with_ctxs default_ops) w1 = Some (Ok (), w3)"
    using sub [OF w2(1)] sub [OF w3(1)] e e' by (simp add: default_ops_def gret_def del: client_call.simps)
  with new w3(2) u(1) show ?thesis by (auto simp: demo_local_def)
qed

end
