(* ===== verification/Senders.thy ===== *)
theory Senders
  imports TxNonce LocalConc
begin

text \<open>
  Many goroutines that call \<open>Submit\<close> at the same time. A nonce manager is a step relation whose
  visible events hand out nonces and resolve slots; the senders synchronise with it on these events
  and, in between, hand signed transactions to the node. What they put on the wire follows the
  contract of the counter for every manager whose histories do; the local manager is one.
\<close>

section \<open>Senders and their manager\<close>

text \<open>A slot that is out: nothing sent yet, or sent with the answer of the node.\<close>

datatype phase = Kept u64 | Put u64 bool

text \<open>How \<open>Submit\<close> resolves a slot, by what happened to its transaction.\<close>

fun settles :: "phase \<Rightarrow> resolution \<Rightarrow> bool" where
  "settles (Kept n) r = (r = Reuse)"
| "settles (Put n taken) r = (r = (if taken then Commit else Reclaim))"

text \<open>The manager, the slots that are out, and what the node was handed with its answers.\<close>

type_synonym 's senders = "'s \<times> phase list \<times> (signed_tx \<times> bool) list"

definition without :: "nat \<Rightarrow> 'a list \<Rightarrow> 'a list" where
  "without k xs = take k xs @ drop (Suc k) xs"

inductive sstep :: "('s \<Rightarrow> event \<Rightarrow> 's \<Rightarrow> bool) \<Rightarrow> 's senders \<Rightarrow> event \<Rightarrow> 's senders \<Rightarrow> bool" for step where
  inner: "step s Tau s' \<Longrightarrow> sstep step (s, F, l) Tau (s', F, l)"
| given: "step s (Hand n) s' \<Longrightarrow> sstep step (s, F, l) (Hand n) (s', F @ [Kept n], l)"
| sent: "k < length F \<Longrightarrow> F ! k = Kept (Nonce (payload tx)) \<Longrightarrow>
    sstep step (s, F, l) Tau (s, F[k := Put (Nonce (payload tx)) taken], l @ [(tx, taken)])"
| settled: "step s (Resolved r) s' \<Longrightarrow> k < length F \<Longrightarrow> settles (F ! k) r \<Longrightarrow>
    sstep step (s, F, l) (Resolved r) (s', without k F, l)"

text \<open>Runs of any step relation with such events, and their history.\<close>

inductive runs :: "('s \<Rightarrow> event \<Rightarrow> 's \<Rightarrow> bool) \<Rightarrow> 's \<Rightarrow> event list \<Rightarrow> 's \<Rightarrow> bool" for step where
  here: "runs step s [] s"
| there: "runs step s es s' \<Longrightarrow> step s' e s'' \<Longrightarrow> runs step s (es @ visible e) s''"

lemma runs_one: "step s e s' \<Longrightarrow> runs step s (visible e) s'"
  using runs.there [OF runs.here] by fastforce

lemma runs_append: "runs step s' fs s'' \<Longrightarrow> runs step s es s' \<Longrightarrow> runs step s (es @ fs) s''"
proof (induction rule: runs.induct)
  case (there s0 fs s1 e s2)
  from runs.there [OF there.IH [OF there.prems] there.hyps(2)] show ?case by simp
qed simp

lemma lrun_runs: "lrun ctxs s es s' \<longleftrightarrow> runs (lstep ctxs) s es s'"
proof
  show "lrun ctxs s es s' \<Longrightarrow> runs (lstep ctxs) s es s'" by (induction rule: lrun.induct) (auto intro: runs.intros)
  show "runs (lstep ctxs) s es s' \<Longrightarrow> lrun ctxs s es s'" by (induction rule: runs.induct) (auto intro: lrun.intros)
qed

text \<open>The manager's part of a run of the senders is a run of the manager.\<close>

lemma sstep_manager: "sstep step x e y \<Longrightarrow> step (fst x) e (fst y) \<or> e = Tau \<and> fst y = fst x"
  by (induction rule: sstep.induct) auto

lemma runs_manager: "runs (sstep step) x es y \<Longrightarrow> runs step (fst x) es (fst y)"
proof (induction rule: runs.induct)
  case (there x es y e z)
  from sstep_manager [OF there.hyps(2)] there.IH runs.there [of step "fst x" es "fst y" e "fst z"] show ?case
    by (auto simp: visible_def)
qed (rule runs.here)

section \<open>The contract carries over to the wire\<close>

locale slot_machine =
  fixes step :: "'s \<Rightarrow> event \<Rightarrow> 's \<Rightarrow> bool"
    and begins :: "'s \<Rightarrow> counter \<Rightarrow> bool"
    and legal :: "event \<Rightarrow> bool"
  assumes history: "begins s c \<Longrightarrow> runs step s es s' \<Longrightarrow> \<forall>e \<in> set es. legal e \<Longrightarrow> spec_after (Free c) es \<noteq> None"
begin

text \<open>
  While the contract is free no slot is out, and while it holds a nonce exactly that slot is; the log
  so far can be continued by any log that follows the counter the slot will leave.
\<close>

definition in_step :: "counter \<Rightarrow> spec \<Rightarrow> phase list \<Rightarrow> (signed_tx \<times> bool) list \<Rightarrow> bool" where
  "in_step c x F l \<longleftrightarrow>
     (\<exists>k. (\<forall>l'. log_follows k l' \<longrightarrow> log_follows c (l @ l')) \<and>
       (x = Free k \<and> F = [] \<or>
        (\<exists>n. x = Held n \<and> (F = [Kept n] \<and> k = Next n \<or>
          (\<exists>taken. F = [Put n taken] \<and> k = resolve n (if taken then Commit else Reclaim))))))"

lemma in_step_start: "in_step c (Free c) [] []"
  by (auto simp: in_step_def)

lemma sender_step:
  assumes "sstep step (s, F, l) e (s', F', l')" and "in_step c x F l" and "spec_after x (visible e) = Some y"
  shows "in_step c y F' l'"
  using assms(1)
proof (cases rule: sstep.cases)
  case inner
  with assms(2,3) show ?thesis by (simp add: visible_def)
next
  case (given n)
  with assms(3) obtain k where "x = Free k" "admits k n" "y = Held n"
    by (cases x) (auto simp: visible_def split: if_splits)
  with given assms(2) log_follows_admits show ?thesis by (auto simp: in_step_def)
next
  case (sent k tx taken)
  with assms(2,3) have "x = Held (Nonce (payload tx))" "y = x" "F = [Kept (Nonce (payload tx))]"
    "\<forall>l'. log_follows (Next (Nonce (payload tx))) l' \<longrightarrow> log_follows c (l @ l')" "k = 0"
    by (auto simp: in_step_def visible_def)
  with sent show ?thesis by (auto simp: in_step_def)
next
  case (settled r k)
  with assms(2,3) show ?thesis
    by (cases x) (auto simp: in_step_def visible_def without_def)
qed

lemma senders_in_step:
  "runs (sstep step) x es y \<Longrightarrow> x = (s, [], []) \<Longrightarrow> begins s c \<Longrightarrow> \<forall>e \<in> set es. legal e \<Longrightarrow>
     \<exists>z. spec_after (Free c) es = Some z \<and> in_step c z (fst (snd y)) (snd (snd y))"
proof (induction rule: runs.induct)
  case (here x)
  then show ?case by (simp add: in_step_start)
next
  case (there x es y e z)
  from runs_manager [OF runs.there [OF there.hyps]] there.prems
  have "spec_after (Free c) (es @ visible e) \<noteq> None" by (intro history) auto
  with there obtain u v where "spec_after (Free c) es = Some u" "in_step c u (fst (snd y)) (snd (snd y))"
    "spec_after (Free c) (es @ visible e) = Some v" "spec_after u (visible e) = Some v"
    by (auto simp: spec_after_append)
  with there.hyps(2) sender_step show ?case by (metis prod.collapse)
qed

lemma senders_follow:
  assumes "runs (sstep step) (s, [], []) es (s', F, l)" and "begins s c" and "\<forall>e \<in> set es. legal e"
  shows "log_follows c l \<and> length F \<le> 1"
proof -
  from senders_in_step [OF assms(1) refl assms(2,3)] obtain z where z: "in_step c z F l" by auto
  then obtain k where "\<forall>l'. log_follows k l' \<longrightarrow> log_follows c (l @ l')" by (auto simp: in_step_def)
  then have "log_follows k [] \<longrightarrow> log_follows c (l @ [])" by blast
  with z show ?thesis by (auto simp: in_step_def)
qed

end

lemma log_follows_consecutive:
  assumes "log_follows c l" and "\<forall>e \<in> set l. snd e"
  shows "\<exists>k. map (\<lambda>e. Nonce (payload (fst e))) l = map (\<lambda>j. k + of_nat j) [0..<length l]"
  using assms log_follows_fetched log_follows_taken by (cases c) blast+

text \<open>A whole use of a slot, while the other senders stand still.\<close>

fun wire_of :: "resolution \<Rightarrow> signed_tx \<Rightarrow> (signed_tx \<times> bool) list" where
  "wire_of Commit tx = [(tx, True)]"
| "wire_of Reclaim tx = [(tx, False)]"
| "wire_of Reuse tx = []"

lemma runs_there: "runs (sstep step) x es y \<Longrightarrow> sstep step y e z \<Longrightarrow> fs = es @ visible e \<Longrightarrow> runs (sstep step) x fs z"
  using runs.there by fastforce

lemma without_last [simp]: "without (length F) (F @ [p]) = F"
  by (simp add: without_def)

text \<open>A run of the manager with at most one visible event is one of the senders.\<close>

lemma runs_silent: "runs step s es s' \<Longrightarrow> es = [] \<Longrightarrow> runs (sstep step) (s, F, l) [] (s', F, l)"
proof (induction rule: runs.induct)
  case (there s es s' e s'')
  then have "es = []" and e: "e = Tau" by (auto simp: visible_def split: if_splits)
  with there.IH have "runs (sstep step) (s, F, l) [] (s', F, l)" by simp
  moreover from there.hyps(2) e have "sstep step (s', F, l) e (s'', F, l)" by (simp add: sstep.inner)
  ultimately show ?case by (rule runs_there) (simp add: e visible_def)
qed (simp add: runs.here)

lemma runs_single:
  "runs step s es s' \<Longrightarrow> es = [e] \<Longrightarrow> e \<noteq> Tau \<and> (\<exists>u v. runs step s [] u \<and> step u e v \<and> runs step v [] s')"
proof (induction rule: runs.induct)
  case (there s es s' e' s'')
  show ?case
  proof (cases "e' = Tau")
    case True
    with there obtain u v where "e \<noteq> Tau" "runs step s [] u" "step u e v" "runs step v [] s'" by (auto simp: visible_def)
    with runs.there [of step v "[]" s' e' s''] there.hyps(2) True show ?thesis by (auto simp: visible_def)
  next
    case False
    with there show ?thesis by (auto simp: visible_def intro: runs.here)
  qed
qed simp

lemma runs_given:
  assumes "runs step s [Hand n] s'"
  shows "runs (sstep step) (s, F, l) [Hand n] (s', F @ [Kept n], l)"
proof -
  from runs_single [OF assms refl] obtain u v where u: "runs step s [] u" and e: "step u (Hand n) v" and v: "runs step v [] s'"
    by blast
  from runs_there [OF runs_silent [OF u refl] sstep.given [where step = step and F = F and l = l, OF e]] have "runs (sstep step) (s, F, l) [Hand n] (v, F @ [Kept n], l)"
    by (simp add: visible_def)
  from runs_append [OF runs_silent [OF v refl] this] show ?thesis by simp
qed

lemma runs_settled:
  assumes "runs step s [Resolved r] s'" and "settles p r"
  shows "runs (sstep step) (s, F @ [p], l) [Resolved r] (s', F, l)"
proof -
  from runs_single [OF assms(1) refl] obtain u v where u: "runs step s [] u" and e: "step u (Resolved r) v" and v: "runs step v [] s'"
    by blast
  from sstep.settled [where step = step and F = "F @ [p]" and k = "length F" and l = l, OF e] assms(2)
  have "sstep step (u, F @ [p], l) (Resolved r) (v, F, l)" by simp
  from runs_there [OF runs_silent [OF u refl] this] have "runs (sstep step) (s, F @ [p], l) [Resolved r] (v, F, l)"
    by (simp add: visible_def)
  from runs_append [OF runs_silent [OF v refl] this] show ?thesis by simp
qed

text \<open>One use of a slot from \<open>Acquire\<close> to its resolution: what is sent in between is sent with its nonce.\<close>

lemma runs_use:
  assumes acq: "runs step s [Hand n] u" and quiet: "runs step u [] v" and res: "runs step v [Resolved r] s'"
    and tx: "r \<noteq> Reuse \<longrightarrow> Nonce (payload tx) = n"
  shows "runs (sstep step) (s, F, l) [Hand n, Resolved r] (s', F, l @ wire_of r tx)"
proof -
  from runs_append [OF runs_silent [OF quiet refl] runs_given [OF acq]]
  have kept: "runs (sstep step) (s, F, l) [Hand n] (v, F @ [Kept n], l)" by simp
  have "\<exists>p. settles p r \<and> runs (sstep step) (s, F, l) [Hand n] (v, F @ [p], l @ wire_of r tx)"
  proof (cases "r = Reuse")
    case True
    with kept show ?thesis by (intro exI [of _ "Kept n"]) simp
  next
    case False
    with tx have n: "Nonce (payload tx) = n" by simp
    have "sstep step (v, F @ [Kept n], l) Tau (v, F @ [Put n (r = Commit)], l @ [(tx, r = Commit)])"
      using sstep.sent [of "length F" "F @ [Kept n]" tx step v l "r = Commit"] n by simp
    from runs_there [OF kept this, of "[Hand n]"] False show ?thesis
      by (intro exI [of _ "Put n (r = Commit)"]; cases r) (auto simp: visible_def)
  qed
  then obtain p where p: "settles p r" and sent: "runs (sstep step) (s, F, l) [Hand n] (v, F @ [p], l @ wire_of r tx)" by blast
  from runs_append [OF runs_settled [OF res p] sent] show ?thesis by simp
qed

text \<open>If the node took everything it was handed, no slot was given back as failed.\<close>

lemma sstep_accepted:
  assumes "sstep step (s, F, l) e (s', F', l')" and "\<forall>x \<in> set l'. snd x" and "\<forall>n. Put n False \<notin> set F"
  shows "(\<forall>x \<in> set l. snd x) \<and> e \<noteq> Resolved Reclaim \<and> (\<forall>n. Put n False \<notin> set F')"
  using assms(1)
proof (cases rule: sstep.cases)
  case (sent k tx taken)
  with assms(2,3) set_update_subset_insert [of F k "Put (Nonce (payload tx)) taken"] show ?thesis by auto
next
  case (settled r k)
  then have "F ! k \<in> set F" by simp
  with settled assms(3) have "r \<noteq> Reclaim" by (cases "F ! k") (auto split: if_splits)
  with settled assms(2,3) show ?thesis by (auto simp: without_def dest: in_set_takeD in_set_dropD)
qed (use assms(2,3) in auto)

lemma accepted_no_reclaim:
  "runs (sstep step) x es (s', F, l) \<Longrightarrow> x = (s, [], []) \<Longrightarrow> \<forall>e \<in> set l. snd e \<Longrightarrow>
     Resolved Reclaim \<notin> set es \<and> (\<forall>n. Put n False \<notin> set F)"
proof (induction x es "(s', F, l)" arbitrary: s' F l rule: runs.induct)
  case (there x es y e)
  obtain s2 F2 l2 where y: "y = (s2, F2, l2)" by (cases y) auto
  { assume "\<forall>e \<in> set l2. snd e"
    with there.hyps(2) [OF y there.prems(1)] have "Resolved Reclaim \<notin> set es \<and> (\<forall>n. Put n False \<notin> set F2)" by blast }
  note before = this
  have sub: "\<forall>x \<in> set l2. snd x" using there.hyps(3) there.prems(2) unfolding y by (cases rule: sstep.cases) auto
  from sstep_accepted [OF there.hyps(3) [unfolded y] there.prems(2)] before [OF sub] show ?case by (auto simp: visible_def)
qed simp

section \<open>Submit as one use of a slot\<close>

lemma keeps_outerD: "keeps_outer m \<Longrightarrow> m w = Some (q, v) \<Longrightarrow> outer v = outer w"
  by (simp add: keeps_outer_def)

text \<open>What \<open>Submit\<close> does outside the deployment is one use of a slot, or nothing.\<close>

lemma submit_inv:
  assumes "Submit g a impl t ctx i l2 input opts w = Some (r, w')" and np: "\<forall>p. r \<noteq> Panic p"
  obtains (early) e where "r = Err e" and "outer w' = outer w"
  | (slot) f d p q where "with_slot (nm_Acquire (nonceManager t) ctx) (resolve_slot (nonceManager t))
        (prepare_tx impl t ctx i opts f d p) (SendTransaction (client t) ctx) (outer w) = Some (q, outer w')"
      and "\<And>tx. q = Ok tx \<Longrightarrow> r = Ok (TxHash g tx)" and "\<And>e. q = Err e \<Longrightarrow> r = Err e" and "\<forall>p. q \<noteq> Panic p"
proof -
  from assms(1) show ?thesis unfolding Submit_slots submit_spec_def
  proof (cases rule: chk_cases [OF _ np, consumes 1, case_names calldata no_calldata])
    case (calldata cd v)
    have v: "outer v = outer w" by (rule keeps_outerD [OF keeps_outer_buildCalldata calldata(1)])
    from calldata(2) show ?thesis
    proof (cases rule: chk_cases [OF _ np, consumes 1, case_names factory no_factory])
      case (factory f x)
      have x: "outer x = outer w" using keeps_outerD [OF keeps_outer_dep factory(1)] v by simp
      from factory(2) show ?thesis
      proof (cases rule: chk_cases [OF _ np, consumes 1, case_names predicted unpredicted])
        case (predicted p y)
        have y: "outer y = outer w" using keeps_outerD [OF keeps_outer_dep predicted(1)] x by simp
        from predicted(2) show ?thesis
          by (rule chk_cases [OF _ np]) (auto simp: extern_def y gret_def gfail_def split: option.splits prod.splits intro!: slot)
      qed (use x keeps_outerD [OF keeps_outer_dep] early in \<open>force simp: gfail_def\<close>)
    qed (use v keeps_outerD [OF keeps_outer_dep] early in \<open>force simp: gfail_def\<close>)
  qed (use keeps_outerD [OF keeps_outer_buildCalldata] early in \<open>force simp: gfail_def\<close>)
qed

end
