(* ===== verification/LocalSenders.thy ===== *)
theory LocalSenders
  imports Senders ClientRun
begin

text \<open>
  Goroutines that share one client on the local manager: each call of \<open>Submit\<close> is a run of the senders,
  and in every interleaving the node receives the nonces of the contract.
\<close>

section \<open>Goroutines on the local manager\<close>

interpretation local_machine: slot_machine "lstep ctxs" "\<lambda>s c. (\<exists>delay e. s = start delay e) \<and> c = Fetch" "\<lambda>_. True" for ctxs
proof unfold_locales
  fix s c es s'
  assume s: "(\<exists>delay e. s = start delay e) \<and> c = Fetch" and run: "runs (lstep ctxs) s es s'"
  then obtain delay e where "s = start delay e" and c: "c = Fetch" by blast
  with run have "lrun ctxs (start delay e) es s'" by (simp add: lrun_runs)
  from lrun_spec_after [OF this start_inv start_slots_exist] c show "spec_after (Free c) es \<noteq> None" by simp
qed

text \<open>The environment steps let a program of the client run that leaves the manager alone.\<close>

lemma quiet_runs:
  assumes "quiet_prog m" and "m w = Some (r, w')"
  shows "runs (lstep ctxs) (w, P) [] (w', P)"
proof -
  have "w' = w\<lparr>env := env w'\<rparr>" using quiet_progD [OF assms] by (cases w; cases w') simp
  with lstep.environment [of ctxs w P "env w'"] runs_one [of "lstep ctxs" "(w, P)" Tau] show ?thesis
    by (simp add: visible_def)
qed

lemma wire_send_runs:
  assumes "wire_send f tx w = Some (r, w')"
  shows "runs (lstep ctxs) (w, P) [] (w', P)"
proof -
  have "w' = w\<lparr>env := env w'\<rparr>" using wire_send_run [OF assms] by (cases w; cases w') simp
  with lstep.environment [of ctxs w P "env w'"] runs_one [of "lstep ctxs" "(w, P)" Tau] show ?thesis
    by (simp add: visible_def)
qed

lemma slot_resolve_unit: "slot_resolve p k w = Some (q, w') \<Longrightarrow> q = Ok ()"
  by (cases p) (auto simp: slot_Commit_def slot_Reuse_def slot_Reclaim_def send_token_def Let_def split: if_splits)

text \<open>One use of the slot, for each of its three ends.\<close>

lemma local_use_runs:
  assumes acq: "LocalNonce.Acquire (log_ctx x) w = Some (Ok (n, k), v)" and idle: "is_idle w" and P: "P t = Idle" "ctxs t = log_ctx x"
    and u: "runs (lstep ctxs) (v, P) [] (u, P)" "slots u = slots v"
    and res: "slot_resolve p k u = Some (q, w')" and tx: "p \<noteq> Reuse \<longrightarrow> Nonce (payload tx) = n"
  shows "runs (sstep (lstep ctxs)) ((w, P), F, l) [Hand n, Resolved p] ((w', P), F, l @ wire_of p tx)"
proof -
  from idle have "inflightCh (mgr w) \<le> 1" by (simp add: is_idle_def)
  with Acquire_run [where ctxs = ctxs and t = t and P = P, unfolded P(2), OF acq P(1)] have hand: "runs (lstep ctxs) (w, P) [Hand n] (v, P)"
    by (simp add: lrun_runs)
  from Acquire_ok [OF idle acq] u(2) have k: "k < length (slots u)" "\<not> slots u ! k"
    by (auto simp: holds_slot_def unresolved_iff)
  from res slot_resolve_unit have "slot_resolve p k u = Some (Ok (), w')" by blast
  from slot_resolve_run [where P = P and t = t and ctxs = ctxs, OF this P(1) k(1)] k(2) have "runs (lstep ctxs) (u, P) [Resolved p] (w', P)" by (simp add: lrun_runs)
  from runs_use [OF hand u(1) this tx] show ?thesis .
qed

lemma local_slot_is_run:
  assumes ready: "ready f w" and s: "signs_payload s" and P: "P t = Idle" "ctxs t = log_ctx x"
    and run: "with_slot (LocalNonce.Acquire (log_ctx x)) slot_resolve
      (prepare_tx impl (wire c s) ctx i opts fac d a) (wire_send send) w = Some (r, w')" and np: "\<forall>p. r \<noteq> Panic p"
  shows "(\<exists>e. r = Err e) \<and> (\<exists>e. LocalNonce.Acquire (log_ctx x) w = Some (Err e, w')) \<or>
    (\<exists>n p tx. sent_after w w' = wire_of p tx \<and> (if p = Commit then r = Ok tx else \<exists>e. r = Err e) \<and>
      runs (sstep (lstep ctxs)) ((w, P), F, l) [Hand n, Resolved p] ((w', P), F, l @ wire_of p tx))"
proof -
  from ready have idle: "is_idle w" and wired: "wired f w" by (simp_all add: ready_def)
  have log: "sends (env w') = sends (env u) \<and> sends (env v) = sends (env w)"
    if "LocalNonce.Acquire (log_ctx x) w = Some (Ok (n, k), v)" "mgr u = mgr v" "slot_resolve p k u = Some (q, w')" for n k v u p q
    using Acquire_frame [OF wired that(1)] slot_resolve_frame [OF _ that(3)] that(2) by (simp add: wired_def)
  note use = local_use_runs [where ctxs = ctxs and P = P and t = t and F = F and l = l, OF _ idle P]
  note prep = quiet_progD [OF quiet_prepare] and prep_runs = quiet_runs [OF quiet_prepare]
  from run np show ?thesis
  proof (cases rule: with_slot_inv)
    case (reused n k v u e q)
    from use [OF reused(1) prep_runs [OF reused(2)] _ reused(3)] prep [OF reused(2)] log [OF reused(1) _ reused(3)] reused(4)
      slot_resolve_unit [OF reused(3)]
    show ?thesis by (intro disjI2 exI [of _ n] exI [of _ Reuse]) (simp add: sent_after_def)
  next
    case (reclaimed n k v tx y u e q)
    from runs_append [OF wire_send_runs [OF reclaimed(3)] prep_runs [OF reclaimed(2)]]
    have "runs (lstep ctxs) (v, P) [] (u, P)" by simp
    from use [OF reclaimed(1) this _ reclaimed(4)] prep [OF reclaimed(2)] wire_send_run [OF reclaimed(3)] prepare_nonce [OF s reclaimed(2)]
      log [OF reclaimed(1) _ reclaimed(4)] reclaimed(5) slot_resolve_unit [OF reclaimed(4)]
    show ?thesis by (intro disjI2 exI [of _ n] exI [of _ Reclaim] exI [of _ tx]) (simp add: sent_after_def)
  next
    case (committed n k v tx y u q)
    from runs_append [OF wire_send_runs [OF committed(3)] prep_runs [OF committed(2)]]
    have "runs (lstep ctxs) (v, P) [] (u, P)" by simp
    from use [OF committed(1) this _ committed(4)] prep [OF committed(2)] wire_send_run [OF committed(3)] prepare_nonce [OF s committed(2)]
      log [OF committed(1) _ committed(4)] committed(5) slot_resolve_unit [OF committed(4)]
    show ?thesis by (intro disjI2 exI [of _ n] exI [of _ Commit] exI [of _ tx]) (simp add: sent_after_def)
  qed blast
qed

section \<open>Submit on the local manager\<close>

lemma submit_runs:
  assumes "Submit g a impl (wire c s) (log_ctx x) i l2 input opts w = Some (r, w')" and "\<forall>p. r \<noteq> Panic p"
    and "signs_payload s" and "ready f (outer w)" and "P t = Idle" and "ctxs t = log_ctx x"
  shows "(\<exists>e. r = Err e) \<and> (outer w' = outer w \<or> (\<exists>e. LocalNonce.Acquire (log_ctx x) (outer w) = Some (Err e, outer w'))) \<or>
    (\<exists>n p tx. sent_after (outer w) (outer w') = wire_of p tx \<and> (if p = Commit then r = Ok (TxHash g tx) else \<exists>e. r = Err e) \<and>
      runs (sstep (lstep ctxs)) ((outer w, P), F, l) [Hand n, Resolved p] ((outer w', P), F, l @ wire_of p tx))"
  using assms(1,2)
proof (cases rule: submit_inv)
  case (slot fac d b q)
  from local_slot_is_run [where P = P and t = t and ctxs = ctxs and F = F and l = l, OF assms(4,3,5,6) slot(1) [unfolded wire_simps] slot(4)] slot(2,3)
  show ?thesis by (auto split: if_splits) metis+
qed simp

text \<open>Two calls of \<open>Submit\<close> on a new manager, one by each of two goroutines.\<close>

abbreviation demo_wire where
  "demo_wire \<equiv> lstep (\<lambda>_. log_ctx (\<lambda>_ e. (None, e))) :: bool list logged conc \<Rightarrow> event \<Rightarrow> bool list logged conc \<Rightarrow> bool"

lemma demo_call_runs:
  assumes "demo_call None w = Some (Ok h, w')" and "ready (\<lambda>_ a. gret 7) (outer w)" and "sent_after (outer w) (outer w') = [(tx, True)]"
  shows "\<exists>n. runs (sstep demo_wire) ((outer w, \<lambda>_. Idle), F, l) [Hand n, Resolved Commit] ((outer w', \<lambda>_. Idle), F, l @ [(tx, True)])"
proof -
  have "wire_of p ty = [(tx, True)] \<Longrightarrow> p = Commit \<and> ty = tx" for p ty by (cases p) auto
  with submit_runs [where P = "\<lambda>_. Idle" and t = 0 and F = F and l = l and ctxs = "\<lambda>_. log_ctx (\<lambda>_ e. (None, e))",
      OF assms(1) [unfolded demo_call_def] _ demo_signs assms(2)] assms(3)
  show ?thesis by fastforce
qed

text \<open>
  C21: the code and the senders agree. A call of \<open>Submit\<close> that returns, by a goroutine outside the manager,
  fails before it has a slot, or it is a run of the senders with one use of a slot: the manager hands out a
  nonce, the transaction that reaches the node, if one does, carries it, and the slot is resolved by the
  node's answer; the other goroutines are where they were.
\<close>

theorem local_submit_is_run:
  assumes "Submit g a impl (wire c s) (log_ctx x) i l2 input opts w = Some (r, w')" and "\<forall>p. r \<noteq> Panic p"
    and "signs_payload s" and "ready f (outer w)" and "P t = Idle" and "ctxs t = log_ctx x"
  shows "(\<exists>e. r = Err e) \<and> (outer w' = outer w \<or> (\<exists>e. LocalNonce.Acquire (log_ctx x) (outer w) = Some (Err e, outer w'))) \<or>
    (\<exists>n p tx. sent_after (outer w) (outer w') = wire_of p tx \<and> (if p = Commit then r = Ok (TxHash g tx) else \<exists>e. r = Err e) \<and>
      runs (sstep (lstep ctxs)) ((outer w, P), F, l) [Hand n, Resolved p] ((outer w', P), F, l @ wire_of p tx))"
  using assms by (rule submit_runs)

theorem local_submit_is_run_witness:
  "\<exists>h w' n tx. demo_call None (demo_tx_world (demo_local 6 [True, True] [] [])) = Some (Ok h, w') \<and>
     runs (sstep demo_wire) ((demo_local 6 [True, True] [] [], \<lambda>_. Idle), [], []) [Hand n, Resolved Commit]
       ((outer w', \<lambda>_. Idle), [], [(tx, True)])"
proof -
  let ?w = "demo_tx_world (demo_local 6 [True, True] [] []) :: (string, bool list logged local_world) tx_world"
  have o: "outer ?w = demo_local 6 (True # True # []) [] []" by (simp add: demo_tx_world_def)
  from demo_call_sent [OF same_world_refl [OF demo_version(1)] o, of None] obtain w' tx h
    where run: "demo_call None ?w = Some (Ok h, w')" and o': "outer w' = demo_local 7 [] [True] [(tx, True)]" by auto
  have sent: "sent_after (outer ?w) (outer w') = [(tx, True)]" by (simp add: sent_after_def o o') (simp add: demo_local_def)
  have "ready (\<lambda>_ a. gret 7) (outer ?w)" unfolding o by (rule demo_ready)
  from local_submit_is_run [where P = "\<lambda>_. Idle" and t = 0 and F = "[]" and l = "[]" and ctxs = "\<lambda>_. log_ctx (\<lambda>_ e. (None, e))",
      OF run [unfolded demo_call_def] _ demo_signs this refl refl] sent
  obtain n p ty where "wire_of p ty = [(tx, True)]" and "runs (sstep demo_wire) ((outer ?w, \<lambda>_. Idle), [], []) [Hand n, Resolved p]
       ((outer w', \<lambda>_. Idle), [], [] @ wire_of p ty)" by auto
  moreover from this(1) have "p = Commit" by (cases p) auto
  ultimately show ?thesis using run unfolding o by fastforce
qed

section \<open>Every interleaving\<close>



lemma demo_two_calls:
  "\<exists>s' tx ty m n. runs (sstep demo_wire) (start 0 \<lparr>base = [True, True, True, True], sends = []\<rparr>, [], [])
     [Hand m, Resolved Commit, Hand n, Resolved Commit] (s', [], [(tx, True), (ty, True)])"
proof -
  let ?v = "default_world\<lparr>mgr := (LocalNonce.NewNonceManager 0)\<lparr>source := Some (log_source (\<lambda>_ _. gret 7)), nm_address := 9\<rparr>\<rparr>"
  let ?w = "demo_tx_world ?v" and ?s = "start 0 \<lparr>base = [True, True, True, True], sends = []\<rparr>"
  have o: "outer ?w = ?v" by (simp add: demo_tx_world_def)
  have s: "?s = (default_world, \<lambda>_. Idle)" by (simp add: start_def default_world_def)
  have "demo_wire ?s Tau (?v, \<lambda>_. Idle)" unfolding s by (rule lstep.initialise [where src = "Some (log_source (\<lambda>_ _. gret 7))" and chainID = "Some 1" and a = 9])
      (simp add: LocalNonce.Init_def default_world_def)
  from runs_one [where step = "sstep demo_wire", OF sstep.inner [where step = demo_wire and F = "[]" and l = "[]", OF this]] have init: "runs (sstep demo_wire) (?s, [], []) [] ((outer ?w, \<lambda>_. Idle), [], [])"
    unfolding o by (simp add: visible_def)
  from default_first_call [OF same_world_refl [OF demo_version(1)] o, of None] obtain a tx h
    where a: "same_world demo_tx ?w a" "outer a = demo_local 7 (True # True # []) [True] [(tx, True)]" "demo_call None ?w = Some (Ok h, a)" by auto
  from demo_call_sent [OF a(1,2), of None] obtain b ty h'
    where b: "outer b = demo_local 8 [] [True, True] [(tx, True), (ty, True)]" "demo_call None a = Some (Ok h', b)" by auto
  have ready: "ready (\<lambda>_ a. gret 7) (outer ?w)" "ready (\<lambda>_ a. gret 7) (outer a)" unfolding o a(2)
    by (auto simp: ready_def is_idle_def wired_def default_world_def demo_local_def LocalNonce.NewNonceManager_def unresolved_def intro!: gr0I)
  have sent: "sent_after (outer ?w) (outer a) = [(tx, True)]" "sent_after (outer a) (outer b) = [(ty, True)]"
    unfolding o a(2) b(1) by (simp_all add: sent_after_def demo_local_def default_world_def)
  from demo_call_runs [where F = "[]" and l = "[]", OF a(3) ready(1) sent(1)] obtain m
    where "runs (sstep demo_wire) ((outer ?w, \<lambda>_. Idle), [], []) [Hand m, Resolved Commit] ((outer a, \<lambda>_. Idle), [], [(tx, True)])" by auto
  note first = runs_append [OF this init]
  from demo_call_runs [where F = "[]" and l = "[(tx, True)]", OF b(2) ready(2) sent(2)] obtain n
    where "runs (sstep demo_wire) ((outer a, \<lambda>_. Idle), [], [(tx, True)]) [Hand n, Resolved Commit] ((outer b, \<lambda>_. Idle), [], [(tx, True), (ty, True)])" by auto
  from runs_append [OF this first] show ?thesis unfolding append.simps by (intro exI)
qed


end
