(* ===== verification/RedisNonce.thy ===== *)
theory RedisNonce
  imports LocalNonce Geth
begin

text \<open>
  The distributed nonce manager of \<open>pkg/nonce/redis\<close>: its keys, \<open>NewNonceManager\<close>, \<open>Init\<close>,
  \<open>Acquire\<close>, \<open>Reset\<close>, the lock, \<open>nextNonce\<close>, the Lua script and the slot methods. The Redis
  client is a parameter: a record of the commands the sources call, with their documented
  effect on the database as a named hypothesis (\<open>redis_laws\<close>).
\<close>

section \<open>The Redis client\<close>

text \<open>
  A database maps keys to string values. A command is a program over the environment \<open>'e\<close>; it
  may fail. \<open>Eval\<close> runs a script, given by its effect on the database; \<open>db\<close> reads the
  database out of the environment.
\<close>

type_synonym database = "string \<rightharpoonup> string"

record 'e redis =
  SetNX :: "string \<Rightarrow> string \<Rightarrow> int \<Rightarrow> ('e, bool) prog"
  Set :: "string \<Rightarrow> string \<Rightarrow> ('e, unit) prog"
  Get :: "string \<Rightarrow> ('e, string) prog"
  Exists :: "string \<Rightarrow> ('e, nat) prog"
  Del :: "string \<Rightarrow> ('e, nat) prog"
  Decr :: "string \<Rightarrow> ('e, int) prog"
  Eval :: "(database \<Rightarrow> int \<times> database) \<Rightarrow> ('e, int) prog"
  db :: "'e \<Rightarrow> database"

section \<open>State and keys\<close>

definition defaultLockTTL :: int where "defaultLockTTL = 30 * 1000000000"
definition defaultPollInterval :: int where "defaultPollInterval = 200 * 1000000"

record 'e redis_nm =
  r_source :: "'e source option"
  rdb :: "'e redis"
  r_chainID :: "int option"
  r_address :: address
  instanceID :: string
  lockTTL :: int
  pollInterval :: int
  r_staleNonceDelay :: int
  r_dirty :: bool

record 'e redis_options =
  o_Redis :: "'e redis option"
  o_InstanceID :: string
  o_LockTTL :: int
  o_PollInterval :: int
  o_StaleNonceDelay :: int

text \<open>\<open>crypto/rand.Read\<close> on a buffer of the given length is an argument.\<close>

definition generateInstanceID :: "(nat \<Rightarrow> ('e, byte list) prog) \<Rightarrow> ('e, string) prog" where
  "generateInstanceID rand_Read =
     chk (rand_Read 16) (\<lambda>e. gfail (wrapf ''failed to generate instance ID: %w'' e)) (\<lambda>b. gret (hex_of_bytes b))"

definition or_default :: "int \<Rightarrow> int \<Rightarrow> int" where
  "or_default d x = (if x \<le> 0 then d else x)"

definition NewNonceManager :: "(nat \<Rightarrow> ('e, byte list) prog) \<Rightarrow> 'e redis_options \<Rightarrow> ('e, 'e redis_nm) prog" where
  "NewNonceManager rand_Read opts =
     (case o_Redis opts of
        None \<Rightarrow> gfail (errmsg ''redis client is required'')
      | Some client \<Rightarrow>
          chk (if o_InstanceID opts = [] then generateInstanceID rand_Read else gret (o_InstanceID opts)) gfail
            (\<lambda>iid. gret
              \<lparr>r_source = None, rdb = client, r_chainID = None, r_address = 0, instanceID = iid,
               lockTTL = or_default defaultLockTTL (o_LockTTL opts),
               pollInterval = or_default defaultPollInterval (o_PollInterval opts),
               r_staleNonceDelay = or_default DefaultStaleNonceDelay (o_StaleNonceDelay opts),
               r_dirty = False\<rparr>))"

definition Init :: "'e source option \<Rightarrow> int option \<Rightarrow> address \<Rightarrow> 'e redis_nm \<Rightarrow> unit result \<times> 'e redis_nm" where
  "Init src chainID a m =
     (if src = None then (Err (errmsg ''source is required''), m)
      else if chainID = None then (Err (errmsg ''chain ID is required''), m)
      else if a = 0 then (Err (errmsg ''address is required''), m)
      else (Ok (), m\<lparr>r_source := src, r_chainID := chainID, r_address := a\<rparr>))"

text \<open>\<open>common.Address.Hex\<close> is the argument \<open>hx\<close>.\<close>

definition counterKey :: "(address \<Rightarrow> string) \<Rightarrow> 'e redis_nm \<Rightarrow> string" where
  "counterKey hx m = ''safekit:nonce:'' @ big_String (r_chainID m) @ '':'' @ ToLower (hx (r_address m))"

definition lockKey :: "(address \<Rightarrow> string) \<Rightarrow> 'e redis_nm \<Rightarrow> string" where
  "lockKey hx m = ''safekit:nonce:'' @ big_String (r_chainID m) @ '':'' @ ToLower (hx (r_address m)) @ '':lock''"

text \<open>The manager with its slots and the environment, as for the local manager.\<close>

record 'e redis_world =
  rmgr :: "'e redis_nm"
  rslots :: "bool list"
  renv :: 'e

definition on_env :: "('e redis_nm \<Rightarrow> ('e, 'a) prog) \<Rightarrow> ('e redis_world, 'a) prog" where
  "on_env f w = (case f (rmgr w) (renv w) of None \<Rightarrow> None | Some (r, e) \<Rightarrow> Some (r, w\<lparr>renv := e\<rparr>))"

section \<open>The lock\<close>

text \<open>
  One round of \<open>acquireLock\<close>: an attempt, then, when the lock is taken, the wait for the next
  round. \<open>None\<close> asks for another round.
\<close>

definition lock_round :: "(address \<Rightarrow> string) \<Rightarrow> 'e ctx \<Rightarrow> ('e redis_world, unit option) prog" where
  "lock_round hx ctx =
     chk (on_env (\<lambda>m. SetNX (rdb m) (lockKey hx m) (instanceID m) (lockTTL m)))
       (\<lambda>e. gfail (wrapf ''failed attempt to acquire lock: %w'' e))
       (\<lambda>got w.
          if got then Some (Ok (Some ()), w)
          else
            (case ctx (OnTimer (pollInterval (rmgr w))) (renv w) of
               (Some e, v) \<Rightarrow> Some (Err e, w\<lparr>renv := v\<rparr>)
             | (None, v) \<Rightarrow> Some (Ok None, w\<lparr>renv := v\<rparr>)))"

partial_function (option) acquireLock :: "(address \<Rightarrow> string) \<Rightarrow> 'e ctx \<Rightarrow> 'e redis_world \<Rightarrow> (unit result \<times> 'e redis_world) option" where
  "acquireLock hx ctx w =
     Option.bind (lock_round hx ctx w) (\<lambda>rw.
       if fst rw = Ok None then acquireLock hx ctx (snd rw)
       else Some (case fst rw of Ok _ \<Rightarrow> (Ok (), snd rw) | Err e \<Rightarrow> (Err e, snd rw) | Panic p \<Rightarrow> (Panic p, snd rw)))"

text \<open>The loop, one round at a time.\<close>

lemma acquireLock_round [code]:
  "acquireLock hx ctx w =
     (case lock_round hx ctx w of
        None \<Rightarrow> None
      | Some (r, v) \<Rightarrow>
          (case r of
             Ok got \<Rightarrow> (case got of None \<Rightarrow> acquireLock hx ctx v | Some u \<Rightarrow> Some (Ok (), v))
           | Err e \<Rightarrow> Some (Err e, v)
           | Panic p \<Rightarrow> Some (Panic p, v)))"
  by (subst acquireLock.simps) (auto split: option.splits prod.splits result.splits)

text \<open>
  \<open>releaseLockScript\<close>: \<open>redis.call("GET", KEYS[1]) == ARGV[1]\<close> compares the stored token (Lua's
  \<open>false\<close> for a missing key equals no string), \<open>redis.call("DEL", KEYS[1])\<close> returns the number of
  keys removed.
\<close>

definition releaseLockScript :: "string \<Rightarrow> string \<Rightarrow> database \<Rightarrow> int \<times> database" where
  "releaseLockScript key token d =
     (if d key = Some token then (if d key = None then 0 else 1, d(key := None)) else (0, d))"

definition releaseLock :: "(address \<Rightarrow> string) \<Rightarrow> ('e redis_world, unit) prog" where
  "releaseLock hx =
     chk (on_env (\<lambda>m. Eval (rdb m) (releaseLockScript (lockKey hx m) (instanceID m))))
       (\<lambda>e. gfail (wrapf ''failed to run release lock script: %w'' e))
       (\<lambda>n. if n = 0 then gfail (errmsg ''failed to release lock. lock not held by requesting instance'') else gret ())"

section \<open>Acquire\<close>

definition r_fetch_pending :: "'e ctx \<Rightarrow> ('e redis_world, u64) prog" where
  "r_fetch_pending ctx =
     on_env (\<lambda>m. case r_source m of None \<Rightarrow> (\<lambda>e. Some (Panic ''nil pointer dereference'', e)) | Some f \<Rightarrow> f ctx (r_address m))"

definition set_counter :: "(address \<Rightarrow> string) \<Rightarrow> string \<Rightarrow> u64 \<Rightarrow> ('e redis_world, unit) prog" where
  "set_counter hx fmt n =
     chk (on_env (\<lambda>m. Set (rdb m) (counterKey hx m) (FormatUint n))) (\<lambda>e. gfail (wrapf fmt e)) gret"

definition nextNonce :: "(address \<Rightarrow> string) \<Rightarrow> 'e ctx \<Rightarrow> ('e redis_world, u64) prog" where
  "nextNonce hx ctx w =
     (if r_dirty (rmgr w) then
        (case ctx (OnTimer (r_staleNonceDelay (rmgr w))) (renv w) of
           (Some e, v) \<Rightarrow> Some (Err e, w\<lparr>renv := v\<rparr>)
         | (None, v) \<Rightarrow>
             chk (r_fetch_pending ctx) gfail
               (\<lambda>n. chk (set_counter hx ''redis counter reseed failed: %w'' (n + 1)) gfail
                 (\<lambda>_ w. Some (Ok n, w\<lparr>rmgr := (rmgr w)\<lparr>r_dirty := False\<rparr>\<rparr>)))
               (w\<lparr>renv := v\<rparr>))
      else
        chk (on_env (\<lambda>m. Exists (rdb m) (counterKey hx m))) (\<lambda>e. gfail (wrapf ''redis EXISTS error: %w'' e))
          (\<lambda>n. if n = 0 then
                 chk (r_fetch_pending ctx) (\<lambda>e. gfail (wrapf ''chain nonce seed failed: %w'' e))
                   (\<lambda>n. chk (set_counter hx ''redis counter seed failed: %w'' (n + 1)) gfail (\<lambda>_. gret n))
               else
                 chk (on_env (\<lambda>m. Get (rdb m) (counterKey hx m))) (\<lambda>e. gfail (wrapf ''redis GET error: %w'' e))
                   (\<lambda>val. case ParseUint val of
                      Err e \<Rightarrow> gfail (wrapf ''redis counter parse error: %w'' e)
                    | Panic p \<Rightarrow> (\<lambda>w. Some (Panic p, w))
                    | Ok current \<Rightarrow>
                        chk (set_counter hx ''redis counter increment failed: %w'' (current + 1)) gfail
                          (\<lambda>_. gret current))) w)"

text \<open>The result of a command whose error the code discards.\<close>

definition ignore :: "('w, 'a) prog \<Rightarrow> ('w, unit) prog" where
  "ignore p = chk p (\<lambda>_. gret ()) (\<lambda>_. gret ())"

definition Acquire :: "(address \<Rightarrow> string) \<Rightarrow> 'e ctx \<Rightarrow> ('e redis_world, u64 \<times> nat) prog" where
  "Acquire hx ctx w =
     (if r_source (rmgr w) = None then Some (Err (errmsg ''nonce source required''), w)
      else
        chk (acquireLock hx ctx) gfail
          (\<lambda>_. chk (nextNonce hx ctx)
            (\<lambda>e. chk (ignore (releaseLock hx)) gfail (\<lambda>_. gfail (wrapf ''failed to fetch nonce: %w'' e)))
            (\<lambda>n w. Some (Ok (n, length (rslots w)), w\<lparr>rslots := rslots w @ [False]\<rparr>))) w)"

definition Reset :: "(address \<Rightarrow> string) \<Rightarrow> ('e redis_world, unit) prog" where
  "Reset hx = chk (on_env (\<lambda>m. Del (rdb m) (counterKey hx m))) gfail (\<lambda>_. gret ())"

section \<open>The slot\<close>

definition slot_Commit :: "(address \<Rightarrow> string) \<Rightarrow> nat \<Rightarrow> ('e redis_world, unit) prog" where
  "slot_Commit hx s w =
     (if rslots w ! s then Some (Ok (), w)
      else ignore (releaseLock hx) (w\<lparr>rslots := (rslots w)[s := True]\<rparr>))"

definition slot_Reuse :: "(address \<Rightarrow> string) \<Rightarrow> nat \<Rightarrow> ('e redis_world, unit) prog" where
  "slot_Reuse hx s w =
     (if rslots w ! s then Some (Ok (), w)
      else
        chk (ignore (on_env (\<lambda>m. Decr (rdb m) (counterKey hx m)))) gfail
          (\<lambda>_. ignore (releaseLock hx)) (w\<lparr>rslots := (rslots w)[s := True]\<rparr>))"

definition slot_Reclaim :: "(address \<Rightarrow> string) \<Rightarrow> nat \<Rightarrow> ('e redis_world, unit) prog" where
  "slot_Reclaim hx s w =
     (if rslots w ! s then Some (Ok (), w)
      else ignore (releaseLock hx)
        (w\<lparr>rslots := (rslots w)[s := True], rmgr := (rmgr w)\<lparr>r_dirty := True\<rparr>\<rparr>))"

fun slot_resolve :: "(address \<Rightarrow> string) \<Rightarrow> resolution \<Rightarrow> nat \<Rightarrow> ('e redis_world, unit) prog" where
  "slot_resolve hx Commit = slot_Commit hx"
| "slot_resolve hx Reuse = slot_Reuse hx"
| "slot_resolve hx Reclaim = slot_Reclaim hx"

section \<open>What Redis documents\<close>

text \<open>The effect of each command on the database.\<close>

definition db_setnx :: "string \<Rightarrow> string \<Rightarrow> database \<Rightarrow> bool \<times> database" where
  "db_setnx k v d = (if d k = None then (True, d(k \<mapsto> v)) else (False, d))"

definition db_set :: "string \<Rightarrow> string \<Rightarrow> database \<Rightarrow> unit \<times> database" where
  "db_set k v d = ((), d(k \<mapsto> v))"

definition db_exists :: "string \<Rightarrow> database \<Rightarrow> nat \<times> database" where
  "db_exists k d = (if d k = None then 0 else 1, d)"

definition db_del :: "string \<Rightarrow> database \<Rightarrow> nat \<times> database" where
  "db_del k d = (if d k = None then 0 else 1, d(k := None))"

text \<open>
  A string that Redis reads as a signed 64-bit integer, in canonical decimal form; \<open>DECR\<close> takes a
  missing key for 0 and fails on any other string and on the least integer.
\<close>

definition redis_int :: "string \<Rightarrow> int option" where
  "redis_int v =
     (case v of [] \<Rightarrow> None
      | c # cs \<Rightarrow>
          (case ParseUint (if c = CHR ''-'' then cs else v) of
             Ok w \<Rightarrow>
               (let i = (if c = CHR ''-'' then - uint w else uint w)
                in if dec_int i = v \<and> - (2 ^ 63) \<le> i \<and> i < 2 ^ 63 then Some i else None)
           | _ \<Rightarrow> None))"

definition db_decr :: "string \<Rightarrow> database \<Rightarrow> (int \<times> database) option" where
  "db_decr k d =
     (case (case d k of None \<Rightarrow> Some 0 | Some v \<Rightarrow> redis_int v) of
        None \<Rightarrow> None
      | Some i \<Rightarrow> if i = - (2 ^ 63) then None else Some (i - 1, d(k \<mapsto> dec_int (i - 1))))"

text \<open>
  A command always answers. If it succeeds its effect has been applied; if it fails, which it
  may do when \<open>faults\<close> holds, the effect has been applied or not.
\<close>

definition performs :: "bool \<Rightarrow> ('e \<Rightarrow> database) \<Rightarrow> ('e, 'a) prog \<Rightarrow> (database \<Rightarrow> 'a \<times> database) \<Rightarrow> bool" where
  "performs faults view m f \<longleftrightarrow>
     (\<forall>e. \<exists>r e'. m e = Some (r, e') \<and>
        (case r of
           Ok x \<Rightarrow> f (view e) = (x, view e')
         | Err _ \<Rightarrow> faults \<and> (view e' = view e \<or> view e' = snd (f (view e)))
         | Panic _ \<Rightarrow> False))"

definition redis_laws :: "bool \<Rightarrow> 'e redis \<Rightarrow> bool" where
  "redis_laws faults R \<longleftrightarrow>
     (\<forall>k v t. performs faults (db R) (SetNX R k v t) (db_setnx k v)) \<and>
     (\<forall>k v. performs faults (db R) (Set R k v) (db_set k v)) \<and>
     (\<forall>k. performs faults (db R) (Exists R k) (db_exists k)) \<and>
     (\<forall>k. performs faults (db R) (Del R k) (db_del k)) \<and>
     (\<forall>f. performs faults (db R) (Eval R f) f) \<and>
     (\<forall>k e. \<exists>r e'. Get R k e = Some (r, e') \<and> db R e' = db R e \<and>
        (case r of Ok v \<Rightarrow> db R e k = Some v | Err _ \<Rightarrow> faults \<or> db R e k = None | Panic _ \<Rightarrow> False)) \<and>
     (\<forall>k e. \<exists>r e'. Decr R k e = Some (r, e') \<and>
        (case r of
           Ok i \<Rightarrow> db_decr k (db R e) = Some (i, db R e')
         | Err _ \<Rightarrow> db_decr k (db R e) = None \<and> db R e' = db R e \<or>
             faults \<and> (db R e' = db R e \<or> db_decr k (db R e) \<noteq> None \<and> db R e' = snd (the (db_decr k (db R e))))
         | Panic _ \<Rightarrow> False))"

text \<open>Waiting and asking the chain leave the database alone.\<close>

definition quiet :: "'e redis \<Rightarrow> 'e ctx \<Rightarrow> 'e source option \<Rightarrow> bool" where
  "quiet R ctx src \<longleftrightarrow>
     (\<forall>sel e. db R (snd (ctx sel e)) = db R e) \<and>
     (\<forall>f c a e r e'. src = Some f \<longrightarrow> f c a e = Some (r, e') \<longrightarrow> db R e' = db R e)"

lemma performs_run:
  assumes "performs False view m f"
  shows "\<exists>e'. m e = Some (Ok (fst (f (view e))), e') \<and> view e' = snd (f (view e))"
proof -
  from assms obtain r e' where "m e = Some (r, e')"
    and "case r of Ok x \<Rightarrow> f (view e) = (x, view e')
         | Err _ \<Rightarrow> False \<and> (view e' = view e \<or> view e' = snd (f (view e))) | Panic _ \<Rightarrow> False"
    unfolding performs_def by blast
  then show ?thesis by (cases r) auto
qed

lemma redis_runs:
  assumes "redis_laws False R"
  shows "\<exists>e'. SetNX R k v t e = Some (Ok (db R e k = None), e') \<and>
      db R e' = (if db R e k = None then (db R e)(k \<mapsto> v) else db R e)"
    and "\<exists>e'. Set R k v e = Some (Ok (), e') \<and> db R e' = (db R e)(k \<mapsto> v)"
    and "\<exists>e'. Exists R k e = Some (Ok (if db R e k = None then 0 else 1), e') \<and> db R e' = db R e"
    and "\<exists>e'. Del R k e = Some (Ok (if db R e k = None then 0 else 1), e') \<and> db R e' = (db R e)(k := None)"
    and "\<exists>e'. Eval R f e = Some (Ok (fst (f (db R e))), e') \<and> db R e' = snd (f (db R e))"
    and "db R e k = Some x \<Longrightarrow> \<exists>e'. Get R k e = Some (Ok x, e') \<and> db R e' = db R e"
    and "db_decr k (db R e) = Some (i, d) \<Longrightarrow> \<exists>e'. Decr R k e = Some (Ok i, e') \<and> db R e' = d"
proof -
  show "\<exists>e'. SetNX R k v t e = Some (Ok (db R e k = None), e') \<and>
      db R e' = (if db R e k = None then (db R e)(k \<mapsto> v) else db R e)"
    using assms performs_run [of "db R" "SetNX R k v t" "db_setnx k v" e]
    by (auto simp: redis_laws_def db_setnx_def)
  show "\<exists>e'. Set R k v e = Some (Ok (), e') \<and> db R e' = (db R e)(k \<mapsto> v)"
    using assms performs_run [of "db R" "Set R k v" "db_set k v" e] by (auto simp: redis_laws_def db_set_def)
  show "\<exists>e'. Exists R k e = Some (Ok (if db R e k = None then 0 else 1), e') \<and> db R e' = db R e"
    using assms performs_run [of "db R" "Exists R k" "db_exists k" e] by (auto simp: redis_laws_def db_exists_def)
  show "\<exists>e'. Del R k e = Some (Ok (if db R e k = None then 0 else 1), e') \<and> db R e' = (db R e)(k := None)"
    using assms performs_run [of "db R" "Del R k" "db_del k" e] by (auto simp: redis_laws_def db_del_def)
  show "\<exists>e'. Eval R f e = Some (Ok (fst (f (db R e))), e') \<and> db R e' = snd (f (db R e))"
    using assms performs_run [of "db R" "Eval R f" f e] by (auto simp: redis_laws_def)
  show "\<exists>e'. Get R k e = Some (Ok x, e') \<and> db R e' = db R e" if x: "db R e k = Some x"
  proof -
    from assms obtain r e' where "Get R k e = Some (r, e')" and "db R e' = db R e"
      and "case r of Ok v \<Rightarrow> db R e k = Some v | Err _ \<Rightarrow> False \<or> db R e k = None | Panic _ \<Rightarrow> False"
      unfolding redis_laws_def by blast
    with x show ?thesis by (cases r) auto
  qed
  show "\<exists>e'. Decr R k e = Some (Ok i, e') \<and> db R e' = d" if x: "db_decr k (db R e) = Some (i, d)"
  proof -
    from assms obtain r e' where "Decr R k e = Some (r, e')"
      and "case r of Ok i \<Rightarrow> db_decr k (db R e) = Some (i, db R e')
       | Err _ \<Rightarrow> db_decr k (db R e) = None \<and> db R e' = db R e \<or>
           False \<and> (db R e' = db R e \<or> db_decr k (db R e) \<noteq> None \<and> db R e' = snd (the (db_decr k (db R e))))
       | Panic _ \<Rightarrow> False"
      unfolding redis_laws_def by blast
    with x show ?thesis by (cases r) auto
  qed
qed

lemma key_distinct [simp]: "lockKey hx m \<noteq> counterKey hx m" "counterKey hx m \<noteq> lockKey hx m"
  by (simp_all add: lockKey_def counterKey_def)

section \<open>The contract, for one worker on a quiet Redis\<close>

definition redis_ctr :: "(address \<Rightarrow> string) \<Rightarrow> 'e redis_world \<Rightarrow> counter" where
  "redis_ctr hx w =
     (if r_dirty (rmgr w) then Fetch
      else (case db (rdb (rmgr w)) (renv w) (counterKey hx (rmgr w)) of
              None \<Rightarrow> Fetch
            | Some v \<Rightarrow> (case ParseUint v of Ok c \<Rightarrow> Next c | _ \<Rightarrow> Fetch)))"

definition counter_ok :: "(address \<Rightarrow> string) \<Rightarrow> 'e redis_nm \<Rightarrow> 'e \<Rightarrow> bool" where
  "counter_ok hx m e \<longleftrightarrow> (\<forall>v. db (rdb m) e (counterKey hx m) = Some v \<longrightarrow> (\<exists>c. v = FormatUint c))"

definition undisturbed :: "'e ctx \<Rightarrow> 'e redis_nm \<Rightarrow> bool" where
  "undisturbed ctx m \<longleftrightarrow> redis_laws False (rdb m) \<and> quiet (rdb m) ctx (r_source m)"

definition redis_idle :: "(address \<Rightarrow> string) \<Rightarrow> 'e ctx \<Rightarrow> 'e redis_world \<Rightarrow> bool" where
  "redis_idle hx ctx w \<longleftrightarrow>
     undisturbed ctx (rmgr w) \<and> counter_ok hx (rmgr w) (renv w) \<and>
     db (rdb (rmgr w)) (renv w) (lockKey hx (rmgr w)) = None \<and> unresolved (rslots w) = {}"

definition redis_holds :: "(address \<Rightarrow> string) \<Rightarrow> 'e ctx \<Rightarrow> 'e redis_world \<Rightarrow> nat \<Rightarrow> u64 \<Rightarrow> bool" where
  "redis_holds hx ctx w s n \<longleftrightarrow>
     undisturbed ctx (rmgr w) \<and> unresolved (rslots w) = {s} \<and> \<not> r_dirty (rmgr w) \<and>
     db (rdb (rmgr w)) (renv w) (lockKey hx (rmgr w)) = Some (instanceID (rmgr w)) \<and>
     db (rdb (rmgr w)) (renv w) (counterKey hx (rmgr w)) = Some (FormatUint (n + 1))"

definition redis_settled :: "'e redis_world \<Rightarrow> nat \<Rightarrow> bool" where
  "redis_settled w s \<longleftrightarrow> s < length (rslots w) \<and> rslots w ! s"

text \<open>
  \<open>DECR\<close> works on signed integers, so \<open>Reuse\<close> gives the nonce back only while the counter, the
  nonce plus one, is below \<open>2 ^ 63\<close>.
\<close>

definition decr_supported :: "u64 \<Rightarrow> bool" where
  "decr_supported n \<longleftrightarrow> uint n < 2 ^ 63 - 1"

lemma counterKey_dirty [simp]: "counterKey hx (m\<lparr>r_dirty := d\<rparr>) = counterKey hx m"
  "lockKey hx (m\<lparr>r_dirty := d\<rparr>) = lockKey hx m"
  by (simp_all add: counterKey_def lockKey_def)

lemma undisturbed_dirty [simp]: "undisturbed ctx (m\<lparr>r_dirty := d\<rparr>) = undisturbed ctx m"
  by (simp add: undisturbed_def)

lemma set_counter_ok:
  assumes "redis_laws False (rdb (rmgr w))" and "set_counter hx fmt n w = Some (r, w')"
  obtains e where "w' = w\<lparr>renv := e\<rparr>" and "r = Ok ()"
    and "db (rdb (rmgr w)) e = (db (rdb (rmgr w)) (renv w))(counterKey hx (rmgr w) \<mapsto> FormatUint n)"
  using redis_runs(2) [OF assms(1), of "counterKey hx (rmgr w)" "FormatUint n" "renv w"] assms(2)
  by (auto simp: set_counter_def on_env_def chk_def gret_def)

lemma acquireLock_free:
  assumes "redis_laws False (rdb (rmgr w))" and "db (rdb (rmgr w)) (renv w) (lockKey hx (rmgr w)) = None"
  shows "\<exists>e. acquireLock hx ctx w = Some (Ok (), w\<lparr>renv := e\<rparr>) \<and>
    db (rdb (rmgr w)) e = (db (rdb (rmgr w)) (renv w))(lockKey hx (rmgr w) \<mapsto> instanceID (rmgr w))"
proof -
  from redis_runs(1) [OF assms(1), of "lockKey hx (rmgr w)" "instanceID (rmgr w)" "lockTTL (rmgr w)" "renv w"]
  obtain e where "SetNX (rdb (rmgr w)) (lockKey hx (rmgr w)) (instanceID (rmgr w)) (lockTTL (rmgr w)) (renv w) =
      Some (Ok True, e)"
    and "db (rdb (rmgr w)) e = (db (rdb (rmgr w)) (renv w))(lockKey hx (rmgr w) \<mapsto> instanceID (rmgr w))"
    using assms(2) by auto
  moreover from this have "lock_round hx ctx w = Some (Ok (Some ()), w\<lparr>renv := e\<rparr>)"
    by (simp add: lock_round_def chk_def on_env_def)
  ultimately show ?thesis by (intro exI [of _ e]) (simp add: acquireLock.simps)
qed

lemma release_held:
  assumes "redis_laws False (rdb (rmgr w))"
    and "db (rdb (rmgr w)) (renv w) (lockKey hx (rmgr w)) = Some (instanceID (rmgr w))"
  shows "\<exists>e. ignore (releaseLock hx) w = Some (Ok (), w\<lparr>renv := e\<rparr>) \<and>
    db (rdb (rmgr w)) e = (db (rdb (rmgr w)) (renv w))(lockKey hx (rmgr w) := None)"
  using redis_runs(5) [OF assms(1), of "releaseLockScript (lockKey hx (rmgr w)) (instanceID (rmgr w))" "renv w"] assms(2)
  by (auto simp: ignore_def releaseLock_def on_env_def chk_def gret_def releaseLockScript_def)

lemma dec_int_uint: "dec_int (uint w) = FormatUint w"
  by (simp add: dec_int_def FormatUint_def)

lemma FormatUint_digits: "\<exists>c cs. FormatUint w = c # cs \<and> is_digit c"
  unfolding FormatUint_def using dec_nat_digits dec_nat_nonempty by (metis list.exhaust list.set_intros(1))

lemma redis_int_FormatUint: "uint w < 2 ^ 63 \<Longrightarrow> redis_int (FormatUint w) = Some (uint w)"
proof -
  assume small: "uint w < 2 ^ 63"
  obtain c cs where fmt: "FormatUint w = c # cs" and "is_digit c" using FormatUint_digits by blast
  then have "c \<noteq> CHR ''-''" by auto
  moreover from fmt have "ParseUint (c # cs) = Ok w" and "dec_int (uint w) = c # cs"
    using ParseUint_FormatUint [of w] dec_int_uint [of w] by simp_all
  moreover have "- (2 ^ 63) \<le> uint w" by (rule order.trans [of _ 0]) simp_all
  ultimately show ?thesis using small fmt by (simp add: redis_int_def Let_def)
qed

lemma decr_counter:
  assumes "decr_supported n" and "d k = Some (FormatUint (n + 1))"
  shows "db_decr k d = Some (uint n, d(k \<mapsto> FormatUint n))"
proof -
  from assms(1) have n: "uint n < 2 ^ 63 - 1" by (simp add: decr_supported_def)
  then have "uint (n + 1) = uint n + 1" by (simp add: uint_word_ariths)
  moreover have "0 \<le> uint n" by simp
  then have "uint n + 1 \<noteq> - 9223372036854775808" by linarith
  ultimately show ?thesis
    using n assms(2) redis_int_FormatUint [of "n + 1"] dec_int_uint [of n] by (simp add: db_decr_def)
qed

lemma quiet_fetch:
  assumes "undisturbed ctx (rmgr w)" and "r_fetch_pending c w = Some (r, w')"
  shows "\<exists>e. w' = w\<lparr>renv := e\<rparr> \<and> db (rdb (rmgr w)) e = db (rdb (rmgr w)) (renv w)"
  using assms by (auto simp: r_fetch_pending_def on_env_def undisturbed_def quiet_def split: option.splits)

text \<open>
  \<open>nextNonce\<close> on an undisturbed Redis: the nonce is the counter's, the counter is set to its
  successor, and nothing else in the database changes.
\<close>

lemma redis_nextNonce_dirty:
  assumes und: "undisturbed ctx (rmgr w)" and cnt: "counter_ok hx (rmgr w) (renv w)"
    and run: "nextNonce hx ctx w = Some (Ok n, w')"
    and True: "r_dirty (rmgr w)"
  shows "\<exists>e. w' = w\<lparr>rmgr := (rmgr w)\<lparr>r_dirty := False\<rparr>, renv := e\<rparr> \<and> admits (redis_ctr hx w) n \<and>
    db (rdb (rmgr w)) e = (db (rdb (rmgr w)) (renv w))(counterKey hx (rmgr w) \<mapsto> FormatUint (n + 1))"
proof -
  from und have laws: "redis_laws False (rdb (rmgr w))" by (simp add: undisturbed_def)
  from True run obtain v u x where timer: "ctx (OnTimer (r_staleNonceDelay (rmgr w))) (renv w) = (None, v)"
    and fetch: "r_fetch_pending ctx (w\<lparr>renv := v\<rparr>) = Some (Ok n, u)"
    and set: "set_counter hx ''redis counter reseed failed: %w'' (n + 1) u = Some (Ok (), x)"
    and w': "w' = x\<lparr>rmgr := (rmgr x)\<lparr>r_dirty := False\<rparr>\<rparr>"
    by (auto simp: nextNonce_def gfail_def elim!: chk_OkE split: prod.splits option.splits)
  from und timer have v: "db (rdb (rmgr w)) v = db (rdb (rmgr w)) (renv w)"
    unfolding undisturbed_def quiet_def by (metis snd_conv)
  from quiet_fetch [OF _ fetch] und v obtain e1 where u: "u = w\<lparr>renv := e1\<rparr>"
    and e1: "db (rdb (rmgr w)) e1 = db (rdb (rmgr w)) (renv w)" by auto
  from laws u have "redis_laws False (rdb (rmgr u))" by simp
  from set_counter_ok [OF this set] obtain e2 where "x = u\<lparr>renv := e2\<rparr>"
    and "db (rdb (rmgr u)) e2 = (db (rdb (rmgr u)) (renv u))(counterKey hx (rmgr u) \<mapsto> FormatUint (n + 1))" .
  with u e1 w' True show ?thesis by (intro exI [of _ e2]) (simp add: redis_ctr_def)
qed

lemma redis_nextNonce_clean:
  assumes und: "undisturbed ctx (rmgr w)" and cnt: "counter_ok hx (rmgr w) (renv w)"
    and run: "nextNonce hx ctx w = Some (Ok n, w')"
    and clean: "\<not> r_dirty (rmgr w)"
  shows "\<exists>e. w' = w\<lparr>rmgr := (rmgr w)\<lparr>r_dirty := False\<rparr>, renv := e\<rparr> \<and> admits (redis_ctr hx w) n \<and>
    db (rdb (rmgr w)) e = (db (rdb (rmgr w)) (renv w))(counterKey hx (rmgr w) \<mapsto> FormatUint (n + 1))"
proof -
  from und have laws: "redis_laws False (rdb (rmgr w))" by (simp add: undisturbed_def)
  let ?R = "rdb (rmgr w)" and ?k = "counterKey hx (rmgr w)"
  from redis_runs(3) [OF laws, of ?k "renv w"] obtain e0 where
    ex: "Exists ?R ?k (renv w) = Some (Ok (if db ?R (renv w) ?k = None then 0 else 1), e0)"
    and e0: "db ?R e0 = db ?R (renv w)" by blast
  show ?thesis
  proof (cases "db ?R (renv w) ?k")
    case None
    with clean run ex obtain u where fetch: "r_fetch_pending ctx (w\<lparr>renv := e0\<rparr>) = Some (Ok n, u)"
      and set: "set_counter hx ''redis counter seed failed: %w'' (n + 1) u = Some (Ok (), w')"
      by (auto simp: nextNonce_def chk_def on_env_def gfail_def gret_def
          split: option.splits prod.splits result.splits)
    from quiet_fetch [OF _ fetch] und e0 obtain e1 where u: "u = w\<lparr>renv := e1\<rparr>"
      and e1: "db ?R e1 = db ?R (renv w)" by auto
    from laws u have "redis_laws False (rdb (rmgr u))" by simp
    from set_counter_ok [OF this set] obtain e2 where "w' = u\<lparr>renv := e2\<rparr>"
      and "db (rdb (rmgr u)) e2 = (db (rdb (rmgr u)) (renv u))(counterKey hx (rmgr u) \<mapsto> FormatUint (n + 1))" .
    with u e1 clean None show ?thesis by (intro exI [of _ e2]) (simp add: redis_ctr_def)
  next
    case (Some val)
    with cnt obtain c where c: "val = FormatUint c" by (auto simp: counter_ok_def)
    from redis_runs(6) [OF laws, of e0 ?k val] Some e0 obtain e1 where
      get: "Get ?R ?k e0 = Some (Ok val, e1)" and e1: "db ?R e1 = db ?R (renv w)" by auto
    from clean run ex Some get c
    have set: "set_counter hx ''redis counter increment failed: %w'' (c + 1) (w\<lparr>renv := e1\<rparr>) = Some (Ok (), w')"
      and n: "n = c"
      by (auto simp: nextNonce_def chk_def on_env_def gfail_def gret_def
          split: option.splits prod.splits result.splits)
    from laws have "redis_laws False (rdb (rmgr (w\<lparr>renv := e1\<rparr>)))" by simp
    from set_counter_ok [OF this set] obtain e2 where "w' = w\<lparr>renv := e2\<rparr>"
      and "db ?R e2 = (db ?R e1)(?k \<mapsto> FormatUint (c + 1))" by auto
    with n e1 clean Some c show ?thesis by (intro exI [of _ e2]) (simp add: redis_ctr_def)
  qed
qed

lemma redis_nextNonce_ok:
  assumes und: "undisturbed ctx (rmgr w)" and cnt: "counter_ok hx (rmgr w) (renv w)"
    and run: "nextNonce hx ctx w = Some (Ok n, w')"
  shows "\<exists>e. w' = w\<lparr>rmgr := (rmgr w)\<lparr>r_dirty := False\<rparr>, renv := e\<rparr> \<and> admits (redis_ctr hx w) n \<and>
    db (rdb (rmgr w)) e = (db (rdb (rmgr w)) (renv w))(counterKey hx (rmgr w) \<mapsto> FormatUint (n + 1))"
  using redis_nextNonce_dirty [OF assms] redis_nextNonce_clean [OF assms] by blast

lemma redis_Acquire_ok:
  assumes idle: "redis_idle hx ctx w" and run: "Acquire hx ctx w = Some (Ok (n, s), w')"
  shows "admits (redis_ctr hx w) n \<and> redis_holds hx ctx w' s n"
proof -
  from idle have und: "undisturbed ctx (rmgr w)" and cnt: "counter_ok hx (rmgr w) (renv w)"
    and free: "db (rdb (rmgr w)) (renv w) (lockKey hx (rmgr w)) = None"
    and none: "unresolved (rslots w) = {}" by (simp_all add: redis_idle_def)
  then have laws: "redis_laws False (rdb (rmgr w))" by (simp add: undisturbed_def)
  from acquireLock_free [OF laws free, of ctx] obtain e where
    lock: "acquireLock hx ctx w = Some (Ok (), w\<lparr>renv := e\<rparr>)"
    and e: "db (rdb (rmgr w)) e = (db (rdb (rmgr w)) (renv w))(lockKey hx (rmgr w) \<mapsto> instanceID (rmgr w))"
    by auto
  let ?v = "w\<lparr>renv := e\<rparr>"
  from run lock obtain u where nn: "nextNonce hx ctx ?v = Some (Ok n, u)"
    and s: "s = length (rslots u)" and w': "w' = u\<lparr>rslots := rslots u @ [False]\<rparr>"
    by (auto simp: Acquire_def chk_def gfail_def split: option.splits prod.splits result.splits if_splits)
  have "counter_ok hx (rmgr ?v) (renv ?v)" using cnt e by (simp add: counter_ok_def)
  from redis_nextNonce_ok [OF _ this nn] und obtain e' where
    u: "u = w\<lparr>rmgr := (rmgr w)\<lparr>r_dirty := False\<rparr>, renv := e'\<rparr>" and adm: "admits (redis_ctr hx ?v) n"
    and e': "db (rdb (rmgr w)) e' = (db (rdb (rmgr w)) e)(counterKey hx (rmgr w) \<mapsto> FormatUint (n + 1))"
    by auto
  have "redis_ctr hx ?v = redis_ctr hx w" by (simp add: redis_ctr_def e)
  with adm u e' e s w' none und show ?thesis by (simp add: redis_holds_def)
qed

lemma redis_resolve_ok:
  assumes holds: "redis_holds hx ctx w s n" and sup: "decr_supported n"
  shows "\<exists>w'. slot_resolve hx r s w = Some (Ok (), w') \<and> redis_idle hx ctx w' \<and>
    redis_ctr hx w' = resolve n r \<and> redis_settled w' s"
proof -
  let ?R = "rdb (rmgr w)" and ?k = "counterKey hx (rmgr w)" and ?l = "lockKey hx (rmgr w)"
  let ?w = "w\<lparr>rslots := (rslots w)[s := True]\<rparr>"
  from holds have und: "undisturbed ctx (rmgr w)" and only: "unresolved (rslots w) = {s}"
    and clean: "\<not> r_dirty (rmgr w)" and lock: "db ?R (renv w) ?l = Some (instanceID (rmgr w))"
    and cnt: "db ?R (renv w) ?k = Some (FormatUint (n + 1))" by (simp_all add: redis_holds_def)
  from und have laws: "redis_laws False ?R" by (simp add: undisturbed_def)
  from only have "s \<in> unresolved (rslots w)" by simp
  then have s: "s < length (rslots w)" "\<not> rslots w ! s" by (simp_all add: unresolved_iff)
  show ?thesis
  proof (cases r)
    case Commit
    from release_held [of ?w hx] laws lock obtain e where
      "ignore (releaseLock hx) ?w = Some (Ok (), ?w\<lparr>renv := e\<rparr>)"
      and "db ?R e = (db ?R (renv w))(?l := None)" by auto
    with Commit s clean cnt und only show ?thesis
      by (intro exI [of _ "?w\<lparr>renv := e\<rparr>"])
        (auto simp: slot_Commit_def redis_idle_def redis_ctr_def redis_settled_def counter_ok_def)
  next
    case Reuse
    from redis_runs(7) [OF laws decr_counter [where k = ?k and d = "db ?R (renv w)", OF sup cnt]] obtain e0 where
      decr: "Decr ?R ?k (renv w) = Some (Ok (uint n), e0)"
      and e0: "db ?R e0 = (db ?R (renv w))(?k \<mapsto> FormatUint n)" by auto
    from release_held [of "?w\<lparr>renv := e0\<rparr>" hx] laws lock e0 obtain e where
      "ignore (releaseLock hx) (?w\<lparr>renv := e0\<rparr>) = Some (Ok (), ?w\<lparr>renv := e\<rparr>)"
      and "db ?R e = (db ?R e0)(?l := None)" by auto
    with Reuse s clean cnt und only decr e0 show ?thesis
      by (intro exI [of _ "?w\<lparr>renv := e\<rparr>"])
        (auto simp: slot_Reuse_def redis_idle_def redis_ctr_def redis_settled_def counter_ok_def
          chk_def ignore_def [of "on_env _"] on_env_def gret_def)
  next
    case Reclaim
    let ?v = "?w\<lparr>rmgr := (rmgr w)\<lparr>r_dirty := True\<rparr>\<rparr>"
    from release_held [of ?v hx] laws lock obtain e where
      "ignore (releaseLock hx) ?v = Some (Ok (), ?v\<lparr>renv := e\<rparr>)"
      and "db ?R e = (db ?R (renv w))(?l := None)" by auto
    with Reclaim s cnt und only show ?thesis
      by (intro exI [of _ "?v\<lparr>renv := e\<rparr>"])
        (auto simp: slot_Reclaim_def redis_idle_def redis_ctr_def redis_settled_def counter_ok_def)
  qed
qed

lemma redis_resolve_settled: "redis_settled w s \<Longrightarrow> slot_resolve hx r s w = Some (Ok (), w)"
  by (cases r) (simp_all add: redis_settled_def slot_Commit_def slot_Reuse_def slot_Reclaim_def)

interpretation rm: nonce_manager "Acquire hx ctx" "slot_resolve hx" "redis_ctr hx"
    "redis_idle hx ctx" "redis_holds hx ctx" redis_settled decr_supported for hx ctx
  by unfold_locales
    (use redis_Acquire_ok redis_resolve_ok redis_resolve_settled in blast)+

section \<open>The keys\<close>

lemma colon_no_digit [simp]: "\<not> is_digit (CHR '':'')"
  by (simp add: is_digit_def)

lemma big_String_no_colon: "CHR '':'' \<notin> set (big_String i)"
  by (cases i) (auto dest: dec_int_chars)

lemma key_split:
  "big_String i @ CHR '':'' # x = big_String j @ CHR '':'' # y \<longleftrightarrow> i = j \<and> x = y"
  using split_first [OF big_String_no_colon big_String_no_colon] big_String_inj by blast

lemma geth_Hex_eq: "geth_laws g \<Longrightarrow> ToLower (Hex g a) = ToLower (Hex g b) \<longleftrightarrow> a = b"
  by (auto simp: geth_lawsD dest!: hex_of_bytes_inj dest: injD [OF geth_AddressBytes_inj])

lemma geth_Hex_length: "geth_laws g \<Longrightarrow> length (ToLower (Hex g a)) = 42"
  by (simp add: geth_lawsD)

text \<open>
  Managers share their lock exactly when they share the chain and the account, and
  likewise their counter; a lock key is never anyone's counter key. (\<open>Hex\<close> is go-ethereum's:
  the hypothesis states its documented format.)
\<close>

theorem redis_keys:
  assumes "geth_laws g"
  shows "(lockKey (Hex g) m = lockKey (Hex g) m' \<longleftrightarrow> r_chainID m = r_chainID m' \<and> r_address m = r_address m') \<and>
    (counterKey (Hex g) m = counterKey (Hex g) m' \<longleftrightarrow> r_chainID m = r_chainID m' \<and> r_address m = r_address m') \<and>
    lockKey (Hex g) m \<noteq> counterKey (Hex g) m'"
proof (intro conjI)
  show "lockKey (Hex g) m = lockKey (Hex g) m' \<longleftrightarrow> r_chainID m = r_chainID m' \<and> r_address m = r_address m'"
    and "counterKey (Hex g) m = counterKey (Hex g) m' \<longleftrightarrow> r_chainID m = r_chainID m' \<and> r_address m = r_address m'"
    using key_split geth_Hex_eq [OF assms] by (auto simp: lockKey_def counterKey_def)
  show "lockKey (Hex g) m \<noteq> counterKey (Hex g) m'"
  proof
    assume "lockKey (Hex g) m = counterKey (Hex g) m'"
    then have "ToLower (Hex g (r_address m)) @ '':lock'' = ToLower (Hex g (r_address m'))"
      using key_split by (auto simp: lockKey_def counterKey_def)
    then have "length (ToLower (Hex g (r_address m)) @ '':lock'') = length (ToLower (Hex g (r_address m')))" by simp
    then show False using geth_Hex_length [OF assms] by simp
  qed
qed

section \<open>A concrete Redis\<close>

text \<open>
  The instance on which the hypotheses are discharged: the environment is the database and the
  account's pending nonce, no command fails and no context ends.
\<close>

type_synonym demo_env = "database \<times> u64"

definition command :: "(database \<Rightarrow> 'a \<times> database) \<Rightarrow> (demo_env, 'a) prog" where
  "command f e = Some (Ok (fst (f (fst e))), (snd (f (fst e)), snd e))"

definition demo_redis :: "demo_env redis" where
  "demo_redis =
     \<lparr>SetNX = \<lambda>k v t. command (db_setnx k v), Set = \<lambda>k v. command (db_set k v),
      Get = \<lambda>k e. Some (case fst e k of None \<Rightarrow> Err (Sentinel ''redis.Nil'') | Some v \<Rightarrow> Ok v, e),
      Exists = \<lambda>k. command (db_exists k), Del = \<lambda>k. command (db_del k),
      Decr = \<lambda>k e. (case db_decr k (fst e) of
        None \<Rightarrow> Some (Err (Sentinel ''redis.Error''), e) | Some (i, d) \<Rightarrow> Some (Ok i, (d, snd e))),
      Eval = command, db = fst\<rparr>"

definition demo_source :: "demo_env source" where
  "demo_source ctx a e = Some (Ok (snd e), e)"

definition demo_ctx :: "'e ctx" where
  "demo_ctx sel e = (None, e)"

definition demo_manager :: "int \<Rightarrow> address \<Rightarrow> demo_env redis_nm" where
  "demo_manager i a =
     \<lparr>r_source = Some demo_source, rdb = demo_redis, r_chainID = Some i, r_address = a, instanceID = ''worker-1'',
      lockTTL = defaultLockTTL, pollInterval = defaultPollInterval,
      r_staleNonceDelay = DefaultStaleNonceDelay, r_dirty = False\<rparr>"

definition demo_redis_world :: "demo_env redis_world" where
  "demo_redis_world = \<lparr>rmgr = demo_manager 1 7, rslots = [], renv = (Map.empty, 5)\<rparr>"

lemma demo_redis_laws: "redis_laws False demo_redis"
  by (auto simp: redis_laws_def demo_redis_def performs_def command_def db_set_def split: option.splits)

lemma demo_quiet: "quiet demo_redis demo_ctx (Some demo_source)"
  by (auto simp: quiet_def demo_redis_def demo_ctx_def demo_source_def)

definition demo_hx :: "address \<Rightarrow> string" where
  "demo_hx a = ''0x7''"

lemma demo_idle: "redis_idle demo_hx demo_ctx demo_redis_world"
  using demo_redis_laws demo_quiet
  by (simp add: redis_idle_def undisturbed_def counter_ok_def demo_redis_world_def demo_manager_def)
    (simp add: demo_redis_def)

theorem redis_keys_witness:
  "lockKey (Hex demo_geth) (demo_manager 1 7) \<noteq> lockKey (Hex demo_geth) (demo_manager 137 7) \<and>
   counterKey (Hex demo_geth) (demo_manager 1 7) \<noteq> counterKey (Hex demo_geth) (demo_manager 1 8)"
  using redis_keys [OF demo_geth_laws, of "demo_manager 1 7" "demo_manager 137 7"]
    redis_keys [OF demo_geth_laws, of "demo_manager 1 7" "demo_manager 1 8"]
  by (simp add: demo_manager_def)

section \<open>A sequential client\<close>

text \<open>
  C29: the only worker of a Redis that answers every command, with the lock free, gets from any
  sequence of acquire and resolve calls exactly the nonces of the abstract counter of the
  \<open>Slot\<close> contract (a stored counter is used, a missing one or a \<open>Reclaim\<close> asks the chain),
  as long as the counter stays within the signed integers \<open>DECR\<close> accepts, and leaves the lock
  free again.
\<close>

theorem redis_session:
  assumes "redis_idle hx ctx w"
    and "session (Acquire hx ctx) (slot_resolve hx) rs w = Some (Ok ns, w')"
    and "\<forall>n \<in> set ns. decr_supported n"
  shows "spec_run (redis_ctr hx w) rs ns (redis_ctr hx w') \<and>
    db (rdb (rmgr w')) (renv w') (lockKey hx (rmgr w')) = None"
  using rm.session_spec [OF assms] by (simp add: redis_idle_def)

definition demo_session :: "(demo_env redis_world, u64 list) prog" where
  "demo_session =
     session (Acquire demo_hx demo_ctx) (slot_resolve demo_hx) [Commit, Reuse, Commit, Reclaim, Commit]"

lemma demo_session_run: "map_option fst (demo_session demo_redis_world) = Some (Ok [5, 6, 6, 7, 5])"
  by (simp add: demo_session_def demo_redis_world_def demo_manager_def demo_redis_def demo_hx_def demo_ctx_def
      demo_source_def command_def Acquire_def acquireLock_round lock_round_def on_env_def chk_def gret_def gfail_def
      db_setnx_def db_set_def db_exists_def db_decr_def lockKey_def counterKey_def nextNonce_def
      set_counter_def r_fetch_pending_def slot_Commit_def slot_Reuse_def slot_Reclaim_def ignore_def
      releaseLock_def releaseLockScript_def redis_int_def ParseUint_def FormatUint_def ToLower_def to_lower_def
      dec_int_def dec_nat.simps digit_def is_digit_def digit_val_def Let_def cong: if_weak_cong) code_simp

theorem redis_session_witness:
  "spec_run Fetch [Commit, Reuse, Commit, Reclaim, Commit] [5, 6, 6, 7, 5]
     (redis_ctr demo_hx (snd (the (demo_session demo_redis_world))))"
proof -
  from demo_session_run obtain w' where run: "demo_session demo_redis_world = Some (Ok [5, 6, 6, 7, 5], w')"
    by (auto simp: map_option_case split: option.splits)
  have "redis_ctr demo_hx demo_redis_world = Fetch"
    by (simp add: redis_ctr_def demo_redis_world_def demo_manager_def demo_redis_def)
  with redis_session [OF demo_idle run [unfolded demo_session_def]] run show ?thesis
    by (simp add: decr_supported_def)
qed

end
