(* ===== verification/RedisConc.thy ===== *)
theory RedisConc
  imports RedisNonce
begin

text \<open>
  Several processes that share one account on one Redis, one command at a time: each goroutine
  belongs to a manager, each manager has its instance ID and its own dirty flag, and the lock and
  the counter are in the database. Any goroutine may move next; commands may fail, and the lock
  may expire, each under a flag of the relation.
\<close>

section \<open>Goroutines\<close>

text \<open>
  Where a goroutine is in \<open>Acquire\<close>, \<open>acquireLock\<close>, \<open>nextNonce\<close> and the slot methods. A goroutine
  resolves the slot it acquired, as \<open>Submit\<close> does; \<open>Hold n\<close> is the time in between.
\<close>

datatype rpc =
    Out | Try | Poll | Read | DirtyWait | DirtyFetch | DirtySet u64 | DirtyClear u64
  | Look | SeedFetch | SeedSet u64 | GetCounter | IncSet u64 | Failing
  | Hold u64 | Decrement u64 | Release

datatype revent = Silent | Handed nat u64 | Done nat resolution

text \<open>The database, the dirty flag of each manager, and the goroutines.\<close>

type_synonym cluster = "database \<times> (nat \<Rightarrow> bool) \<times> (nat \<Rightarrow> rpc)"

text \<open>
  What a command answers, and the database after it: its result and effect, or an error that
  leaves the effect open.
\<close>

definition outcome :: "bool \<Rightarrow> (database \<Rightarrow> 'a \<times> database) \<Rightarrow> database \<Rightarrow> 'a option \<Rightarrow> database \<Rightarrow> bool" where
  "outcome faults f d r d' \<longleftrightarrow>
     r = Some (fst (f d)) \<and> d' = snd (f d) \<or> faults \<and> r = None \<and> (d' = d \<or> d' = snd (f d))"

definition decr_outcome :: "bool \<Rightarrow> string \<Rightarrow> database \<Rightarrow> database \<Rightarrow> bool" where
  "decr_outcome faults k d d' \<longleftrightarrow>
     (case db_decr k d of None \<Rightarrow> d' = d | Some (i, e) \<Rightarrow> d' = e \<or> faults \<and> d' = d)"

text \<open>
  One goroutine: its manager has index \<open>m\<close> and instance ID \<open>iid\<close>; \<open>mg\<close> gives the account, whose keys
  all share; \<open>pending\<close> is what the node may answer to \<open>PendingNonceAt\<close>.
\<close>

inductive rstep ::
  "bool \<Rightarrow> (address \<Rightarrow> string) \<Rightarrow> 'e redis_nm \<Rightarrow> string \<Rightarrow> u64 set \<Rightarrow> nat \<Rightarrow>
     database \<times> (nat \<Rightarrow> bool) \<times> rpc \<Rightarrow> revent \<Rightarrow> database \<times> (nat \<Rightarrow> bool) \<times> rpc \<Rightarrow> bool"
  for faults hx mg iid pending m where
  call: "rstep faults hx mg iid pending m (d, D, Out) Silent (d, D, Try)"
| lock_got: "outcome faults (db_setnx (lockKey hx mg) iid) d (Some True) d' \<Longrightarrow>
    rstep faults hx mg iid pending m (d, D, Try) Silent (d', D, Read)"
| lock_taken: "outcome faults (db_setnx (lockKey hx mg) iid) d (Some False) d' \<Longrightarrow>
    rstep faults hx mg iid pending m (d, D, Try) Silent (d', D, Poll)"
| lock_failed: "outcome faults (db_setnx (lockKey hx mg) iid) d None d' \<Longrightarrow>
    rstep faults hx mg iid pending m (d, D, Try) Silent (d', D, Out)"
| poll_timer: "rstep faults hx mg iid pending m (d, D, Poll) Silent (d, D, Try)"
| poll_done: "rstep faults hx mg iid pending m (d, D, Poll) Silent (d, D, Out)"
| read_dirty: "D m \<Longrightarrow>
    rstep faults hx mg iid pending m (d, D, Read) Silent (d, D, DirtyWait)"
| read_clean: "\<not> D m \<Longrightarrow>
    rstep faults hx mg iid pending m (d, D, Read) Silent (d, D, Look)"
| wait_done: "rstep faults hx mg iid pending m (d, D, DirtyWait) Silent (d, D, Failing)"
| wait_timer: "rstep faults hx mg iid pending m (d, D, DirtyWait) Silent (d, D, DirtyFetch)"
| dirty_fetched: "n \<in> pending \<Longrightarrow>
    rstep faults hx mg iid pending m (d, D, DirtyFetch) Silent (d, D, DirtySet n)"
| dirty_failed: "rstep faults hx mg iid pending m (d, D, DirtyFetch) Silent (d, D, Failing)"
| dirty_set: "outcome faults (db_set (counterKey hx mg) (FormatUint (n + 1))) d (Some ()) d' \<Longrightarrow>
    rstep faults hx mg iid pending m (d, D, DirtySet n) Silent (d', D, DirtyClear n)"
| dirty_unset: "outcome faults (db_set (counterKey hx mg) (FormatUint (n + 1))) d None d' \<Longrightarrow>
    rstep faults hx mg iid pending m (d, D, DirtySet n) Silent (d', D, Failing)"
| dirty_clear: "rstep faults hx mg iid pending m (d, D, DirtyClear n) (Handed m n) (d, D(m := False), Hold n)"
| look_missing: "outcome faults (db_exists (counterKey hx mg)) d (Some 0) d' \<Longrightarrow>
    rstep faults hx mg iid pending m (d, D, Look) Silent (d', D, SeedFetch)"
| look_found: "outcome faults (db_exists (counterKey hx mg)) d (Some (Suc k)) d' \<Longrightarrow>
    rstep faults hx mg iid pending m (d, D, Look) Silent (d', D, GetCounter)"
| look_failed: "outcome faults (db_exists (counterKey hx mg)) d None d' \<Longrightarrow>
    rstep faults hx mg iid pending m (d, D, Look) Silent (d', D, Failing)"
| seed_fetched: "n \<in> pending \<Longrightarrow>
    rstep faults hx mg iid pending m (d, D, SeedFetch) Silent (d, D, SeedSet n)"
| seed_failed: "rstep faults hx mg iid pending m (d, D, SeedFetch) Silent (d, D, Failing)"
| seed_set: "outcome faults (db_set (counterKey hx mg) (FormatUint (n + 1))) d (Some ()) d' \<Longrightarrow>
    rstep faults hx mg iid pending m (d, D, SeedSet n) (Handed m n) (d', D, Hold n)"
| seed_unset: "outcome faults (db_set (counterKey hx mg) (FormatUint (n + 1))) d None d' \<Longrightarrow>
    rstep faults hx mg iid pending m (d, D, SeedSet n) Silent (d', D, Failing)"
| get_ok: "d (counterKey hx mg) = Some v \<Longrightarrow> ParseUint v = Ok c \<Longrightarrow>
    rstep faults hx mg iid pending m (d, D, GetCounter) Silent (d, D, IncSet c)"
| get_failed: "faults \<or> (\<forall>v c. d (counterKey hx mg) = Some v \<longrightarrow> ParseUint v \<noteq> Ok c) \<Longrightarrow>
    rstep faults hx mg iid pending m (d, D, GetCounter) Silent (d, D, Failing)"
| inc_set: "outcome faults (db_set (counterKey hx mg) (FormatUint (c + 1))) d (Some ()) d' \<Longrightarrow>
    rstep faults hx mg iid pending m (d, D, IncSet c) (Handed m c) (d', D, Hold c)"
| inc_unset: "outcome faults (db_set (counterKey hx mg) (FormatUint (c + 1))) d None d' \<Longrightarrow>
    rstep faults hx mg iid pending m (d, D, IncSet c) Silent (d', D, Failing)"
| failing: "outcome faults (releaseLockScript (lockKey hx mg) iid) d r d' \<Longrightarrow>
    rstep faults hx mg iid pending m (d, D, Failing) Silent (d', D, Out)"
| commit: "rstep faults hx mg iid pending m (d, D, Hold n) (Done m Commit) (d, D, Release)"
| reuse: "rstep faults hx mg iid pending m (d, D, Hold n) Silent (d, D, Decrement n)"
| decrement: "decr_outcome faults (counterKey hx mg) d d' \<Longrightarrow>
    rstep faults hx mg iid pending m (d, D, Decrement n) (Done m Reuse) (d', D, Release)"
| reclaim: "rstep faults hx mg iid pending m (d, D, Hold n) (Done m Reclaim) (d, D(m := True), Release)"
| release: "outcome faults (releaseLockScript (lockKey hx mg) iid) d r d' \<Longrightarrow>
    rstep faults hx mg iid pending m (d, D, Release) Silent (d', D, Out)"

text \<open>All goroutines: \<open>own\<close> is the manager of a goroutine, \<open>ids\<close> the instance ID of a manager.\<close>

inductive cstep ::
  "bool \<Rightarrow> bool \<Rightarrow> (address \<Rightarrow> string) \<Rightarrow> 'e redis_nm \<Rightarrow> (nat \<Rightarrow> string) \<Rightarrow> (nat \<Rightarrow> nat) \<Rightarrow> u64 set \<Rightarrow>
     cluster \<Rightarrow> revent \<Rightarrow> cluster \<Rightarrow> bool" for expiry faults hx mg ids own pending where
  goroutine: "rstep faults hx mg (ids (own t)) pending (own t) (d, D, P t) e (d', D', pc) \<Longrightarrow>
    cstep expiry faults hx mg ids own pending (d, D, P) e (d', D', P(t := pc))"
| expire: "expiry \<Longrightarrow> cstep expiry faults hx mg ids own pending (d, D, P) Silent (d(lockKey hx mg := None), D, P)"

text \<open>A run, with the events that are not silent.\<close>

inductive crun ::
  "bool \<Rightarrow> bool \<Rightarrow> (address \<Rightarrow> string) \<Rightarrow> 'e redis_nm \<Rightarrow> (nat \<Rightarrow> string) \<Rightarrow> (nat \<Rightarrow> nat) \<Rightarrow> u64 set \<Rightarrow>
     cluster \<Rightarrow> revent list \<Rightarrow> cluster \<Rightarrow> bool" for expiry faults hx mg ids own pending where
  halt: "crun expiry faults hx mg ids own pending s [] s"
| move: "crun expiry faults hx mg ids own pending s es s' \<Longrightarrow> cstep expiry faults hx mg ids own pending s' e s'' \<Longrightarrow>
    crun expiry faults hx mg ids own pending s (if e = Silent then es else es @ [e]) s''"

section \<open>Mutual exclusion\<close>

fun holds_lock :: "rpc \<Rightarrow> bool" where
  "holds_lock Out = False"
| "holds_lock Try = False"
| "holds_lock Poll = False"
| "holds_lock _ = True"

definition exclusive :: "(address \<Rightarrow> string) \<Rightarrow> 'e redis_nm \<Rightarrow> (nat \<Rightarrow> string) \<Rightarrow> (nat \<Rightarrow> nat) \<Rightarrow> cluster \<Rightarrow> bool" where
  "exclusive hx mg ids own s \<longleftrightarrow>
     (case s of (d, D, P) \<Rightarrow>
       (\<forall>t. holds_lock (P t) \<longrightarrow> d (lockKey hx mg) = Some (ids (own t))) \<and>
       (\<forall>t t'. holds_lock (P t) \<longrightarrow> holds_lock (P t') \<longrightarrow> t = t'))"

lemma decr_outcome_lock: "decr_outcome faults (counterKey hx mg) d d' \<Longrightarrow> d' (lockKey hx mg) = d (lockKey hx mg)"
  by (auto simp: decr_outcome_def db_decr_def split: option.splits if_splits)

lemma rstep_lock:
  assumes "rstep faults hx mg iid pending m (d, D, pc) e (d', D', pc')"
    and "holds_lock pc \<longrightarrow> d (lockKey hx mg) = Some iid"
  shows "holds_lock pc' \<longrightarrow> d' (lockKey hx mg) = Some iid"
    and "\<not> holds_lock pc \<longrightarrow> (if holds_lock pc' then d (lockKey hx mg) = None
      else d (lockKey hx mg) \<noteq> None \<longrightarrow> d' (lockKey hx mg) = d (lockKey hx mg))"
  using assms
  by (induction "(d, D, pc)" e "(d', D', pc')" rule: rstep.induct)
    (auto simp: outcome_def db_setnx_def db_set_def db_exists_def releaseLockScript_def decr_outcome_lock split: if_splits)

lemma cstep_exclusive:
  assumes "cstep False faults hx mg ids own pending s e s'" and "exclusive hx mg ids own s"
  shows "exclusive hx mg ids own s'"
  using assms(1)
proof (cases rule: cstep.cases)
  case (goroutine t d D P d' D' pc)
  with assms(2) rstep_lock [OF goroutine(3)] show ?thesis by (fastforce simp: exclusive_def split: if_splits)
qed simp

lemma crun_exclusive:
  "crun False faults hx mg ids own pending s es s' \<Longrightarrow> exclusive hx mg ids own s \<Longrightarrow> exclusive hx mg ids own s'"
  by (induction rule: crun.induct) (auto intro: cstep_exclusive)


definition all_out :: "database \<Rightarrow> cluster" where
  "all_out d = (d, \<lambda>_. False, \<lambda>_. Out)"

lemma exclusive_all_out: "exclusive hx mg ids own (all_out d)"
  by (simp add: exclusive_def all_out_def)

section \<open>The contract of the shared counter\<close>

text \<open>
  What the workers share, one slot at a time: the counter (if there is one), the dirty flag of each
  manager, and the slot that is out, with its manager and nonce. A manager that is dirty, or that
  finds no counter, takes a nonce the node answers.
\<close>

type_synonym shared = "u64 option \<times> (nat \<Rightarrow> bool) \<times> (nat \<times> u64) option"

fun shared_next :: "u64 set \<Rightarrow> shared \<Rightarrow> revent \<Rightarrow> shared option" where
  "shared_next pending (c, D, None) (Handed m n) =
     (if (if D m then n \<in> pending else case c of None \<Rightarrow> n \<in> pending | Some k \<Rightarrow> n = k)
      then Some (Some (n + 1), D(m := False), Some (m, n)) else None)"
| "shared_next pending (c, D, Some (m, n)) (Done m' r) =
     (if m' = m then Some (if r = Reuse then Some n else c, if r = Reclaim then D(m := True) else D, None)
      else None)"
| "shared_next pending a _ = None"

fun shared_run :: "u64 set \<Rightarrow> shared \<Rightarrow> revent list \<Rightarrow> shared option" where
  "shared_run pending a [] = Some a"
| "shared_run pending a (e # es) =
     (case shared_next pending a e of None \<Rightarrow> None | Some a' \<Rightarrow> shared_run pending a' es)"

lemma shared_run_snoc:
  "shared_run pending a (es @ [e]) =
     (case shared_run pending a es of None \<Rightarrow> None | Some a' \<Rightarrow> shared_next pending a' e)"
  by (induction es arbitrary: a) (auto split: option.splits)

section \<open>The handlers keep the contract\<close>

text \<open>What the owner of the lock has done so far, by where it is: \<open>c\<close> is the counter of the contract.\<close>

fun tied :: "u64 set \<Rightarrow> nat \<Rightarrow> string option \<Rightarrow> shared \<Rightarrow> rpc \<Rightarrow> bool" where
  "tied pending m v (c, D, h) (DirtySet n) \<longleftrightarrow> v = map_option FormatUint c \<and> h = None \<and> D m \<and> n \<in> pending"
| "tied pending m v (c, D, h) (DirtyClear n) \<longleftrightarrow> v = Some (FormatUint (n + 1)) \<and> h = None \<and> D m \<and> n \<in> pending"
| "tied pending m v (c, D, h) (SeedSet n) \<longleftrightarrow> v = None \<and> c = None \<and> h = None \<and> \<not> D m \<and> n \<in> pending"
| "tied pending m v (c, D, h) (IncSet n) \<longleftrightarrow> c = Some n \<and> v = Some (FormatUint n) \<and> h = None \<and> \<not> D m"
| "tied pending m v (c, D, h) (Hold n) \<longleftrightarrow>
     c = Some (n + 1) \<and> v = Some (FormatUint (n + 1)) \<and> h = Some (m, n) \<and> decr_supported n"
| "tied pending m v (c, D, h) (Decrement n) \<longleftrightarrow>
     c = Some (n + 1) \<and> v = Some (FormatUint (n + 1)) \<and> h = Some (m, n) \<and> decr_supported n"
| "tied pending m v (c, D, h) pc \<longleftrightarrow> v = map_option FormatUint c \<and> h = None \<and>
     (pc \<in> {DirtyWait, DirtyFetch} \<longrightarrow> D m) \<and> (pc \<in> {Look, SeedFetch, GetCounter} \<longrightarrow> \<not> D m) \<and>
     (pc = SeedFetch \<longrightarrow> c = None) \<and> (pc = GetCounter \<longrightarrow> c \<noteq> None)"

definition follows :: "(address \<Rightarrow> string) \<Rightarrow> 'e redis_nm \<Rightarrow> (nat \<Rightarrow> nat) \<Rightarrow> u64 set \<Rightarrow> cluster \<Rightarrow> shared \<Rightarrow> bool" where
  "follows hx mg own pending s a \<longleftrightarrow>
     (case (s, a) of ((d, D, P), (c, D', h)) \<Rightarrow>
       D' = D \<and>
       ((\<forall>t. \<not> holds_lock (P t)) \<longrightarrow> d (counterKey hx mg) = map_option FormatUint c \<and> h = None) \<and>
       (\<forall>t. holds_lock (P t) \<longrightarrow> tied pending (own t) (d (counterKey hx mg)) a (P t)))"

lemma lock_key_effects:
  "outcome False (db_setnx (lockKey hx mg) v) d r d' \<Longrightarrow> d' (counterKey hx mg) = d (counterKey hx mg)"
  "outcome faults (releaseLockScript (lockKey hx mg) v) d r' d' \<Longrightarrow> d' (counterKey hx mg) = d (counterKey hx mg)"
  by (auto simp: outcome_def db_setnx_def releaseLockScript_def split: if_splits)

lemma decr_effect:
  assumes "decr_outcome False k d d'" and "decr_supported n" and "d k = Some (FormatUint (n + 1))"
  shows "d' k = Some (FormatUint n)"
  using assms(1) decr_counter [OF assms(2), of d k] assms(3) by (simp add: decr_outcome_def)

text \<open>A goroutine without the lock changes nothing that is shared, but for taking the lock.\<close>

lemma rstep_outside:
  assumes "rstep False hx mg iid pending m (d, D, pc) e (d', D', pc')" and "\<not> holds_lock pc"
  shows "e = Silent \<and> D' = D \<and> d' (counterKey hx mg) = d (counterKey hx mg) \<and> (holds_lock pc' \<longrightarrow> pc' = Read)"
  using assms
  by (induction "(d, D, pc)" e "(d', D', pc')" rule: rstep.induct) (auto simp: lock_key_effects)

text \<open>The owner of the lock moves as the contract does.\<close>

lemma rstep_owner:
  assumes "rstep False hx mg iid pending m (d, D, pc) e (d', D', pc')"
    and "holds_lock pc" and "tied pending m (d (counterKey hx mg)) (c, D, h) pc"
    and "\<forall>m n. e = Handed m n \<longrightarrow> decr_supported n"
  shows "\<exists>a'. (if e = Silent then a' = (c, D, h) else shared_next pending (c, D, h) e = Some a') \<and>
    fst (snd a') = D' \<and>
    (if holds_lock pc' then tied pending m (d' (counterKey hx mg)) a' pc'
     else d' (counterKey hx mg) = map_option FormatUint (fst a') \<and> snd (snd a') = None)"
  using assms
  by (induction "(d, D, pc)" e "(d', D', pc')" rule: rstep.induct)
    (auto simp: lock_key_effects outcome_def db_set_def db_exists_def releaseLockScript_def decr_effect fun_upd_idem_iff split: if_splits)

lemma follows_here:
  assumes "\<forall>t'. t' \<noteq> t \<longrightarrow> \<not> holds_lock (P t')" and "fst (snd a) = D"
    and "if holds_lock pc then tied pending (own t) (d (counterKey hx mg)) a pc
      else d (counterKey hx mg) = map_option FormatUint (fst a) \<and> snd (snd a) = None"
  shows "follows hx mg own pending (d, D, P(t := pc)) a"
  using assms by (auto simp: follows_def split: prod.splits if_splits)

lemma cstep_follows:
  assumes step: "cstep False False hx mg ids own pending s e s'" and ex: "exclusive hx mg ids own s"
    and fol: "follows hx mg own pending s a" and sup: "\<forall>m n. e = Handed m n \<longrightarrow> decr_supported n"
  shows "\<exists>a'. (if e = Silent then a' = a else shared_next pending a e = Some a') \<and> follows hx mg own pending s' a'"
  using step
proof (cases rule: cstep.cases)
  case (goroutine t d D P d' D' pc)
  from fol goroutine(1) obtain c h where a: "a = (c, D, h)" by (cases a) (auto simp: follows_def)
  show ?thesis
  proof (cases "holds_lock (P t)")
    case True
    with ex goroutine(1) have "\<forall>t'. t' \<noteq> t \<longrightarrow> \<not> holds_lock (P t')" by (auto simp: exclusive_def)
    moreover from True fol goroutine(1) a have "tied pending (own t) (d (counterKey hx mg)) (c, D, h) (P t)"
      by (auto simp: follows_def)
    ultimately show ?thesis using rstep_owner [OF goroutine(3) True _ sup] goroutine(2) a
      by (metis follows_here)
  next
    case False
    from rstep_outside [OF goroutine(3) this] have out: "e = Silent" "D' = D"
      "d' (counterKey hx mg) = d (counterKey hx mg)" "holds_lock pc \<longrightarrow> pc = Read" by auto
    have "holds_lock pc \<Longrightarrow> \<not> holds_lock (P t')" for t'
      using rstep_lock(2) [OF goroutine(3)] False ex goroutine(1) by (auto simp: exclusive_def split: if_splits)
    with out fol goroutine(1,2) False a show ?thesis by (auto simp: follows_def)
  qed
qed simp

lemma follows_all_out:
  assumes "d (counterKey hx mg) = map_option FormatUint c"
  shows "follows hx mg own pending (all_out d) (c, \<lambda>_. False, None)"
  using assms by (simp add: follows_def all_out_def)

lemma crun_follows:
  assumes "crun False False hx mg ids own pending s es s'"
    and "exclusive hx mg ids own s" and "follows hx mg own pending s a"
    and "\<forall>m n. Handed m n \<in> set es \<longrightarrow> decr_supported n"
  shows "\<exists>a'. shared_run pending a es = Some a' \<and> follows hx mg own pending s' a'"
  using assms
proof (induction rule: crun.induct)
  case (move s es s' e s'')
  then obtain a' where a': "shared_run pending a es = Some a'" "follows hx mg own pending s' a'"
    by (auto split: if_splits)
  from move have "\<forall>m n. e = Handed m n \<longrightarrow> decr_supported n" by (auto split: if_splits)
  from cstep_follows [OF move.hyps(2) crun_exclusive [OF move.hyps(1) move.prems(1)] a'(2) this] a'(1)
  show ?case by (cases "e = Silent") (auto simp: shared_run_snoc)
qed simp

section \<open>Nonces that were broadcast\<close>

fun workers_broadcast :: "revent list \<Rightarrow> u64 list" where
  "workers_broadcast (Handed m n # Done m' Commit # es) = n # workers_broadcast es"
| "workers_broadcast (e # es) = workers_broadcast es"
| "workers_broadcast [] = []"

fun reclaims :: "revent \<Rightarrow> bool" where
  "reclaims (Done m r) = (r = Reclaim)"
| "reclaims _ = False"

lemma consecutive_Suc:
  "map (\<lambda>i. k + of_nat i) [0..<Suc m] = k # map (\<lambda>i. k + 1 + (of_nat i :: u64)) [0..<m]"
  by (simp add: upt_conv_Cons map_Suc_upt [symmetric] add_ac del: upt_Suc)

lemma shared_run_consecutive:
  assumes "shared_run pending (Some k, \<lambda>_. False, None) es = Some a'" and "\<forall>e \<in> set es. \<not> reclaims e"
  shows "workers_broadcast es = map (\<lambda>i. k + of_nat i) [0..<length (workers_broadcast es)]"
  using assms
proof (induction es arbitrary: k rule: induct_list012)
  case (2 e)
  then show ?case by (cases e) auto
next
  case (3 e e' es)
  from 3(3) obtain m where e: "e = Handed m k" and "shared_run pending (Some (k + 1), \<lambda>_. False, Some (m, k)) (e' # es) = Some a'"
    by (cases e) (auto split: if_splits simp: fun_upd_idem)
  with 3(4) obtain r where e': "e' = Done m r" and r: "r \<noteq> Reclaim"
      and run: "shared_run pending (Some (if r = Reuse then k else k + 1), \<lambda>_. False, None) es = Some a'"
    by (cases e') (auto split: if_splits)
  from 3(1) [OF run] 3(4) e e' r show ?case
    by (cases r) (simp_all add: consecutive_Suc del: upt_Suc)
qed simp


section \<open>Runs, for concrete instances\<close>

lemma crun_trans:
  assumes "crun expiry faults hx mg ids own pending s es s'" and "crun expiry faults hx mg ids own pending s' es' s''"
  shows "crun expiry faults hx mg ids own pending s (es @ es') s''"
  using assms(2,1)
proof (induction rule: crun.induct)
  case (move s es' s' e s'')
  from crun.move [OF move.IH [OF move.prems] move.hyps(2)] show ?case by (cases "e = Silent") simp_all
qed simp

text \<open>The steps of one goroutine while the others stand still.\<close>

inductive rrun ::
  "bool \<Rightarrow> (address \<Rightarrow> string) \<Rightarrow> 'e redis_nm \<Rightarrow> string \<Rightarrow> u64 set \<Rightarrow> nat \<Rightarrow>
     database \<times> (nat \<Rightarrow> bool) \<times> rpc \<Rightarrow> revent list \<Rightarrow> database \<times> (nat \<Rightarrow> bool) \<times> rpc \<Rightarrow> bool"
  for faults hx mg iid pending m where
  stay: "rrun faults hx mg iid pending m x [] x"
| quiet: "rstep faults hx mg iid pending m x Silent y \<Longrightarrow> rrun faults hx mg iid pending m y es z \<Longrightarrow>
    rrun faults hx mg iid pending m x es z"
| loud: "rstep faults hx mg iid pending m x e y \<Longrightarrow> e \<noteq> Silent \<Longrightarrow> rrun faults hx mg iid pending m y es z \<Longrightarrow>
    rrun faults hx mg iid pending m x (e # es) z"

lemma crun_first:
  assumes "rstep faults hx mg (ids (own t)) pending (own t) (d, D, P t) e (d', D', pc)"
    and "crun expiry faults hx mg ids own pending (d', D', P(t := pc)) es s"
  shows "crun expiry faults hx mg ids own pending (d, D, P) (if e = Silent then es else e # es) s"
proof -
  from assms(1) have "cstep expiry faults hx mg ids own pending (d, D, P) e (d', D', P(t := pc))"
    by (rule cstep.goroutine)
  from crun.move [OF crun.halt this] have
    "crun expiry faults hx mg ids own pending (d, D, P) (if e = Silent then [] else [] @ [e]) (d', D', P(t := pc))" .
  from crun_trans [OF this assms(2)] show ?thesis by (simp split: if_splits)
qed

lemma rrun_crun:
  assumes "rrun faults hx mg (ids (own t)) pending (own t) (d, D, pc) es (d', D', pc')" and "P t = pc"
  shows "crun expiry faults hx mg ids own pending (d, D, P) es (d', D', P(t := pc'))"
  using assms
proof (induction "(d, D, pc)" es "(d', D', pc')" arbitrary: d D pc P rule: rrun.induct)
  case stay
  then show ?case by (metis crun.halt fun_upd_triv)
next
  case (quiet y es)
  obtain d2 D2 pc2 where y: "y = (d2, D2, pc2)" by (cases y) auto
  from quiet.hyps(3) [OF y, of "P(t := pc2)"]
    crun_first [of faults hx mg ids own t pending d D P Silent d2 D2 pc2 expiry es] quiet y
  show ?case by simp
next
  case (loud e y es)
  obtain d2 D2 pc2 where y: "y = (d2, D2, pc2)" by (cases y) auto
  from loud.hyps(4) [OF y, of "P(t := pc2)"]
    crun_first [of faults hx mg ids own t pending d D P e d2 D2 pc2 expiry es] loud y
  show ?case by simp
qed

text \<open>One uncontended \<open>Acquire\<close> of a goroutine whose manager is not dirty, and its ends.\<close>

lemma acquire_run:
  assumes "\<not> D m" and "d (lockKey hx mg) = None"
    and "d (counterKey hx mg) = None \<and> n \<in> pending \<or> d (counterKey hx mg) = Some (FormatUint n)"
  shows "rrun faults hx mg iid pending m (d, D, Out) [Handed m n]
    (d(lockKey hx mg \<mapsto> iid, counterKey hx mg \<mapsto> FormatUint (n + 1)), D, Hold n)"
proof -
  let ?d = "d(lockKey hx mg \<mapsto> iid)"
  let ?s = "(?d(counterKey hx mg \<mapsto> FormatUint (n + 1)), D, Hold n)"
  have "rrun faults hx mg iid pending m (?d, D, Look) [Handed m n] ?s"
    using assms(3)
  proof
    assume none: "d (counterKey hx mg) = None \<and> n \<in> pending"
    show ?thesis
      by (rule rrun.quiet [OF rstep.look_missing [where d' = ?d]], use none in \<open>simp add: outcome_def db_exists_def\<close>,
          rule rrun.quiet [OF rstep.seed_fetched [where n = n]], use none in simp,
          rule rrun.loud [OF rstep.seed_set], simp add: outcome_def db_set_def, simp, rule rrun.stay)
  next
    assume some: "d (counterKey hx mg) = Some (FormatUint n)"
    show ?thesis
      by (rule rrun.quiet [OF rstep.look_found [where d' = ?d and k = 0]], use some in \<open>simp add: outcome_def db_exists_def\<close>,
          rule rrun.quiet [OF rstep.get_ok [where c = n]], use some in simp, simp,
          rule rrun.loud [OF rstep.inc_set], simp add: outcome_def db_set_def, simp, rule rrun.stay)
  qed
  moreover have "rstep faults hx mg iid pending m (d, D, Try) Silent (?d, D, Read)"
    using assms(2) by (auto intro!: rstep.lock_got simp: outcome_def db_setnx_def)
  ultimately show ?thesis using rstep.read_clean [where D = D and m = m, OF assms(1)] rrun.quiet rstep.call by metis
qed

lemma release_run:
  "rrun faults hx mg iid pending m (d, D, Release) []
     (if d (lockKey hx mg) = Some iid then d(lockKey hx mg := None) else d, D, Out)"
  by (rule rrun.quiet [OF rstep.release [where r = "Some (fst (releaseLockScript (lockKey hx mg) iid d))"] rrun.stay])
    (simp add: outcome_def releaseLockScript_def)

lemma commit_run:
  "rrun faults hx mg iid pending m (d, D, Hold n) [Done m Commit]
     (if d (lockKey hx mg) = Some iid then d(lockKey hx mg := None) else d, D, Out)"
  by (rule rrun.loud [OF rstep.commit _ release_run]) simp

lemma reclaim_run:
  "rrun faults hx mg iid pending m (d, D, Hold n) [Done m Reclaim]
     (if d (lockKey hx mg) = Some iid then d(lockKey hx mg := None) else d, D(m := True), Out)"
  by (rule rrun.loud [OF rstep.reclaim _ release_run]) simp

lemma reuse_run:
  assumes "d (counterKey hx mg) = Some (FormatUint (k + 1))" and "decr_supported k"
  shows "rrun faults hx mg iid pending m (d, D, Hold n) [Done m Reuse]
     (if d (lockKey hx mg) = Some iid then d(counterKey hx mg \<mapsto> FormatUint k, lockKey hx mg := None)
      else d(counterKey hx mg \<mapsto> FormatUint k), D, Out)"
proof -
  have "decr_outcome faults (counterKey hx mg) d (d(counterKey hx mg \<mapsto> FormatUint k))"
    using decr_counter [OF assms(2), of d "counterKey hx mg"] assms(1) by (simp add: decr_outcome_def)
  from rrun.quiet [OF rstep.reuse rrun.loud [OF rstep.decrement [OF this] _ release_run]]
  show ?thesis by (simp split: if_splits)
qed

lemma crun_then:
  assumes "crun expiry faults hx mg ids own pending s es (d, D, P)"
    and "rrun faults hx mg (ids (own t)) pending (own t) (d, D, P t) es' (d', D', pc)"
  shows "crun expiry faults hx mg ids own pending s (es @ es') (d', D', P(t := pc))"
  using crun_trans [OF assms(1) rrun_crun [where own = own and t = t and ids = ids, OF assms(2)]] by simp

text \<open>Two workers, each with its manager, and a counter that the first one seeds with 5.\<close>

lemma worker_0_acquires:
  "crun expiry False hx mg ids (\<lambda>t. t) {5} (all_out (\<lambda>_. None)) [Handed 0 5]
     ([lockKey hx mg \<mapsto> ids 0, counterKey hx mg \<mapsto> FormatUint 6], \<lambda>_. False, (\<lambda>_. Out)(0 := Hold 5))"
proof -
  have "rrun False hx mg (ids 0) {5} 0 (\<lambda>_. None, \<lambda>_. False, Out) [Handed 0 5]
      ([lockKey hx mg \<mapsto> ids 0, counterKey hx mg \<mapsto> FormatUint 6], \<lambda>_. False, Hold 5)"
    using acquire_run [of "\<lambda>_. False" 0 "\<lambda>_. None" hx mg 5 "{5}" False "ids 0"] by simp
  from rrun_crun [where own = "\<lambda>t. t" and t = 0 and ids = ids and P = "\<lambda>_. Out", OF this]
  show ?thesis by (simp add: all_out_def)
qed

lemma worker_1_acquires:
  assumes "\<not> D 1"
  shows "rrun False hx mg (ids 1) {5} 1 ([counterKey hx mg \<mapsto> FormatUint 6], D, Out) [Handed 1 6]
    ([lockKey hx mg \<mapsto> ids 1, counterKey hx mg \<mapsto> FormatUint 7], D, Hold 6)"
  using assms acquire_run [of D 1 "[counterKey hx mg \<mapsto> FormatUint 6]" hx mg 6 "{5}" False "ids 1"]
  by (simp add: fun_upd_twist)

lemma worker_1_commits:
  "rrun False hx mg (ids 1) {5} 1 ([lockKey hx mg \<mapsto> ids 1, counterKey hx mg \<mapsto> FormatUint 7], D, Hold 6) [Done 1 Commit]
    ([counterKey hx mg \<mapsto> FormatUint 7], D, Out)"
  using commit_run [of False hx mg "ids 1" "{5}" 1 "[lockKey hx mg \<mapsto> ids 1, counterKey hx mg \<mapsto> FormatUint 7]" D 6]
  by (simp add: fun_upd_twist)

lemma workers_take_turns:
  "\<exists>d P. crun False False hx mg ids (\<lambda>t. t) {5} (all_out (\<lambda>_. None))
     [Handed 0 5, Done 0 Commit, Handed 1 6, Done 1 Commit] (d, \<lambda>_. False, P)"
proof -
  note next_run = crun_then [where expiry = False and own = "\<lambda>t. t" and ids = ids and pending = "{5}" and faults = False]
  have "rrun False hx mg (ids 0) {5} 0 ([lockKey hx mg \<mapsto> ids 0, counterKey hx mg \<mapsto> FormatUint 6], \<lambda>_. False, Hold 5)
      [Done 0 Commit] ([counterKey hx mg \<mapsto> FormatUint 6], \<lambda>_. False, Out)"
    using commit_run [of False hx mg "ids 0" "{5}" 0 "[lockKey hx mg \<mapsto> ids 0, counterKey hx mg \<mapsto> FormatUint 6]" "\<lambda>_. False" 5]
    by (simp add: fun_upd_twist)
  with next_run [where t = 0, OF worker_0_acquires] have first:
    "crun False False hx mg ids (\<lambda>t. t) {5} (all_out (\<lambda>_. None)) [Handed 0 5, Done 0 Commit]
      ([counterKey hx mg \<mapsto> FormatUint 6], \<lambda>_. False, (\<lambda>_. Out)(0 := Out))"
    by fastforce
  from next_run [where t = 1, OF first] worker_1_acquires [where D = "\<lambda>_. False"] have second:
    "crun False False hx mg ids (\<lambda>t. t) {5} (all_out (\<lambda>_. None)) [Handed 0 5, Done 0 Commit, Handed 1 6]
      ([lockKey hx mg \<mapsto> ids 1, counterKey hx mg \<mapsto> FormatUint 7], \<lambda>_. False, (\<lambda>_. Out)(0 := Out, 1 := Hold 6))"
    by fastforce
  from next_run [where t = 1, OF second] worker_1_commits [where D = "\<lambda>_. False"] show ?thesis by fastforce
qed

section \<open>Workers that share an account\<close>

lemma shared_run_seeded:
  assumes "shared_run pending (None, \<lambda>_. False, None) es = Some a" and "es \<noteq> []"
  shows "\<exists>n. shared_run pending (Some n, \<lambda>_. False, None) es = Some a"
proof -
  from assms obtain m n es' where "es = Handed m n # es'" and "n \<in> pending"
    by (cases es; cases "hd es") (auto split: option.splits if_splits)
  with assms(1) show ?thesis by (intro exI [of _ n]) simp
qed

text \<open>
  C9: mutual exclusion across processes. As long as no lock expires, at most one goroutine of all
  workers is past \<open>acquireLock\<close> or holds an unresolved slot, and the lock in the database carries
  the token of its manager; commands may fail, with their effect applied or not.
\<close>

theorem redis_mutual_exclusion:
  assumes "crun False faults hx mg ids own pending (all_out d) es (d', D, P)" and "holds_lock (P t)"
  shows "d' (lockKey hx mg) = Some (ids (own t)) \<and> (\<forall>t'. holds_lock (P t') \<longrightarrow> t' = t)"
  using crun_exclusive [OF assms(1) exclusive_all_out] assms(2) by (auto simp: exclusive_def)

theorem redis_mutual_exclusion_witness:
  "{t. holds_lock (((\<lambda>_. Out)(0 := Hold 5)) t)} = {0}"
  using redis_mutual_exclusion [OF worker_0_acquires, of 0 "\<lambda>_. ''0x7''" "demo_manager 1 7" "\<lambda>_. ''a''"] by auto



text \<open>
  As long as no broadcast fails and no lock expires, the nonces that all workers together
  broadcast are consecutive: none is skipped and none is used twice.
\<close>

theorem redis_broadcast_consecutive:
  assumes "crun False False hx mg ids own pending (all_out d) es s"
    and "d (counterKey hx mg) = map_option FormatUint c"
    and "\<forall>m n. Handed m n \<in> set es \<longrightarrow> decr_supported n" and "\<forall>e \<in> set es. \<not> reclaims e"
  shows "\<exists>k. workers_broadcast es = map (\<lambda>i. k + of_nat i) [0..<length (workers_broadcast es)]"
proof -
  from crun_follows [OF assms(1) exclusive_all_out follows_all_out [where d = d, OF assms(2)] assms(3)]
  obtain a where "shared_run pending (c, \<lambda>_. False, None) es = Some a" by blast
  then have "es = [] \<or> (\<exists>k. shared_run pending (Some k, \<lambda>_. False, None) es = Some a)"
    using shared_run_seeded [of pending es a] by (cases c) auto
  then show ?thesis
  proof
    assume "\<exists>k. shared_run pending (Some k, \<lambda>_. False, None) es = Some a"
    then obtain k where "shared_run pending (Some k, \<lambda>_. False, None) es = Some a" ..
    from shared_run_consecutive [OF this assms(4)] show ?thesis ..
  qed simp
qed

theorem redis_broadcast_consecutive_witness:
  "\<exists>k. workers_broadcast [Handed 0 5, Done 0 Commit, Handed 1 6, Done 1 Commit] = map (\<lambda>i. k + of_nat i) [0..<2]"
proof -
  from workers_take_turns [of "\<lambda>_. ''0x7''" "demo_manager 1 7" "\<lambda>_. ''a''"] obtain d P where
    "crun False False (\<lambda>_. ''0x7'') (demo_manager 1 7) (\<lambda>_. ''a'') (\<lambda>t. t) {5} (all_out (\<lambda>_. None))
       [Handed 0 5, Done 0 Commit, Handed 1 6, Done 1 Commit] (d, \<lambda>_. False, P)" by blast
  from redis_broadcast_consecutive [OF this, of None] show ?thesis by (simp add: decr_supported_def numeral_2_eq_2)
qed

section \<open>What workers do not share\<close>


text \<open>
  C20: \<open>Reuse\<close> decrements whatever counter it finds. When the lock of a worker has expired while it held
  a slot, another worker may have broadcast the next nonce; the late \<open>Reuse\<close> of the first worker
  then takes that nonce back, and it is handed out a second time.
\<close>

theorem expired_reuse_repeats_nonce:
  "\<exists>s. crun True False hx mg ids (\<lambda>t. t) {5} (all_out (\<lambda>_. None))
     [Handed 0 5, Handed 1 6, Done 1 Commit, Done 0 Reuse, Handed 1 6] s"
proof -
  let ?L = "lockKey hx mg" and ?K = "counterKey hx mg"
  let ?run = "crun True False hx mg ids (\<lambda>t. t) {5} (all_out (\<lambda>_. None))"
  note next_run = crun_then [where expiry = True and own = "\<lambda>t. t" and ids = ids and pending = "{5}" and faults = False]
  have expired: "?run [Handed 0 5] ([?K \<mapsto> FormatUint 6], \<lambda>_. False, (\<lambda>_. Out)(0 := Hold 5))"
    using crun.move [OF worker_0_acquires [where expiry = True], OF cstep.expire] by (simp add: fun_upd_twist)
  from next_run [where t = 1, OF expired] worker_1_acquires [where D = "\<lambda>_. False"] have second:
    "?run [Handed 0 5, Handed 1 6] ([?L \<mapsto> ids 1, ?K \<mapsto> FormatUint 7], \<lambda>_. False, (\<lambda>_. Out)(0 := Hold 5, 1 := Hold 6))"
    by fastforce
  from next_run [where t = 1, OF second] worker_1_commits [where D = "\<lambda>_. False"] have committed:
    "?run [Handed 0 5, Handed 1 6, Done 1 Commit] ([?K \<mapsto> FormatUint 7], \<lambda>_. False, (\<lambda>_. Out)(0 := Hold 5, 1 := Out))"
    by fastforce
  have "rrun False hx mg (ids 0) {5} 0 ([?K \<mapsto> FormatUint 7], \<lambda>_. False, Hold 5) [Done 0 Reuse]
      ([?K \<mapsto> FormatUint 6], \<lambda>_. False, Out)"
    using reuse_run [of "[?K \<mapsto> FormatUint 7]" hx mg 6 False "ids 0" "{5}" 0 "\<lambda>_. False" 5]
    by (simp add: decr_supported_def)
  with next_run [where t = 0, OF committed] have reused:
    "?run [Handed 0 5, Handed 1 6, Done 1 Commit, Done 0 Reuse] ([?K \<mapsto> FormatUint 6], \<lambda>_. False, (\<lambda>_. Out)(1 := Out, 0 := Out))"
    by (fastforce simp: fun_upd_twist)
  from next_run [where t = 1, OF reused] worker_1_acquires [where D = "\<lambda>_. False"] show ?thesis by fastforce
qed

end
