(* ===== verification/RedisRun.thy ===== *)
theory RedisRun
  imports RedisConc
begin

text \<open>
  The handlers of the Redis manager against the interleaving relation: every call of \<open>Acquire\<close> that
  hands out a nonce, and every slot method, is a sequence of steps of one goroutine with the same
  effect on the database and on the dirty flag, also on a Redis whose commands may fail.
\<close>

section \<open>One command\<close>

lemma rrun_append:
  "rrun faults hx mg iid pending m x es y \<Longrightarrow> rrun faults hx mg iid pending m y es' z \<Longrightarrow>
     rrun faults hx mg iid pending m x (es @ es') z"
  by (induction rule: rrun.induct) (auto intro: rrun.intros)

definition stored :: "'e redis_world \<Rightarrow> database" where
  "stored w = db (rdb (rmgr w)) (renv w)"

text \<open>A Redis, contexts and a node as the relation has them: the node answers from \<open>pending\<close>.\<close>

definition answers :: "bool \<Rightarrow> 'e ctx \<Rightarrow> u64 set \<Rightarrow> 'e redis_nm \<Rightarrow> bool" where
  "answers faults ctx pending m \<longleftrightarrow>
     redis_laws faults (rdb m) \<and> quiet (rdb m) ctx (r_source m) \<and>
     (\<forall>f c a e n e'. r_source m = Some f \<longrightarrow> f c a e = Some (Ok n, e') \<longrightarrow> n \<in> pending)"

lemma on_env_OkE:
  assumes "on_env f w = Some (Ok x, w')"
  obtains e where "f (rmgr w) (renv w) = Some (Ok x, e)" and "w' = w\<lparr>renv := e\<rparr>"
  using assms by (auto simp: on_env_def split: option.splits prod.splits)

lemma on_env_run:
  assumes "on_env c w = Some (Ok x, w')" and "performs faults (db (rdb (rmgr w))) (c (rmgr w)) f"
  shows "(\<exists>e. w' = w\<lparr>renv := e\<rparr>) \<and> outcome faults f (stored w) (Some x) (stored w')"
proof -
  from assms(1) obtain e where e: "c (rmgr w) (renv w) = Some (Ok x, e)" and w': "w' = w\<lparr>renv := e\<rparr>"
    by (elim on_env_OkE)
  from assms(2) obtain r e' where "c (rmgr w) (renv w) = Some (r, e')"
    and "case r of Ok x \<Rightarrow> f (db (rdb (rmgr w)) (renv w)) = (x, db (rdb (rmgr w)) e')
      | Err _ \<Rightarrow> faults \<and> (db (rdb (rmgr w)) e' = db (rdb (rmgr w)) (renv w) \<or>
          db (rdb (rmgr w)) e' = snd (f (db (rdb (rmgr w)) (renv w)))) | Panic _ \<Rightarrow> False"
    unfolding performs_def by blast
  with e w' show ?thesis by (auto simp: stored_def outcome_def)
qed

lemma lock_round_run:
  assumes "answers faults ctx pending (rmgr w)" and "lock_round hx ctx w = Some (Ok got, w')"
  shows "(\<exists>e. w' = w\<lparr>renv := e\<rparr>) \<and>
    rrun faults hx (rmgr w) (instanceID (rmgr w)) pending m (stored w, D, Try) []
      (stored w', D, if got = None then Try else Read)"
proof -
  from assms(2) obtain b u where set: "on_env (\<lambda>m. SetNX (rdb m) (lockKey hx m) (instanceID m) (lockTTL m)) w = Some (Ok b, u)"
    and rest: "(if b then Some (Ok (Some ()), u)
      else (case ctx (OnTimer (pollInterval (rmgr u))) (renv u) of
              (Some e, v) \<Rightarrow> Some (Err e, u\<lparr>renv := v\<rparr>) | (None, v) \<Rightarrow> Some (Ok None, u\<lparr>renv := v\<rparr>))) = Some (Ok got, w')"
    unfolding lock_round_def by (auto simp: gfail_def elim!: chk_OkE)
  have "performs faults (db (rdb (rmgr w)))
      (SetNX (rdb (rmgr w)) (lockKey hx (rmgr w)) (instanceID (rmgr w)) (lockTTL (rmgr w)))
      (db_setnx (lockKey hx (rmgr w)) (instanceID (rmgr w)))" using assms(1) by (simp add: answers_def redis_laws_def)
  from on_env_run [OF set this] obtain e where u: "u = w\<lparr>renv := e\<rparr>"
    and out: "outcome faults (db_setnx (lockKey hx (rmgr w)) (instanceID (rmgr w))) (stored w) (Some b) (stored u)" by auto
  show ?thesis
  proof (cases b)
    case True
    with rest u out show ?thesis by (auto intro: rrun.quiet [OF rstep.lock_got rrun.stay])
  next
    case False
    with rest obtain v where v: "ctx (OnTimer (pollInterval (rmgr u))) (renv u) = (None, v)"
      and w': "w' = u\<lparr>renv := v\<rparr>" "got = None" by (auto split: prod.splits option.splits)
    from assms(1) u v have "stored w' = stored u" unfolding answers_def quiet_def stored_def w' by (metis redis_world.select_convs(1,3) redis_world.surjective redis_world.update_convs(3) snd_conv)
    with False u w' out show ?thesis
      by (auto intro: rrun.quiet [OF rstep.lock_taken rrun.quiet [OF rstep.poll_timer rrun.stay]])
  qed
qed


lemma answers_dirty [simp]: "answers faults ctx pending (m\<lparr>r_dirty := b\<rparr>) = answers faults ctx pending m"
  by (simp add: answers_def)

definition lock_run where
  "lock_run faults pending m D hx ctx w y \<longleftrightarrow>
     (answers faults ctx pending (rmgr w) \<longrightarrow> fst y = Ok () \<longrightarrow>
       (\<exists>e. snd y = w\<lparr>renv := e\<rparr>) \<and>
       rrun faults hx (rmgr w) (instanceID (rmgr w)) pending m (stored w, D, Try) [] (stored (snd y), D, Read))"

lemma acquireLock_run: "acquireLock hx ctx w = Some y \<Longrightarrow> lock_run faults pending m D hx ctx w y"
proof (rule acquireLock.raw_induct [of "lock_run faults pending m D"], goal_cases)
  case (1 lock hx ctx w y)
  from 1(3) obtain q u where round: "lock_round hx ctx w = Some (q, u)"
    and y: "(if q = Ok None then lock hx ctx u
      else Some (case q of Ok _ \<Rightarrow> (Ok (), u) | Err e \<Rightarrow> (Err e, u) | Panic p \<Rightarrow> (Panic p, u))) = Some y"
    by (cases "lock_round hx ctx w") (auto split: result.splits if_splits)
  show ?case unfolding lock_run_def
  proof (intro impI)
    assume ans: "answers faults ctx pending (rmgr w)" and ok: "fst y = Ok ()"
    with y obtain got where q: "q = Ok got" by (cases q) auto
    from lock_round_run [OF ans round [unfolded q]] obtain e where u: "u = w\<lparr>renv := e\<rparr>"
      and first: "rrun faults hx (rmgr w) (instanceID (rmgr w)) pending m (stored w, D, Try) []
        (stored u, D, if got = None then Try else Read)" by auto
    show "(\<exists>e. snd y = w\<lparr>renv := e\<rparr>) \<and>
       rrun faults hx (rmgr w) (instanceID (rmgr w)) pending m (stored w, D, Try) [] (stored (snd y), D, Read)"
    proof (cases got)
      case None
      with y q have "lock hx ctx u = Some y" by simp
      from 1(2) [OF this] ans ok u have "\<exists>e. snd y = u\<lparr>renv := e\<rparr>"
        and "rrun faults hx (rmgr w) (instanceID (rmgr w)) pending m (stored u, D, Try) [] (stored (snd y), D, Read)"
        by (auto simp: lock_run_def)
      with u None rrun_append [OF first] show ?thesis by auto
    next
      case Some
      with y q u first show ?thesis by auto
    qed
  qed
qed simp

lemma stored_renv: "stored (w\<lparr>renv := e\<rparr>) = db (rdb (rmgr w)) e"
  by (simp add: stored_def)

lemma set_counter_run:
  assumes "answers faults ctx pending (rmgr w)" and "set_counter hx fmt n w = Some (Ok x, w')"
  shows "(\<exists>e. w' = w\<lparr>renv := e\<rparr>) \<and>
    outcome faults (db_set (counterKey hx (rmgr w)) (FormatUint n)) (stored w) (Some ()) (stored w')"
proof -
  from assms(2) have set: "on_env (\<lambda>m. redis.Set (rdb m) (counterKey hx m) (FormatUint n)) w = Some (Ok (), w')"
    by (auto simp: set_counter_def gfail_def gret_def elim!: chk_OkE)
  show ?thesis by (rule on_env_run [OF set]) (use assms(1) in \<open>simp add: answers_def redis_laws_def\<close>)
qed

lemma fetch_run:
  assumes "answers faults ctx pending (rmgr w)" and "r_fetch_pending c w = Some (Ok n, w')"
  shows "(\<exists>e. w' = w\<lparr>renv := e\<rparr>) \<and> stored w' = stored w \<and> n \<in> pending"
proof -
  from assms(2) obtain f e where "r_source (rmgr w) = Some f" and "f c (r_address (rmgr w)) (renv w) = Some (Ok n, e)"
    and "w' = w\<lparr>renv := e\<rparr>"
    unfolding r_fetch_pending_def by (elim on_env_OkE) (auto split: option.splits)
  with assms(1) show ?thesis unfolding answers_def quiet_def by (intro conjI) (auto simp: stored_def, blast)
qed

lemma exists_run:
  assumes "answers faults ctx pending (rmgr w)" and "on_env (\<lambda>m. Exists (rdb m) (counterKey hx m)) w = Some (Ok k, w')"
  shows "(\<exists>e. w' = w\<lparr>renv := e\<rparr>) \<and> outcome faults (db_exists (counterKey hx (rmgr w))) (stored w) (Some k) (stored w')"
  by (rule on_env_run [OF assms(2)]) (use assms(1) in \<open>simp add: answers_def redis_laws_def\<close>)

lemma redis_get:
  assumes "redis_laws faults R"
  shows "\<exists>r e'. redis.Get R k e = Some (r, e') \<and> db R e' = db R e \<and>
        (case r of Ok v \<Rightarrow> db R e k = Some v | Err _ \<Rightarrow> faults \<or> db R e k = None | Panic _ \<Rightarrow> False)"
  using assms by (simp add: redis_laws_def)

lemma get_run:
  assumes "answers faults ctx pending (rmgr w)" and "on_env (\<lambda>m. redis.Get (rdb m) (counterKey hx m)) w = Some (Ok v, w')"
  shows "(\<exists>e. w' = w\<lparr>renv := e\<rparr>) \<and> stored w' = stored w \<and> stored w (counterKey hx (rmgr w)) = Some v"
proof -
  from assms(2) obtain e where "redis.Get (rdb (rmgr w)) (counterKey hx (rmgr w)) (renv w) = Some (Ok v, e)"
    and "w' = w\<lparr>renv := e\<rparr>" by (elim on_env_OkE)
  moreover from assms(1) have "redis_laws faults (rdb (rmgr w))" by (simp add: answers_def)
  note redis_get [OF this, of "counterKey hx (rmgr w)" "renv w"]
  ultimately show ?thesis by (auto simp: stored_def)
qed


lemma nextNonce_dirty_run:
  assumes ans: "answers faults ctx pending (rmgr w)" and run: "nextNonce hx ctx w = Some (Ok n, w')"
    and D: "D m = r_dirty (rmgr w)" and True: "r_dirty (rmgr w)"
  shows "(\<exists>e. w' = w\<lparr>rmgr := (rmgr w)\<lparr>r_dirty := False\<rparr>, renv := e\<rparr>) \<and>
    rrun faults hx (rmgr w) (instanceID (rmgr w)) pending m (stored w, D, Read) [Handed m n]
      (stored w', D(m := False), Hold n)"
proof -
  from True run obtain v u x where timer: "ctx (OnTimer (r_staleNonceDelay (rmgr w))) (renv w) = (None, v)"
    and fetch: "r_fetch_pending ctx (w\<lparr>renv := v\<rparr>) = Some (Ok n, u)"
    and set: "set_counter hx ''redis counter reseed failed: %w'' (n + 1) u = Some (Ok (), x)"
    and w': "w' = x\<lparr>rmgr := (rmgr x)\<lparr>r_dirty := False\<rparr>\<rparr>"
    by (auto simp: nextNonce_def gfail_def elim!: chk_OkE split: prod.splits option.splits)
  from ans timer have "db (rdb (rmgr w)) v = db (rdb (rmgr w)) (renv w)"
    unfolding answers_def quiet_def by (metis snd_conv)
  then have v: "stored (w\<lparr>renv := v\<rparr>) = stored w" by (simp add: stored_def)
  have "answers faults ctx pending (rmgr (w\<lparr>renv := v\<rparr>))" using ans by simp
  from fetch_run [OF this fetch] v obtain e where u: "u = w\<lparr>renv := e\<rparr>" "stored u = stored w" and n: "n \<in> pending" by auto
  with ans have "answers faults ctx pending (rmgr u)" by simp
  from set_counter_run [OF this set] u obtain e' where x: "x = w\<lparr>renv := e'\<rparr>"
    and out: "outcome faults (db_set (counterKey hx (rmgr w)) (FormatUint (n + 1))) (stored w) (Some ()) (stored x)" by auto
  have "stored w' = stored x" by (simp add: w' stored_def)
  with out have "rrun faults hx (rmgr w) (instanceID (rmgr w)) pending m (stored w, D, DirtySet n) [Handed m n]
      (stored w', D(m := False), Hold n)"
    by (auto intro: rrun.quiet [OF rstep.dirty_set rrun.loud [OF rstep.dirty_clear _ rrun.stay]])
  from rrun.quiet [OF rstep.read_dirty rrun.quiet [OF rstep.wait_timer rrun.quiet [OF rstep.dirty_fetched [OF n] this]]]
  show ?thesis using True D w' x by (intro conjI exI [of _ e']) simp_all
qed

lemma undirty: "\<not> r_dirty (rmgr w) \<Longrightarrow> w\<lparr>rmgr := (rmgr w)\<lparr>r_dirty := False\<rparr>, renv := e\<rparr> = w\<lparr>renv := e\<rparr>"
  by (cases w; cases "rmgr w") simp

lemma nextNonce_cleanE:
  assumes "nextNonce hx ctx w = Some (Ok n, w')" and "\<not> r_dirty (rmgr w)"
  obtains (seed) u x where "on_env (\<lambda>m. Exists (rdb m) (counterKey hx m)) w = Some (Ok 0, u)"
      and "r_fetch_pending ctx u = Some (Ok n, x)" and "set_counter hx ''redis counter seed failed: %w'' (n + 1) x = Some (Ok (), w')"
  | (increment) k u val x where "on_env (\<lambda>m. Exists (rdb m) (counterKey hx m)) w = Some (Ok (Suc k), u)"
      and "on_env (\<lambda>m. redis.Get (rdb m) (counterKey hx m)) u = Some (Ok val, x)" and "ParseUint val = Ok n"
      and "set_counter hx ''redis counter increment failed: %w'' (n + 1) x = Some (Ok (), w')"
proof -
  from assms obtain k u where ex: "on_env (\<lambda>m. Exists (rdb m) (counterKey hx m)) w = Some (Ok k, u)"
    and rest: "(if k = 0 then
                 chk (r_fetch_pending ctx) (\<lambda>e. gfail (wrapf ''chain nonce seed failed: %w'' e))
                   (\<lambda>n. chk (set_counter hx ''redis counter seed failed: %w'' (n + 1)) gfail (\<lambda>_. gret n))
               else
                 chk (on_env (\<lambda>m. redis.Get (rdb m) (counterKey hx m))) (\<lambda>e. gfail (wrapf ''redis GET error: %w'' e))
                   (\<lambda>val. case ParseUint val of
                      Err e \<Rightarrow> gfail (wrapf ''redis counter parse error: %w'' e)
                    | Panic p \<Rightarrow> (\<lambda>w. Some (Panic p, w))
                    | Ok current \<Rightarrow>
                        chk (set_counter hx ''redis counter increment failed: %w'' (current + 1)) gfail
                          (\<lambda>_. gret current))) u = Some (Ok n, w')"
    unfolding nextNonce_def by (auto simp: gfail_def elim!: chk_OkE)
  show ?thesis
  proof (cases k)
    case 0
    with rest ex seed show ?thesis by (auto simp: gfail_def gret_def elim!: chk_OkE)
  next
    case (Suc k')
    with rest obtain val x where "on_env (\<lambda>m. redis.Get (rdb m) (counterKey hx m)) u = Some (Ok val, x)" and "ParseUint val = Ok n"
      and "set_counter hx ''redis counter increment failed: %w'' (n + 1) x = Some (Ok (), w')"
      by (auto simp: gfail_def gret_def elim!: chk_OkE split: result.splits)
    with increment ex Suc show ?thesis by blast
  qed
qed

lemma nextNonce_clean_run:
  assumes ans: "answers faults ctx pending (rmgr w)" and run: "nextNonce hx ctx w = Some (Ok n, w')"
    and D: "D m = r_dirty (rmgr w)" and clean: "\<not> r_dirty (rmgr w)"
  shows "(\<exists>e. w' = w\<lparr>rmgr := (rmgr w)\<lparr>r_dirty := False\<rparr>, renv := e\<rparr>) \<and>
    rrun faults hx (rmgr w) (instanceID (rmgr w)) pending m (stored w, D, Read) [Handed m n]
      (stored w', D(m := False), Hold n)"
proof -
  have look: "(\<exists>e. u = w\<lparr>renv := e\<rparr>) \<and> stored u = stored w \<and> outcome faults (db_exists (counterKey hx (rmgr w))) (stored w) (Some k) (stored w)"
    if "on_env (\<lambda>m. Exists (rdb m) (counterKey hx m)) w = Some (Ok k, u)" for k u
    using exists_run [OF ans that] by (auto simp: outcome_def db_exists_def)
  have D': "D(m := False) = D" and read: "rstep faults hx (rmgr w) (instanceID (rmgr w)) pending m (stored w, D, Read) Silent (stored w, D, Look)"
    using clean D by (auto simp: fun_upd_idem_iff intro: rstep.read_clean)
  from run clean show ?thesis
  proof (cases rule: nextNonce_cleanE)
    case (seed u x)
    from look [OF seed(1)] obtain e where u: "u = w\<lparr>renv := e\<rparr>" "stored u = stored w" by blast
    with ans have "answers faults ctx pending (rmgr u)" by simp
    from fetch_run [OF this seed(2)] u obtain e' where x: "x = w\<lparr>renv := e'\<rparr>" "stored x = stored w" and n: "n \<in> pending" by auto
    with ans have "answers faults ctx pending (rmgr x)" by simp
    from set_counter_run [OF this seed(3)] x obtain e2 where w': "w' = w\<lparr>renv := e2\<rparr>"
      and out: "outcome faults (db_set (counterKey hx (rmgr w)) (FormatUint (n + 1))) (stored w) (Some ()) (stored w')" by auto
    from rrun.loud [OF rstep.seed_set [OF out] _ rrun.stay]
    have "rrun faults hx (rmgr w) (instanceID (rmgr w)) pending m (stored w, D, SeedSet n) [Handed m n] (stored w', D, Hold n)" by simp
    from rrun.quiet [OF read rrun.quiet [OF rstep.look_missing rrun.quiet [OF rstep.seed_fetched [OF n] this]]] look [OF seed(1)]
    show ?thesis using D' w' undirty [OF clean] by auto
  next
    case (increment k u val x)
    from look [OF increment(1)] obtain e where u: "u = w\<lparr>renv := e\<rparr>" "stored u = stored w" by blast
    with ans have "answers faults ctx pending (rmgr u)" by simp
    from get_run [OF this increment(2)] u obtain e' where x: "x = w\<lparr>renv := e'\<rparr>" "stored x = stored w"
      and val: "stored w (counterKey hx (rmgr w)) = Some val" by auto
    with ans have "answers faults ctx pending (rmgr x)" by simp
    from set_counter_run [OF this increment(4)] x obtain e2 where w': "w' = w\<lparr>renv := e2\<rparr>"
      and out: "outcome faults (db_set (counterKey hx (rmgr w)) (FormatUint (n + 1))) (stored w) (Some ()) (stored w')" by auto
    from rrun.loud [OF rstep.inc_set [OF out] _ rrun.stay]
    have "rrun faults hx (rmgr w) (instanceID (rmgr w)) pending m (stored w, D, IncSet n) [Handed m n] (stored w', D, Hold n)" by simp
    from rrun.quiet [OF read rrun.quiet [OF rstep.look_found rrun.quiet [OF rstep.get_ok [where d = "stored w", OF val increment(3)] this]]] look [OF increment(1)]
    show ?thesis using D' w' undirty [OF clean] by auto
  qed
qed

lemma redis_nextNonce_run:
  assumes ans: "answers faults ctx pending (rmgr w)" and run: "nextNonce hx ctx w = Some (Ok n, w')"
    and D: "D m = r_dirty (rmgr w)"
  shows "(\<exists>e. w' = w\<lparr>rmgr := (rmgr w)\<lparr>r_dirty := False\<rparr>, renv := e\<rparr>) \<and>
    rrun faults hx (rmgr w) (instanceID (rmgr w)) pending m (stored w, D, Read) [Handed m n]
      (stored w', D(m := False), Hold n)"
  using nextNonce_dirty_run [where D = D, OF assms] nextNonce_clean_run [where D = D, OF assms] by blast

lemma release_is_run:
  assumes "answers faults ctx pending (rmgr w)"
  shows "\<exists>e. ignore (releaseLock hx) w = Some (Ok (), w\<lparr>renv := e\<rparr>) \<and>
    (\<exists>r. outcome faults (releaseLockScript (lockKey hx (rmgr w)) (instanceID (rmgr w))) (stored w) r
      (db (rdb (rmgr w)) e))"
proof -
  let ?f = "releaseLockScript (lockKey hx (rmgr w)) (instanceID (rmgr w))"
  from assms have "performs faults (db (rdb (rmgr w))) (Eval (rdb (rmgr w)) ?f) ?f"
    by (simp add: answers_def redis_laws_def)
  then obtain r e where run: "Eval (rdb (rmgr w)) ?f (renv w) = Some (r, e)"
    and out: "case r of Ok x \<Rightarrow> ?f (db (rdb (rmgr w)) (renv w)) = (x, db (rdb (rmgr w)) e)
      | Err _ \<Rightarrow> faults \<and> (db (rdb (rmgr w)) e = db (rdb (rmgr w)) (renv w) \<or>
          db (rdb (rmgr w)) e = snd (?f (db (rdb (rmgr w)) (renv w)))) | Panic _ \<Rightarrow> False"
    unfolding performs_def by blast
  show ?thesis
  proof (cases r)
    case (Ok x)
    with run out show ?thesis
      by (intro exI [of _ e] conjI exI [of _ "Some x"])
        (auto simp: ignore_def releaseLock_def chk_def on_env_def gret_def gfail_def outcome_def stored_def)
  next
    case (Err x)
    with run out show ?thesis
      by (intro exI [of _ e] conjI exI [of _ None])
        (auto simp: ignore_def releaseLock_def chk_def on_env_def gret_def gfail_def outcome_def stored_def)
  next
    case (Panic p)
    with out show ?thesis by simp
  qed
qed

lemma decr_is_run:
  assumes "answers faults ctx pending (rmgr w)"
  shows "\<exists>e. ignore (on_env (\<lambda>m. Decr (rdb m) (counterKey hx m))) w = Some (Ok (), w\<lparr>renv := e\<rparr>) \<and>
    decr_outcome faults (counterKey hx (rmgr w)) (stored w) (db (rdb (rmgr w)) e)"
proof -
  let ?R = "rdb (rmgr w)" and ?k = "counterKey hx (rmgr w)"
  from assms have "\<exists>r e'. Decr ?R ?k (renv w) = Some (r, e') \<and>
        (case r of
           Ok i \<Rightarrow> db_decr ?k (db ?R (renv w)) = Some (i, db ?R e')
         | Err _ \<Rightarrow> db_decr ?k (db ?R (renv w)) = None \<and> db ?R e' = db ?R (renv w) \<or>
             faults \<and> (db ?R e' = db ?R (renv w) \<or> db_decr ?k (db ?R (renv w)) \<noteq> None \<and>
               db ?R e' = snd (the (db_decr ?k (db ?R (renv w)))))
         | Panic _ \<Rightarrow> False)" by (simp add: answers_def redis_laws_def)
  then obtain r e where "Decr ?R ?k (renv w) = Some (r, e)" and "case r of
           Ok i \<Rightarrow> db_decr ?k (db ?R (renv w)) = Some (i, db ?R e)
         | Err _ \<Rightarrow> db_decr ?k (db ?R (renv w)) = None \<and> db ?R e = db ?R (renv w) \<or>
             faults \<and> (db ?R e = db ?R (renv w) \<or> db_decr ?k (db ?R (renv w)) \<noteq> None \<and>
               db ?R e = snd (the (db_decr ?k (db ?R (renv w)))))
         | Panic _ \<Rightarrow> False" by blast
  then show ?thesis
    by (intro exI [of _ e], cases r)
      (auto simp: ignore_def chk_def on_env_def gret_def decr_outcome_def stored_def split: option.splits)
qed


lemma redis_Acquire_run:
  assumes ans: "answers faults ctx pending (rmgr w)" and run: "Acquire hx ctx w = Some (Ok (n, s), w')"
    and D: "D m = r_dirty (rmgr w)"
  shows "rrun faults hx (rmgr w) (instanceID (rmgr w)) pending m (stored w, D, Out) [Handed m n]
      (stored w', D(m := False), Hold n) \<and>
    rmgr w' = (rmgr w)\<lparr>r_dirty := False\<rparr> \<and> \<not> rslots w' ! s"
proof -
  from run obtain u v where lock: "acquireLock hx ctx w = Some (Ok (), u)"
    and nn: "nextNonce hx ctx u = Some (Ok n, v)" and w': "w' = v\<lparr>rslots := rslots v @ [False]\<rparr>" "s = length (rslots v)"
    by (auto simp: Acquire_def chk_def gfail_def split: option.splits prod.splits result.splits if_splits)
  from acquireLock_run [OF lock, of faults pending m D] ans obtain e where u: "u = w\<lparr>renv := e\<rparr>"
    and locked: "rrun faults hx (rmgr w) (instanceID (rmgr w)) pending m (stored w, D, Try) [] (stored u, D, Read)"
    by (auto simp: lock_run_def)
  from u ans D have "answers faults ctx pending (rmgr u)" "D m = r_dirty (rmgr u)" by simp_all
  from redis_nextNonce_run [where D = D and m = m, OF this(1) nn this(2)] u obtain e' where v: "v = w\<lparr>rmgr := (rmgr w)\<lparr>r_dirty := False\<rparr>, renv := e'\<rparr>"
    and next_run: "rrun faults hx (rmgr w) (instanceID (rmgr w)) pending m (stored u, D, Read) [Handed m n]
      (stored v, D(m := False), Hold n)" by auto
  from w' v have "stored w' = stored v" "rmgr w' = (rmgr w)\<lparr>r_dirty := False\<rparr>" "\<not> rslots w' ! s" by (simp_all add: stored_def)
  with rrun.quiet [OF rstep.call rrun_append [OF locked next_run]] show ?thesis by simp
qed

lemma redis_slot_run:
  assumes ans: "answers faults ctx pending (rmgr w)" and open_slot: "\<not> rslots w ! s" and D: "D m = r_dirty (rmgr w)"
  shows "\<exists>w'. slot_resolve hx r s w = Some (Ok (), w') \<and>
    rrun faults hx (rmgr w) (instanceID (rmgr w)) pending m (stored w, D, Hold n) [Done m r]
      (stored w', D(m := r_dirty (rmgr w')), Out)"
proof -
  have same: "D(m := r_dirty (rmgr w)) = D" using D by (simp add: fun_upd_idem_iff)
  let ?w = "w\<lparr>rslots := (rslots w)[s := True]\<rparr>"
  have st: "stored ?w = stored w" by (simp add: stored_def)
  show ?thesis
  proof (cases r)
    case Commit
    from release_is_run [of faults ctx pending ?w hx] ans st obtain e q where
      "ignore (releaseLock hx) ?w = Some (Ok (), ?w\<lparr>renv := e\<rparr>)"
      and "outcome faults (releaseLockScript (lockKey hx (rmgr w)) (instanceID (rmgr w))) (stored w) q (db (rdb (rmgr w)) e)" by auto
    with Commit open_slot same rrun.loud [OF rstep.commit _ rrun.quiet [OF rstep.release rrun.stay]] show ?thesis
      by (intro exI [of _ "?w\<lparr>renv := e\<rparr>"]) (simp add: slot_Commit_def stored_def)
  next
    case Reuse
    from decr_is_run [of faults ctx pending ?w hx] ans st obtain e0 where
      decr: "ignore (on_env (\<lambda>m. Decr (rdb m) (counterKey hx m))) ?w = Some (Ok (), ?w\<lparr>renv := e0\<rparr>)"
      and dec: "decr_outcome faults (counterKey hx (rmgr w)) (stored w) (db (rdb (rmgr w)) e0)" by auto
    from release_is_run [of faults ctx pending "?w\<lparr>renv := e0\<rparr>" hx] ans obtain e q where
      "ignore (releaseLock hx) (?w\<lparr>renv := e0\<rparr>) = Some (Ok (), ?w\<lparr>renv := e\<rparr>)"
      and "outcome faults (releaseLockScript (lockKey hx (rmgr w)) (instanceID (rmgr w))) (db (rdb (rmgr w)) e0) q (db (rdb (rmgr w)) e)"
      by (auto simp: stored_def)
    with Reuse open_slot same decr
      rrun.quiet [OF rstep.reuse rrun.loud [OF rstep.decrement [OF dec] _ rrun.quiet [OF rstep.release rrun.stay]]]
    show ?thesis by (intro exI [of _ "?w\<lparr>renv := e\<rparr>"]) (simp add: slot_Reuse_def stored_def chk_def)
  next
    case Reclaim
    let ?v = "?w\<lparr>rmgr := (rmgr w)\<lparr>r_dirty := True\<rparr>\<rparr>"
    from release_is_run [of faults ctx pending ?v hx] ans obtain e q where
      "ignore (releaseLock hx) ?v = Some (Ok (), ?v\<lparr>renv := e\<rparr>)"
      and "outcome faults (releaseLockScript (lockKey hx (rmgr w)) (instanceID (rmgr w))) (stored w) q (db (rdb (rmgr w)) e)"
      by (auto simp: stored_def)
    with Reclaim open_slot rrun.loud [OF rstep.reclaim _ rrun.quiet [OF rstep.release rrun.stay]] show ?thesis
      by (intro exI [of _ "?v\<lparr>renv := e\<rparr>"]) (simp add: slot_Reclaim_def stored_def)
  qed
qed


section \<open>A whole cycle\<close>

lemma rrun_keys:
  assumes "rrun faults hx mg iid pending m x es y"
    and keys: "lockKey hx mg = lockKey hx mg'" "counterKey hx mg = counterKey hx mg'"
  shows "rrun faults hx mg' iid pending m x es y"
proof -
  have step: "rstep faults hx mg' iid pending m x e y" if "rstep faults hx mg iid pending m x e y" for x e y
    using that by (induction rule: rstep.induct) (simp_all add: keys rstep.intros)
  show ?thesis using assms(1) by (induction rule: rrun.induct) (auto intro: rrun.intros step)
qed

text \<open>
  C28: the handlers and the interleaving relation agree. A call of \<open>Acquire\<close> that returns nonce \<open>n\<close>,
  followed by one of the slot's methods, is a run of one goroutine that starts and ends outside,
  hands out \<open>n\<close> and resolves the slot, with the same database and dirty flag, whether or not
  commands fail; the slot method always returns.
\<close>

theorem redis_cycle_is_run:
  assumes "answers faults ctx pending (rmgr w)" and "Acquire hx ctx w = Some (Ok (n, s), v)"
    and "D m = r_dirty (rmgr w)"
  shows "\<exists>w'. slot_resolve hx r s v = Some (Ok (), w') \<and>
    rrun faults hx (rmgr w) (instanceID (rmgr w)) pending m (stored w, D, Out) [Handed m n, Done m r]
      (stored w', D(m := r_dirty (rmgr w')), Out)"
proof -
  from redis_Acquire_run [where D = D and m = m, OF assms] have v: "rmgr v = (rmgr w)\<lparr>r_dirty := False\<rparr>"
    and slot: "\<not> rslots v ! s"
    and acquired: "rrun faults hx (rmgr w) (instanceID (rmgr w)) pending m (stored w, D, Out) [Handed m n]
      (stored v, D(m := False), Hold n)" by auto
  from assms(1) v have "answers faults ctx pending (rmgr v)" by simp
  from redis_slot_run [where D = "D(m := False)" and m = m and r = r and hx = hx, OF this slot] v
  obtain w' where w': "slot_resolve hx r s v = Some (Ok (), w')"
    and "rrun faults hx (rmgr v) (instanceID (rmgr v)) pending m (stored v, D(m := False), Hold n) [Done m r]
      (stored w', D(m := r_dirty (rmgr w')), Out)" by auto
  with v have "rrun faults hx (rmgr w) (instanceID (rmgr w)) pending m (stored v, D(m := False), Hold n) [Done m r]
      (stored w', D(m := r_dirty (rmgr w')), Out)" by (auto elim: rrun_keys)
  from rrun_append [OF acquired this] w' show ?thesis by auto
qed

lemma demo_answers: "answers False demo_ctx UNIV (rmgr demo_redis_world)"
  using demo_redis_laws demo_quiet by (simp add: answers_def demo_redis_world_def demo_manager_def)

lemma demo_acquires: "\<exists>s v. Acquire demo_hx demo_ctx demo_redis_world = Some (Ok (5, s), v)"
  by (simp add: demo_redis_world_def demo_manager_def demo_redis_def demo_hx_def demo_ctx_def demo_source_def command_def
      Acquire_def acquireLock_round lock_round_def on_env_def chk_def gret_def gfail_def db_setnx_def db_set_def
      db_exists_def lockKey_def counterKey_def nextNonce_def set_counter_def r_fetch_pending_def)

theorem redis_cycle_is_run_witness:
  "\<exists>w' :: demo_env redis_world. rrun False demo_hx (rmgr demo_redis_world) (instanceID (rmgr demo_redis_world)) UNIV 0
     (stored demo_redis_world, \<lambda>_. False, Out) [Handed 0 5, Done 0 Reclaim]
     (stored w', (\<lambda>_. False)(0 := r_dirty (rmgr w')), Out)"
proof -
  from demo_acquires obtain s v where "Acquire demo_hx demo_ctx demo_redis_world = Some (Ok (5, s), v)" by blast
  then have acq: "Acquire demo_hx demo_ctx demo_redis_world = Some (Ok (5, s), v)" .
  have clean: "(\<lambda>_::nat. False) 0 = r_dirty (rmgr demo_redis_world)"
    by (simp add: demo_redis_world_def demo_manager_def)
  from redis_cycle_is_run [where D = "\<lambda>_. False" and m = 0 and r = Reclaim, OF demo_answers acq clean]
  obtain w' :: "demo_env redis_world" where "rrun False demo_hx (rmgr demo_redis_world) (instanceID (rmgr demo_redis_world)) UNIV 0
     (stored demo_redis_world, \<lambda>_. False, Out) [Handed 0 5, Done 0 Reclaim]
     (stored w', (\<lambda>_. False)(0 := r_dirty (rmgr w')), Out)" by blast
  then show ?thesis ..
qed

end
