(* ===== verification/RedisSenders.thy ===== *)
theory RedisSenders
  imports Senders RedisRun
begin

text \<open>
  Processes that share an account on one Redis, each with clients whose goroutines call \<open>Submit\<close>: each
  call is a run of the senders on the workers of \<open>RedisConc\<close>, and the node receives consecutive nonces
  while it accepts the transactions and no lock expires.
\<close>

section \<open>The workers as a slot machine\<close>

text \<open>Events without the manager they belong to.\<close>

fun plain :: "revent \<Rightarrow> event" where
  "plain Silent = Tau"
| "plain (Handed m n) = Hand n"
| "plain (Done m r) = Resolved r"

definition worker_step ::
  "(address \<Rightarrow> string) \<Rightarrow> 'e redis_nm \<Rightarrow> (nat \<Rightarrow> string) \<Rightarrow> (nat \<Rightarrow> nat) \<Rightarrow> u64 set \<Rightarrow> cluster \<Rightarrow> event \<Rightarrow> cluster \<Rightarrow> bool" where
  "worker_step hx mg ids own pending s e s' \<longleftrightarrow> (\<exists>e'. cstep False False hx mg ids own pending s e' s' \<and> plain e' = e)"

lemma plain_visible: "visible (plain e) = map plain (if e = Silent then [] else [e])"
  by (cases e) (auto simp: visible_def)

lemma crun_runs: "crun False False hx mg ids own pending s es s' \<Longrightarrow> runs (worker_step hx mg ids own pending) s (map plain es) s'"
proof (induction rule: crun.induct)
  case (move s es s' e s'')
  then have "worker_step hx mg ids own pending s' (plain e) s''" by (auto simp: worker_step_def)
  from runs.there [OF move.IH this] show ?case by (simp add: plain_visible split: if_splits)
qed (simp add: runs.here)

lemma runs_crun:
  "runs (worker_step hx mg ids own pending) s es s' \<Longrightarrow> \<exists>fs. crun False False hx mg ids own pending s fs s' \<and> es = map plain fs"
proof (induction rule: runs.induct)
  case (there s es s' e s'')
  then obtain fs f where fs: "crun False False hx mg ids own pending s fs s'" "es = map plain fs"
    and f: "cstep False False hx mg ids own pending s' f s''" "e = plain f" by (auto simp: worker_step_def)
  from crun.move [OF fs(1) f(1)] fs(2) f(2) show ?case
    by (intro exI [of _ "if f = Silent then fs else fs @ [f]"]) (simp add: plain_visible)
qed (auto intro: crun.halt)

fun as_counter :: "u64 option \<Rightarrow> counter" where
  "as_counter None = Fetch"
| "as_counter (Some n) = Next n"

text \<open>Without a failed broadcast the shared counter is the counter of the contract.\<close>

lemma shared_run_spec:
  "shared_run pending (k, \<lambda>_. False, h) es = Some a \<Longrightarrow> Resolved Reclaim \<notin> set (map plain es) \<Longrightarrow>
    (\<forall>m n. h = Some (m, n) \<longrightarrow> k = Some (n + 1)) \<Longrightarrow>
    spec_after (case h of None \<Rightarrow> Free (as_counter k) | Some (m, n) \<Rightarrow> Held n) (map plain es) \<noteq> None"
proof (induction es arbitrary: k h)
  case (Cons e es)
  show ?case
  proof (cases h)
    case None
    with Cons.prems obtain m n where e: "e = Handed m n" and adm: "admits (as_counter k) n"
      and run: "shared_run pending (Some (n + 1), \<lambda>_. False, Some (m, n)) es = Some a"
      by (cases e; cases k) (auto simp: fun_upd_idem split: if_splits)
    from Cons.IH [OF run] Cons.prems(2) e adm None show ?thesis by simp
  next
    case (Some mn)
    with Cons.prems obtain m n r where h: "h = Some (m, n)" and k: "k = Some (n + 1)" and e: "e = Done m r" and r: "r \<noteq> Reclaim"
      and run: "shared_run pending (if r = Reuse then Some n else k, \<lambda>_. False, None) es = Some a"
      by (cases e; cases mn) (auto split: if_splits)
    from Cons.IH [OF run] Cons.prems(2) e h k r show ?thesis by (cases r) simp_all
  qed
qed simp

definition workers_begin :: "(address \<Rightarrow> string) \<Rightarrow> 'e redis_nm \<Rightarrow> cluster \<Rightarrow> counter \<Rightarrow> bool" where
  "workers_begin hx mg s c \<longleftrightarrow> (\<exists>d k. s = all_out d \<and> d (counterKey hx mg) = map_option FormatUint k \<and> c = as_counter k)"

interpretation redis_machine: slot_machine "worker_step hx mg ids own pending" "workers_begin hx mg"
    "\<lambda>e. e \<noteq> Resolved Reclaim \<and> (\<forall>n. e = Hand n \<longrightarrow> decr_supported n)" for hx mg ids own pending
proof unfold_locales
  fix s c es s'
  assume "workers_begin hx mg s c" and run: "runs (worker_step hx mg ids own pending) s es s'"
    and legal: "\<forall>e \<in> set es. e \<noteq> Resolved Reclaim \<and> (\<forall>n. e = Hand n \<longrightarrow> decr_supported n)"
  then obtain d k where s: "s = all_out d" and d: "d (counterKey hx mg) = map_option FormatUint k" and c: "c = as_counter k"
    by (auto simp: workers_begin_def)
  from runs_crun [OF run] obtain fs where fs: "crun False False hx mg ids own pending (all_out d) fs s'" and es: "es = map plain fs"
    by (auto simp: s)
  from legal es have "\<forall>m n. Handed m n \<in> set fs \<longrightarrow> decr_supported n" by force
  from crun_follows [OF fs exclusive_all_out follows_all_out [where d = d, OF d] this] obtain a
    where "shared_run pending (k, \<lambda>_. False, None) fs = Some a" by blast
  moreover from legal es have "Resolved Reclaim \<notin> set (map plain fs)" by blast
  ultimately show "spec_after (Free c) es \<noteq> None" using shared_run_spec [of pending k None fs a] es c by simp
qed

section \<open>One use of a slot by one goroutine\<close>

lemma rrun_worker:
  assumes "rrun False hx mg (ids (own t)) pending (own t) (d, D, P t) es (d', D', pc)"
  shows "runs (worker_step hx mg ids own pending) (d, D, P) (map plain es) (d', D', P(t := pc))"
  by (rule crun_runs [OF rrun_crun [where ids = ids and own = own and t = t and P = P, OF assms refl]])

text \<open>What runs between \<open>Acquire\<close> and the slot method leaves the manager and the database alone.\<close>

definition apart :: "('e redis_world, 'a) prog \<Rightarrow> bool" where
  "apart m \<longleftrightarrow> (\<forall>w r w'. m w = Some (r, w') \<longrightarrow> rmgr w' = rmgr w \<and> rslots w' = rslots w \<and> stored w' = stored w)"

lemma apartD: "apart m \<Longrightarrow> m w = Some (r, w') \<Longrightarrow> rmgr w' = rmgr w \<and> rslots w' = rslots w \<and> stored w' = stored w"
  unfolding apart_def by blast

lemma apart_unit: "apart (gret x)" "apart (gfail e)" "apart (reads f)"
  by (simp_all add: apart_def gret_def gfail_def reads_def)

lemma apart_if: "apart p \<Longrightarrow> apart q \<Longrightarrow> apart (if b then p else q)"
  by simp

lemma apart_chk:
  assumes m: "apart m" and h: "\<And>e. apart (h e)" and k: "\<And>x. apart (k x)"
  shows "apart (chk m h k)"
  unfolding apart_def by (intro allI impI, erule chk_runE) (metis apartD [OF m] apartD [OF k], metis apartD [OF m] apartD [OF h], metis apartD [OF m])

definition apart_tm :: "('e redis_world, 's, 'ctx) TxManager \<Rightarrow> bool" where
  "apart_tm t \<longleftrightarrow>
     (\<forall>ctx a. apart (CodeAt (client t) ctx a)) \<and> (\<forall>ctx m. apart (EstimateGas (client t) ctx m)) \<and>
     (\<forall>ctx. apart (SuggestGasTipCap (client t) ctx)) \<and>
     (\<forall>ctx. apart (SuggestGasPrice (client t) ctx)) \<and> (\<forall>ctx. apart (HeaderByNumber (client t) ctx)) \<and>
     (\<forall>ctx tx. apart (SendTransaction (client t) ctx tx)) \<and>
     (\<forall>ctx tx i. apart (SignTx (tm_signer t) ctx tx i))"

lemma apart_prepare: "apart_tm t \<Longrightarrow> apart (prepare_tx impl t ctx i opts f d p n)"
  unfolding apart_tm_def prepare_tx_def already_deployed_def IsDeployed_def estimateGas_def suggestGasTipCap_def suggestGasPrice_def
  by (intro apart_chk apart_if apart_unit) simp_all

lemma prepared_nonce:
  assumes "signs_payload (tm_signer t)" and "prepare_tx impl t ctx i opts f d p n w = Some (Ok x, w')"
  shows "Nonce (payload x) = n"
proof -
  have "SignTx (tm_signer t) ctx tx i v = Some (Ok y, v') \<Longrightarrow> payload y = for_chain i tx" for tx v y v'
    using assms(1) unfolding signs_payload_def by blast
  with assms(2) show ?thesis by (auto simp: prepare_tx_def gfail_def dest!: chk_Ok split: if_splits)
qed

lemma redis_use_runs:
  assumes ans: "answers False ctx pending (rmgr w)" and acq: "RedisNonce.Acquire hx ctx w = Some (Ok (n, k), v)"
    and P: "P t = Out" "ids (own t) = instanceID (rmgr w)" "D (own t) = r_dirty (rmgr w)"
    and u: "rmgr u = rmgr v" "rslots u = rslots v" "stored u = stored v"
    and res: "slot_resolve hx p k u = Some (q, w')" and tx: "p \<noteq> Reuse \<longrightarrow> Nonce (payload tx) = n"
  shows "q = Ok () \<and> runs (sstep (worker_step hx (rmgr w) ids own pending)) ((stored w, D, P), F, l) [Hand n, Resolved p]
    ((stored w', D(own t := r_dirty (rmgr w')), P), F, l @ wire_of p tx)"
proof -
  from redis_Acquire_run [where D = D and m = "own t", OF ans acq P(3)]
  have hand: "rrun False hx (rmgr w) (ids (own t)) pending (own t) (stored w, D, P t) [Handed (own t) n]
      (stored v, D(own t := False), Hold n)" and v: "rmgr v = (rmgr w)\<lparr>r_dirty := False\<rparr>" "\<not> rslots v ! k" by (auto simp: P)
  from ans v u have ansu: "answers False ctx pending (rmgr u)" "\<not> rslots u ! k" by simp_all
  from redis_slot_run [where D = "D(own t := False)" and m = "own t" and r = p and hx = hx and n = n, OF ansu] u v res
  have q: "q = Ok ()" and "rrun False hx (rmgr u) (instanceID (rmgr u)) pending (own t) (stored v, D(own t := False), Hold n) [Done (own t) p]
      (stored w', D(own t := r_dirty (rmgr w')), Out)" by auto
  then have "rrun False hx (rmgr w) (ids (own t)) pending (own t) (stored v, D(own t := False), (P(t := Hold n)) t) [Done (own t) p]
      (stored w', D(own t := r_dirty (rmgr w')), Out)" using u v P(2) by (auto elim: rrun_keys)
  from rrun_worker [where ids = ids and own = own and t = t and P = "P(t := Hold n)", OF this] P(1)
  have "runs (worker_step hx (rmgr w) ids own pending) (stored v, D(own t := False), P(t := Hold n)) [Resolved p]
      (stored w', D(own t := r_dirty (rmgr w')), P)" by (simp add: fun_upd_idem)
  with runs_use [OF _ runs.here this tx] rrun_worker [where ids = ids and own = own and t = t and P = P, OF hand] q show ?thesis by simp
qed

section \<open>Submit on the Redis manager\<close>

definition redis_manager :: "(address \<Rightarrow> string) \<Rightarrow> ('e redis_world, nat, 'e ctx) manager" where
  "redis_manager hx =
     \<lparr>nm_Acquire = RedisNonce.Acquire hx, nm_Reset = \<lambda>_. RedisNonce.Reset hx, resolve_slot = slot_resolve hx\<rparr>"

text \<open>What the node was asked to take, by how the slot was resolved.\<close>

definition handed_to :: "('e redis_world, 's, 'ctx) TxManager \<Rightarrow> 'ctx \<Rightarrow> resolution \<Rightarrow> signed_tx \<Rightarrow> bool" where
  "handed_to t ctx p tx \<longleftrightarrow>
     (case p of
        Reuse \<Rightarrow> True
      | Commit \<Rightarrow> \<exists>y u. SendTransaction (client t) ctx tx y = Some (Ok (), u)
      | Reclaim \<Rightarrow> \<exists>y u e. SendTransaction (client t) ctx tx y = Some (Err e, u))"

lemma redis_slot_is_run:
  assumes ans: "answers False ctx pending (rmgr w)" and tm: "apart_tm tm" "signs_payload (tm_signer tm)"
    and P: "P t = Out" "ids (own t) = instanceID (rmgr w)" "D (own t) = r_dirty (rmgr w)"
    and run: "with_slot (RedisNonce.Acquire hx ctx) (slot_resolve hx) (prepare_tx impl tm ctx i opts f d a) (SendTransaction (client tm) ctx) w = Some (r, w')"
    and np: "\<forall>p. r \<noteq> Panic p"
  shows "(\<exists>e. r = Err e) \<and> (\<exists>e. RedisNonce.Acquire hx ctx w = Some (Err e, w')) \<or>
    (\<exists>n p tx. handed_to tm ctx p tx \<and> (if p = Commit then r = Ok tx else \<exists>e. r = Err e) \<and>
      runs (sstep (worker_step hx (rmgr w) ids own pending)) ((stored w, D, P), F, l) [Hand n, Resolved p]
        ((stored w', D(own t := r_dirty (rmgr w')), P), F, l @ wire_of p tx))"
proof -
  note use = redis_use_runs [where ids = ids and own = own and D = D and P = P and t = t and F = F and l = l, OF ans _ P]
  note prep = apartD [OF apart_prepare [OF tm(1)]]
  have send: "SendTransaction (client tm) ctx tx y = Some (q, u) \<Longrightarrow> rmgr u = rmgr y \<and> rslots u = rslots y \<and> stored u = stored y" for tx y q u
    using tm(1) apartD unfolding apart_tm_def by blast
  from run np show ?thesis
  proof (cases rule: with_slot_inv)
    case (reused n k v u e q)
    from use [OF reused(1) _ _ _ reused(3)] prep [OF reused(2)] reused(4)
    show ?thesis by (intro disjI2 exI [of _ n] exI [of _ Reuse]) (simp add: handed_to_def)
  next
    case (reclaimed n k v tx y u e q)
    from use [OF reclaimed(1) _ _ _ reclaimed(4)] prep [OF reclaimed(2)] send [OF reclaimed(3)] prepared_nonce [OF tm(2) reclaimed(2)] reclaimed(3,5)
    show ?thesis by (intro disjI2 exI [of _ n] exI [of _ Reclaim] exI [of _ tx]) (auto simp: handed_to_def)
  next
    case (committed n k v tx y u q)
    from use [OF committed(1) _ _ _ committed(4)] prep [OF committed(2)] send [OF committed(3)] prepared_nonce [OF tm(2) committed(2)] committed(3,5)
    show ?thesis by (intro disjI2 exI [of _ n] exI [of _ Commit] exI [of _ tx]) (auto simp: handed_to_def)
  qed blast
qed


section \<open>Every interleaving of the workers\<close>


section \<open>Instances\<close>

text \<open>A client whose node takes everything, on the Redis of \<open>RedisNonce\<close>.\<close>

definition steady_tm :: "(demo_env redis_world, nat, demo_env ctx) TxManager" where
  "steady_tm = TxManager.New
     \<lparr>CodeAt = \<lambda>_ _. gret [], EstimateGas = \<lambda>_ _. gret 100, SuggestGasTipCap = \<lambda>_. gret 1, SuggestGasPrice = \<lambda>_. gret 1,
      HeaderByNumber = \<lambda>_. gret None, SendTransaction = \<lambda>_ _. gret (), TransactionReceipt = \<lambda>_ _. gfail (Sentinel ''not found'')\<rparr>
     demo_signer (redis_manager demo_hx) 0"

lemma steady_apart: "apart_tm steady_tm" "signs_payload (tm_signer steady_tm)" "nonceManager steady_tm = redis_manager demo_hx"
  by (auto simp: apart_tm_def steady_tm_def TxManager.New_def apart_unit demo_signer_def signs_payload_def gret_def)

lemma steady_submit:
  "\<exists>h w'. Submit demo_tx ''[]'' (\<lambda>_. 0) steady_tm demo_ctx (Some 1) True demo_input None (demo_tx_world demo_redis_world) = Some (Ok h, w')"
proof -
  from demo_acquires obtain s v where acq: "RedisNonce.Acquire demo_hx demo_ctx demo_redis_world = Some (Ok (5, s), v)" by blast
  have "answers False demo_ctx UNIV (rmgr demo_redis_world)" by (rule demo_answers)
  from redis_Acquire_run [where D = "\<lambda>_. r_dirty (rmgr demo_redis_world)" and m = 0, OF this acq refl]
  have v: "rmgr v = (rmgr demo_redis_world)\<lparr>r_dirty := False\<rparr>" "\<not> rslots v ! s" by auto
  have "answers False demo_ctx UNIV (rmgr v)" using demo_answers v by simp
  from redis_slot_run [where D = "\<lambda>_. r_dirty (rmgr v)" and m = 0 and r = Commit and hx = demo_hx, OF this v(2) refl]
  obtain u where "slot_resolve demo_hx Commit s v = Some (Ok (), u)" by blast
  with demo_submit [OF same_world_refl [OF demo_version(1)], of demo_redis_world "\<lambda>_. 0" steady_tm demo_ctx None] acq
  show ?thesis by (auto simp: with_slot_eval steady_tm_def TxManager.New_def redis_manager_def demo_signer_def demo_tx_world_def)
qed


text \<open>Two workers that take turns.\<close>

definition signed_with :: "u64 \<Rightarrow> signed_tx" where
  "signed_with n = \<lparr>payload = buildTxWithNonce (Some 1) 7 [] n 100 1 None None, signature = []\<rparr>"

lemma signed_with_nonce [simp]: "Nonce (payload (signed_with n)) = n"
  by (simp add: signed_with_def)

lemma workers_submit:
  "\<exists>s. runs (sstep (worker_step hx mg ids (\<lambda>t. t) {5})) (all_out (\<lambda>_. None), [], []) [Hand 5, Resolved Commit, Hand 6, Resolved Commit]
     (s, [], [(signed_with 5, True), (signed_with 6, True)])"
proof -
  let ?L = "lockKey hx mg" and ?K = "counterKey hx mg" and ?ws = "worker_step hx mg ids (\<lambda>t. t) {5}"
  let ?one = "([?L \<mapsto> ids 0, ?K \<mapsto> FormatUint 6], \<lambda>_. False, (\<lambda>_. Out)(0 := Hold 5))"
  let ?two = "([?K \<mapsto> FormatUint 6], \<lambda>_. False, ((\<lambda>_. Out)(0 := Hold 5))(0 := Out))"
  let ?three = "([?L \<mapsto> ids 1, ?K \<mapsto> FormatUint 7], \<lambda>_. False, ((\<lambda>_. Out)(0 := Hold 5, 0 := Out))(1 := Hold 6))"
  let ?four = "([?K \<mapsto> FormatUint 7], \<lambda>_. False, ((\<lambda>_. Out)(0 := Hold 5, 0 := Out, 1 := Hold 6))(1 := Out))"
  note worker = rrun_worker [where ids = ids and own = "\<lambda>t. t" and hx = hx and mg = mg and pending = "{5}" and D = "\<lambda>_. False" and D' = "\<lambda>_. False"]
  have hand0: "runs ?ws (all_out (\<lambda>_. None)) [Hand 5] ?one"
    using crun_runs [OF worker_0_acquires [of False hx mg ids]] by simp
  have commit0: "runs ?ws ?one [Resolved Commit] ?two"
    using worker [where t = 0 and P = "(\<lambda>_. Out)(0 := Hold 5)" and es = "[Done 0 Commit]" and pc = Out]
      commit_run [of False hx mg "ids 0" "{5}" 0 "[?L \<mapsto> ids 0, ?K \<mapsto> FormatUint 6]" "\<lambda>_. False" 5]
    by (simp add: fun_upd_twist)
  have hand1: "runs ?ws ?two [Hand 6] ?three"
    using worker [where t = 1 and P = "(\<lambda>_. Out)(0 := Hold 5, 0 := Out)" and es = "[Handed 1 6]" and pc = "Hold 6"]
      worker_1_acquires [of "\<lambda>_. False" hx mg ids] by simp
  have commit1: "runs ?ws ?three [Resolved Commit] ?four"
    using worker [where t = 1 and P = "(\<lambda>_. Out)(0 := Hold 5, 0 := Out, 1 := Hold 6)" and es = "[Done 1 Commit]" and pc = Out]
      worker_1_commits [of hx mg ids "\<lambda>_. False"] by simp
  from runs_use [where F = "[]" and l = "[]" and tx = "signed_with 5", OF hand0 runs.here commit0]
  have first: "runs (sstep ?ws) (all_out (\<lambda>_. None), [], []) [Hand 5, Resolved Commit] (?two, [], [(signed_with 5, True)])" by simp
  from runs_use [where F = "[]" and l = "[(signed_with 5, True)]" and tx = "signed_with 6", OF hand1 runs.here commit1]
  have "runs (sstep ?ws) (?two, [], [(signed_with 5, True)]) [Hand 6, Resolved Commit] (?four, [], [(signed_with 5, True), (signed_with 6, True)])"
    by simp
  from runs_append [OF this first] show ?thesis by (simp only: append.simps) blast
qed


end
