(* ===== verification/ClientApi.thy ===== *)
theory ClientApi
  imports MockClient
begin

text \<open>
  The interface \<open>safe.Client\<close>, and its two implementations in the repository: the client of \<open>New\<close>
  and the mock of \<open>testing/mock\<close>. What both promise is a locale; an application written against the
  interface only calls these methods.
\<close>

section \<open>The interface\<close>

record ('w, 'ctx) Client =
  PredictAddress_method :: "address list \<Rightarrow> byte \<Rightarrow> byte list \<Rightarrow> ('w, address) prog"
  IsDeployed_method :: "'ctx \<Rightarrow> address \<Rightarrow> ('w, bool) prog"
  Deploy_method :: "'ctx \<Rightarrow> address list \<Rightarrow> byte \<Rightarrow> byte list \<Rightarrow> ('w, DeployResult) prog"
  SubmitDeployment_method :: "'ctx \<Rightarrow> address list \<Rightarrow> byte \<Rightarrow> byte list \<Rightarrow> ('w, hash) prog"
  WaitForDeployment_method :: "'ctx \<Rightarrow> address list \<Rightarrow> byte \<Rightarrow> byte list \<Rightarrow> hash \<Rightarrow> ('w, DeployResult) prog"
  Close_method :: "('w, unit) prog"

definition client_methods ::
  "('abi, 'key, 'z) geth_tx_scheme \<Rightarrow> 'abi \<Rightarrow> (float64 \<Rightarrow> u64) \<Rightarrow> ('w, 'ctx) contexts \<Rightarrow> ('w, 's, 'ctx, 'src) client \<Rightarrow>
     (('abi, 'w) safe_world, 'ctx) Client" where
  "client_methods g a impl cs c =
     \<lparr>PredictAddress_method = PredictAddress g a c, IsDeployed_method = SafeClient.IsDeployed c,
      Deploy_method = SafeClient.Deploy g a impl cs c, SubmitDeployment_method = SubmitDeployment g a impl c,
      WaitForDeployment_method = WaitForDeployment g a cs c, Close_method = client_Close c\<rparr>"

definition mock_methods ::
  "('abi, 'z) geth_scheme \<Rightarrow> (byte list \<Rightarrow> byte list) \<Rightarrow> 'abi \<Rightarrow> (('abi, mock_client) safe_world, 'ctx) Client" where
  "mock_methods g sha256 a =
     \<lparr>PredictAddress_method = mock_PredictAddress g a, IsDeployed_method = \<lambda>_. mock_IsDeployed,
      Deploy_method = \<lambda>_. mock_Deploy g sha256 a, SubmitDeployment_method = \<lambda>_. mock_SubmitDeployment g sha256 a,
      WaitForDeployment_method = \<lambda>_. mock_WaitForDeployment g a, Close_method = mock_Close\<rparr>"

section \<open>An application's calls\<close>

type_synonym config = "address list \<times> byte \<times> byte list"

datatype 'ctx api_op =
    ApiPredict config
  | ApiIsDeployed 'ctx address
  | ApiDeploy 'ctx config
  | ApiSubmit 'ctx config
  | ApiWait 'ctx config hash
  | ApiClose

text \<open>One call, and the address it tells for its configuration.\<close>

fun api_call :: "('w, 'ctx) Client \<Rightarrow> 'ctx api_op \<Rightarrow> ('w, (config \<times> address) list) prog" where
  "api_call m (ApiPredict (os, th, salt)) =
     chk (PredictAddress_method m os th salt) gfail (\<lambda>p. gret [((os, th, salt), p)])"
| "api_call m (ApiIsDeployed ctx addr) = chk (IsDeployed_method m ctx addr) gfail (\<lambda>_. gret [])"
| "api_call m (ApiDeploy ctx (os, th, salt)) =
     chk (Deploy_method m ctx os th salt) gfail (\<lambda>r. gret [((os, th, salt), dr_SafeAddress r)])"
| "api_call m (ApiSubmit ctx (os, th, salt)) = chk (SubmitDeployment_method m ctx os th salt) gfail (\<lambda>_. gret [])"
| "api_call m (ApiWait ctx (os, th, salt) h) =
     chk (WaitForDeployment_method m ctx os th salt h) gfail (\<lambda>r. gret [((os, th, salt), dr_SafeAddress r)])"
| "api_call m ApiClose = chk (Close_method m) gfail (\<lambda>_. gret [])"

lemma api_op_cases:
  obtains (Predict) os th salt where "op = ApiPredict (os, th, salt)"
  | (IsDeployed) ctx addr where "op = ApiIsDeployed ctx addr"
  | (Deploy) ctx os th salt where "op = ApiDeploy ctx (os, th, salt)"
  | (Submit) ctx os th salt where "op = ApiSubmit ctx (os, th, salt)"
  | (Wait) ctx os th salt h where "op = ApiWait ctx (os, th, salt) h"
  | (Close) "op = ApiClose"
  by (cases op) auto

text \<open>What a sequence of calls has told; the application goes on after an error and recovers from a panic.\<close>

fun api_calls :: "('w, 'ctx) Client \<Rightarrow> 'ctx api_op list \<Rightarrow> 'w \<Rightarrow> ((config \<times> address) list \<times> 'w) option" where
  "api_calls m [] w = Some ([], w)"
| "api_calls m (op # ops) w =
     (case api_call m op w of
        None \<Rightarrow> None
      | Some (r, v) \<Rightarrow>
          (case api_calls m ops v of
             None \<Rightarrow> None
           | Some (l, u) \<Rightarrow> Some ((case r of Ok x \<Rightarrow> x | _ \<Rightarrow> []) @ l, u)))"

section \<open>What an implementation promises\<close>

text \<open>
  \<open>sound\<close> is an invariant of its state, which no call breaks; \<open>addr\<close> is the address it has in mind for a
  configuration, which no call changes and which \<open>PredictAddress\<close>, \<open>Deploy\<close> and \<open>WaitForDeployment\<close> agree on.
\<close>

definition same_addresses :: "('w \<Rightarrow> bool) \<Rightarrow> ('w \<Rightarrow> config \<Rightarrow> address result) \<Rightarrow> 'w \<Rightarrow> 'w \<Rightarrow> bool" where
  "same_addresses sound addr w w' \<longleftrightarrow> sound w \<longrightarrow> sound w' \<and> addr w' = addr w"

locale safe_client =
  fixes m :: "('w, 'ctx) Client" and sound :: "'w \<Rightarrow> bool" and addr :: "'w \<Rightarrow> config \<Rightarrow> address result"
  assumes keeps: "api_call m op w = Some (r, w') \<Longrightarrow> same_addresses sound addr w w'"
    and predicts: "sound w \<Longrightarrow> PredictAddress_method m os th salt w = Some (Ok p, w') \<Longrightarrow> addr w (os, th, salt) = Ok p"
    and deploys: "sound w \<Longrightarrow> Deploy_method m ctx os th salt w = Some (Ok res, w') \<Longrightarrow> addr w (os, th, salt) = Ok (dr_SafeAddress res)"
    and awaits: "sound w \<Longrightarrow> WaitForDeployment_method m ctx os th salt h w = Some (Ok res, w') \<Longrightarrow>
      addr w (os, th, salt) = Ok (dr_SafeAddress res)"
begin

lemma call_tells:
  assumes "sound w" and "api_call m op w = Some (Ok l, w')" and "(cfg, p) \<in> set l"
  shows "addr w cfg = Ok p"
  using assms predicts deploys awaits
  by (cases op rule: api_op_cases) (auto simp: gret_def gfail_def elim!: chk_OkE)

lemma calls_tell:
  assumes "sound w" and "api_calls m ops w = Some (l, w')"
  shows "sound w' \<and> addr w' = addr w \<and> (\<forall>(cfg, p) \<in> set l. addr w cfg = Ok p)"
  using assms
proof (induction ops arbitrary: w l)
  case (Cons op ops)
  from Cons.prems(2) obtain r v k where call: "api_call m op w = Some (r, v)" and rest: "api_calls m ops v = Some (k, w')"
    and l: "l = (case r of Ok x \<Rightarrow> x | _ \<Rightarrow> []) @ k" by (auto split: option.splits)
  from keeps [OF call] Cons.prems(1) have v: "sound v" "addr v = addr w" by (simp_all add: same_addresses_def)
  from Cons.IH [OF v(1) rest] v(2) have "sound w' \<and> addr w' = addr w \<and> (\<forall>(cfg, p) \<in> set k. addr w cfg = Ok p)" by simp
  with l call call_tells [OF Cons.prems(1), of op] show ?case by (cases r) auto
qed simp

lemma told_once:
  assumes "sound w" and "api_calls m ops w = Some (l, w')" and "(cfg, p) \<in> set l" and "(cfg, q) \<in> set l"
  shows "p = q"
proof -
  from calls_tell [OF assms(1,2)] assms(3,4) have "addr w cfg = Ok p" "addr w cfg = Ok q" by auto
  then show ?thesis by simp
qed

end

section \<open>The client of New\<close>

definition client_sound :: "('abi, 'z) geth_scheme \<Rightarrow> ('w, 's, 'ctx, 'src) client \<Rightarrow> ('abi, 'w) safe_world \<Rightarrow> bool" where
  "client_sound g c w \<longleftrightarrow> geth_laws g \<and> registry_ok g w \<and> registered (c_version c) w \<and> ID (c_chain c) \<noteq> None"

definition client_address ::
  "('abi, 'z) geth_scheme \<Rightarrow> 'abi \<Rightarrow> ('w, 's, 'ctx, 'src) client \<Rightarrow> ('abi, 'w) safe_world \<Rightarrow> config \<Rightarrow> address result" where
  "client_address g a c w cfg =
     (case cfg of (os, th, salt) \<Rightarrow> predicted g a (view (c_version c) w) (safe_input os th salt) (ID (c_chain c)) (IsL2 (c_chain c)))"

lemma keeps_registry_addresses:
  assumes "geth_laws g \<Longrightarrow> keeps_registry g m" and "m w = Some (r, w')"
  shows "same_addresses (client_sound g c) (client_address g a c) w w'"
  unfolding same_addresses_def
proof
  assume w: "client_sound g c w"
  then have "same_registry g w w'" using keeps_registryD [of g m w r w'] assms by (simp add: client_sound_def)
  with same_registry_view [OF this, of "c_version c"] w show "client_sound g c w' \<and> client_address g a c w' = client_address g a c w"
    by (auto simp: client_sound_def client_address_def same_registry_def)
qed

lemma client_api_keeps:
  "geth_laws g \<Longrightarrow> keeps_registry g (api_call (client_methods g a impl cs c) op)"
  by (cases op rule: api_op_cases)
    (auto simp: client_methods_def PredictAddress_def SafeClient.IsDeployed_def SubmitDeployment_def WaitForDeployment_def client_Close_def
      intro!: keeps_registry_rules keeps_registry_Deploy)

lemma client_Predict_Ok:
  assumes w: "client_sound g c w" and run: "PredictAddress g a c os th salt w = Some (Ok p, w')"
  shows "client_address g a c w (os, th, salt) = Ok p"
proof -
  from w obtain i where g: "geth_laws g" "registry_ok g w" "registered (c_version c) w" and i: "ID (c_chain c) = Some i"
    by (auto simp: client_sound_def)
  from run have "validateSafeConfig os th = Ok ()"
    by (cases "validateSafeConfig os th") (auto simp: PredictAddress_def validated_def gfail_def)
  from PredictAddress_run [OF g i this, of a salt] run show ?thesis by (auto simp: client_address_def i)
qed

lemma client_Deploy_Ok:
  assumes "client_sound g c w" and run: "SafeClient.Deploy g a impl cs c ctx os th salt w = Some (Ok res, w')"
  shows "client_address g a c w (os, th, salt) = Ok (dr_SafeAddress res)"
  using assms(1) Deploy_address [OF _ _ _ _ run] by (auto simp: client_sound_def client_address_def)

lemma client_Wait_Ok:
  assumes w: "client_sound g c w" and run: "WaitForDeployment g a cs c ctx os th salt h w = Some (Ok res, w')"
  shows "client_address g a c w (os, th, salt) = Ok (dr_SafeAddress res)"
proof -
  from w obtain i where g: "geth_laws g" and ok: "registry_ok g w" and c: "registered (c_version c) w" and i: "ID (c_chain c) = Some i"
    by (auto simp: client_sound_def)
  let ?m = "Wait g a cs (c_txManager c) ctx (Some i) (IsL2 (c_chain c)) (safe_input os th salt) h"
  from run obtain r z where "on_version (c_version c) ?m w = Some (Ok r, z)" and res: "res = deploy_result r"
    by (auto simp: WaitForDeployment_def i gfail_def gret_def elim!: chk_OkE)
  then obtain t where "?m (view (c_version c) w) = Some (Ok r, t)" by (auto simp: on_version_view [OF c] split: option.splits)
  from tm_Wait_Ok [OF g view_ok [OF ok c] this] show ?thesis by (simp add: client_address_def i res deploy_result_def)
qed

interpretation live: safe_client "client_methods g a impl cs c" "client_sound g c" "client_address g a c" for g a impl cs c
proof
  fix op w r w' assume "api_call (client_methods g a impl cs c) op w = Some (r, w')"
  with client_api_keeps show "same_addresses (client_sound g c) (client_address g a c) w w'" by (rule keeps_registry_addresses)
qed (simp_all add: client_methods_def client_Predict_Ok client_Deploy_Ok client_Wait_Ok)

section \<open>The mock\<close>

definition mock_sound :: "('abi, 'z) geth_scheme \<Rightarrow> ('abi, 'w) safe_world \<Rightarrow> bool" where
  "mock_sound g w \<longleftrightarrow> geth_laws g \<and> registry_ok g w \<and> registered V141 w"

definition mock_config_address :: "('abi, 'z) geth_scheme \<Rightarrow> 'abi \<Rightarrow> ('abi, 'w) safe_world \<Rightarrow> config \<Rightarrow> address result" where
  "mock_config_address g a w cfg = (case cfg of (os, th, salt) \<Rightarrow> mock_address g a w os th salt)"

lemma mock_api_keeps: "geth_laws g \<Longrightarrow> keeps_registry g (api_call (mock_methods g sha256 a) op)"
  by (cases op rule: api_op_cases)
    (auto simp: mock_methods_def mock_PredictAddress_def mock_IsDeployed_def mock_Deploy_def mock_SubmitDeployment_def
      mock_WaitForDeployment_def mock_Close_def intro!: keeps_registry_rules keeps_registry_predictAddress)

text \<open>\<open>Deploy\<close> and \<open>WaitForDeployment\<close> of the mock predict, and then work on what it has recorded.\<close>

lemma mock_tells:
  assumes w: "mock_sound g w" and run: "chk (predictAddress g a os th salt) gfail (\<lambda>p. on_world (f p)) w = Some (Ok res, w')"
    and f: "\<And>p v u. f p v = Some (Ok res, u) \<Longrightarrow> dr_SafeAddress res = p"
  shows "mock_config_address g a w (os, th, salt) = Ok (dr_SafeAddress res)"
proof -
  from w have "geth_laws g" "registry_ok g w" "registered V141 w" by (simp_all add: mock_sound_def)
  from predictAddress_run [OF this] obtain u
    where "predictAddress g a os th salt w = Some (mock_address g a w os th salt, u)" by blast
  with run f show ?thesis
    by (fastforce simp: mock_config_address_def gfail_def on_world_def elim!: chk_OkE split: option.splits)
qed

lemma find_deployment_Ok: "find_deployment p h v = Some (Ok res, u) \<Longrightarrow> dr_SafeAddress res = p"
  by (auto simp: find_deployment_def split: option.splits prod.splits if_splits)

interpretation mocked: safe_client "mock_methods g sha256 a" "mock_sound g" "mock_config_address g a"
  for g :: "('abi, 'z) geth_scheme" and sha256 and a :: 'abi
proof
  fix op r and w w' :: "('abi, mock_client) safe_world"
  assume run: "api_call (mock_methods g sha256 a) op w = Some (r, w')"
  show "same_addresses (mock_sound g) (mock_config_address g a) w w'"
    unfolding same_addresses_def
  proof
    assume w: "mock_sound g w"
    then have same: "same_registry g w w'" using keeps_registryD [OF mock_api_keeps _ run] by (simp add: mock_sound_def)
    with same_registry_view [OF same, of V141] w show "mock_sound g w' \<and> mock_config_address g a w' = mock_config_address g a w"
      by (auto simp: mock_sound_def mock_config_address_def mock_address_def same_registry_def)
  qed
next
  fix w w' :: "('abi, mock_client) safe_world" and os th salt p
  assume w: "mock_sound g w" and "PredictAddress_method (mock_methods g sha256 a) os th salt w = Some (Ok p, w')"
  then show "mock_config_address g a w (os, th, salt) = Ok p"
    using predictAddress_run [of g w a os th salt]
    by (auto simp: mock_methods_def mock_PredictAddress_def mock_sound_def mock_config_address_def)
next
  fix w w' :: "('abi, mock_client) safe_world" and ctx os th salt res
  assume w: "mock_sound g w" and "Deploy_method (mock_methods g sha256 a) ctx os th salt w = Some (Ok res, w')"
  then have "chk (predictAddress g a os th salt) gfail (\<lambda>p. on_world (record_deployment g sha256 os th p)) w = Some (Ok res, w')"
    by (simp add: mock_methods_def mock_Deploy_def)
  with w show "mock_config_address g a w (os, th, salt) = Ok (dr_SafeAddress res)"
    by (rule mock_tells) (rule record_deployment_Ok [THEN conjunct1])
next
  fix w w' :: "('abi, mock_client) safe_world" and ctx os th salt h res
  assume w: "mock_sound g w" and "WaitForDeployment_method (mock_methods g sha256 a) ctx os th salt h w = Some (Ok res, w')"
  then have "chk (predictAddress g a os th salt) gfail (\<lambda>p. on_world (find_deployment p h)) w = Some (Ok res, w')"
    by (simp add: mock_methods_def mock_WaitForDeployment_def)
  with w show "mock_config_address g a w (os, th, salt) = Ok (dr_SafeAddress res)" by (rule mock_tells) (rule find_deployment_Ok)
qed

section \<open>One address for a configuration\<close>


lemma mock_address_same:
  assumes "ID (c_chain c) = Some 1" and "\<not> IsL2 (c_chain c)" and "c_version c = V141"
    and "versions v = versions w" and "chains v = chains w"
  shows "mock_config_address g a v cfg = client_address g a c w cfg"
  using assms
  by (simp add: mock_config_address_def mock_address_def client_address_def predicted_def predict_reference_def view_def split: prod.split)

text \<open>
  C7: a test with the mock sees the addresses of the real client. Let an application talk to a
  client for chain 1 and version 1.4.1, and in a test to the mock, with the same deployments
  registered. Then whatever the two runs do, an address that was told for a configuration in the one
  is the address that was told for it in the other.
\<close>

theorem mock_stands_in:
  assumes "client_sound g c w" and "ID (c_chain c) = Some 1" and "\<not> IsL2 (c_chain c)" and "c_version c = V141"
    and "versions v = versions w" and "chains v = chains w"
    and "api_calls (client_methods g a impl cs c) ops w = Some (l, w')" and "(cfg, p) \<in> set l"
    and "api_calls (mock_methods g sha256 a) mops v = Some (k, v')" and "(cfg, q) \<in> set k"
  shows "p = q"
proof -
  from assms(1,4,5) have "mock_sound g v" by (auto simp: client_sound_def mock_sound_def registry_ok_def registered_def)
  from mocked.calls_tell [OF this assms(9)] assms(10) have q: "mock_config_address g a v cfg = Ok q" by auto
  from live.calls_tell [OF assms(1,7)] assms(8) have p: "client_address g a c w cfg = Ok p" by auto
  from mock_address_same [OF assms(2-6), of g a cfg] p q show ?thesis by simp
qed

text \<open>
  C8: but the mock does not check configurations. One that the client refuses, with the error of the
  check and before any call, the mock deploys like any other, so that a test passes on it.
\<close>

theorem mock_skips_check:
  assumes "validateSafeConfig owners th = Err e" and "mock_sound g v" and "mock_address g a v owners th salt = Ok p"
    and "forcedErrs (world v) = []" and "map_of (deployed (world v)) p = None"
  shows "Deploy_method (client_methods g a impl cs c) ctx owners th salt w = Some (Err e, w) \<and>
    (\<exists>res v'. Deploy_method (mock_methods g sha256 a) ctx' owners th salt v = Some (Ok res, v') \<and> dr_SafeAddress res = p)"
proof
  show "Deploy_method (client_methods g a impl cs c) ctx owners th salt w = Some (Err e, w)"
    using assms(1) by (simp add: client_methods_def SafeClient.Deploy_def validated_def gfail_def)
  from assms(2) predictAddress_run [of g v a owners th salt] assms(3) obtain u
    where "predictAddress g a owners th salt v = Some (Ok p, u)" "world u = world v" by (auto simp: mock_sound_def)
  with assms(4,5) show "\<exists>res v'. Deploy_method (mock_methods g sha256 a) ctx' owners th salt v = Some (Ok res, v') \<and> dr_SafeAddress res = p"
    by (simp add: mock_methods_def mock_Deploy_def on_world_def record_deployment_def consumeForcedErr_def Let_def)
qed

section \<open>Concrete calls\<close>


definition demo_l1 :: "(int, unit, int, unit) client" where
  "demo_l1 = (demo_sc None (demo_receipt 1 0))\<lparr>c_chain := demo_chain\<lparr>IsL2 := False\<rparr>\<rparr>"

lemma demo_l1_sound: "client_sound demo_tx demo_l1 demo_safe"
  using demo_registered demo_safe_ok demo_tx_laws by (simp add: client_sound_def demo_l1_def demo_sc_def demo_chain_def)

lemma demo_l1_fields: "c_version demo_l1 = V141" "ID (c_chain demo_l1) = Some 1" "\<not> IsL2 (c_chain demo_l1)"
  by (simp_all add: demo_l1_def demo_sc_def demo_chain_def V141_def Version141_def)

lemma demo_mock_sound: "mock_sound demo_tx (demo_mock es)"
  using demo_mock_ok demo_tx_laws by (simp add: mock_sound_def)

lemma demo_same_versions: "versions (demo_mock es) = versions demo_safe" "chains (demo_mock es) = chains demo_safe"
  by (simp_all add: demo_mock_def demo_safe_def demo_safe_of_def)

lemma demo_mock_Deploy:
  "\<exists>p res v'. mock_address demo_tx ''[]'' (demo_mock []) os th salt = Ok p \<and>
    mock_Deploy demo_tx (\<lambda>bs. bs) ''[]'' os th salt (demo_mock []) = Some (Ok res, v') \<and> dr_SafeAddress res = p"
proof -
  obtain p where p: "mock_address demo_tx ''[]'' (demo_mock []) os th salt = Ok p" using demo_mock_address by blast
  with predictAddress_run [OF demo_tx_laws demo_mock_ok, of "''[]''" os th salt "[]"] obtain u
    where "predictAddress demo_tx ''[]'' os th salt (demo_mock []) = Some (Ok p, u)" "world u = NewClient"
    by (auto simp: demo_mock_def demo_safe_of_def NewClient_def)
  with p show ?thesis
    by (simp add: mock_Deploy_def on_world_def record_deployment_def consumeForcedErr_def NewClient_def Let_def)
qed

theorem mock_stands_in_witness:
  "\<exists>p w' v'. api_calls (client_methods demo_tx ''[]'' (\<lambda>_. 0) clock_contexts demo_l1) [ApiPredict ([5], 1, [1, 2])] demo_safe =
      Some ([(([5], 1, [1, 2]), p)], w') \<and>
    api_calls (mock_methods demo_tx (\<lambda>bs. bs) ''[]'') [ApiDeploy () ([5], 1, [1, 2])] (demo_mock []) =
      Some ([(([5], 1, [1, 2]), p)], v')"
proof -
  let ?cfg = "([5], 1, [1, 2])"
  obtain q res v' where q: "mock_address demo_tx ''[]'' (demo_mock []) [5] 1 [1, 2] = Ok q"
    and dep: "mock_Deploy demo_tx (\<lambda>bs. bs) ''[]'' [5] 1 [1, 2] (demo_mock []) = Some (Ok res, v')" "dr_SafeAddress res = q"
    using demo_mock_Deploy by blast
  from q mock_address_same [OF demo_l1_fields(2,3,1) demo_same_versions, where g = demo_tx and a = "''[]''" and cfg = ?cfg]
  have "client_address demo_tx ''[]'' demo_l1 demo_safe ?cfg = Ok q" by (simp add: mock_config_address_def)
  moreover from demo_registered have "registered (c_version demo_l1) demo_safe" by (simp add: demo_l1_def demo_sc_def)
  ultimately obtain p w' where "PredictAddress demo_tx ''[]'' demo_l1 [5] 1 [1, 2] demo_safe = Some (Ok p, w')"
    using PredictAddress_run [OF demo_tx_laws demo_safe_ok _ demo_l1_fields(2) demo_config, of "''[]''" "[1, 2]"]
    by (auto simp: client_address_def demo_l1_fields(2))
  then have live: "api_calls (client_methods demo_tx ''[]'' (\<lambda>_. 0) clock_contexts demo_l1) [ApiPredict ?cfg] demo_safe = Some ([(?cfg, p)], w')"
    by (simp add: client_methods_def gret_def)
  have mock: "api_calls (mock_methods demo_tx (\<lambda>bs. bs) ''[]'') [ApiDeploy () ?cfg] (demo_mock []) = Some ([(?cfg, q)], v')"
    using dep by (simp add: mock_methods_def gret_def)
  from mock_stands_in [OF demo_l1_sound demo_l1_fields(2,3,1) demo_same_versions live _ mock, where cfg = ?cfg and p = p and q = q] have "p = q" by simp
  with live mock show ?thesis by blast
qed

theorem mock_skips_check_witness:
  "\<exists>res v'. Deploy_method (client_methods demo_tx ''[]'' (\<lambda>_. 0) clock_contexts demo_l1) 7 [5] 2 [1, 2] demo_safe =
      Some (Err (Errorf ''%w: %d of %d'' [ENat 2, ENat 1] [ErrInvalidThreshold]), demo_safe) \<and>
    Deploy_method (mock_methods demo_tx (\<lambda>bs. bs) ''[]'') () [5] 2 [1, 2] (demo_mock []) = Some (Ok res, v')"
proof -
  have bad: "validateSafeConfig [5] 2 = Err (Errorf ''%w: %d of %d'' [ENat 2, ENat 1] [ErrInvalidThreshold])"
    by (simp add: validateSafeConfig_def)
  obtain p where p: "mock_address demo_tx ''[]'' (demo_mock []) [5] 2 [1, 2] = Ok p" using demo_mock_address by blast
  have "forcedErrs (world (demo_mock [])) = []" "map_of (deployed (world (demo_mock []))) p = None"
    by (simp_all add: demo_mock_def demo_safe_of_def NewClient_def)
  from mock_skips_check [OF bad demo_mock_sound p this, where impl = "\<lambda>_. 0" and cs = clock_contexts and c = demo_l1 and ctx = 7 and w = demo_safe and ctx' = "()"] show ?thesis by blast
qed

end
