(* ===== verification/ErrorText.thy ===== *)
theory ErrorText
  imports SafeClient
begin

text \<open>
  What an error says: the method \<open>Error\<close> of the errors of the library, with the verbs of \<open>fmt\<close> it uses.
  The operands are the values of \<open>Prelude\<close>; the text an error of another package has is an argument.
\<close>

section \<open>Formatting\<close>

text \<open>
  \<open>Address.Hex\<close> and \<open>Hash.Hex\<close> are go-ethereum's; \<open>quote_text\<close> is \<open>strconv.Quote\<close> on text that is not
  ASCII, which depends on tables of printable characters; \<open>other_text\<close> is the text of the
  variables of other packages.
\<close>

record printers =
  addr_text :: "address \<Rightarrow> string"
  hash_text :: "hash \<Rightarrow> string"
  quote_text :: "string \<Rightarrow> string"
  other_text :: "string \<Rightarrow> string"

definition byte_of :: "char \<Rightarrow> nat" where
  "byte_of c = of_char c"

text \<open>\<open>strconv.Quote\<close> on a byte of ASCII.\<close>

definition quote_byte :: "char \<Rightarrow> string" where
  "quote_byte c =
     (if c = CHR 0x22 \<or> c = CHR 0x5C then [CHR 0x5C, c]
      else case map_of [(7, CHR ''a''), (8, CHR ''b''), (9, CHR ''t''), (10, CHR ''n''), (11, CHR ''v''),
                  (12, CHR ''f''), (13, CHR ''r'')] (byte_of c) of
             Some e \<Rightarrow> [CHR 0x5C, e]
           | None \<Rightarrow>
               if byte_of c < 32 \<or> byte_of c = 127 then [CHR 0x5C, CHR ''x''] @ hex_of_bytes [of_nat (byte_of c)] else [c])"

definition Quote :: "printers \<Rightarrow> string \<Rightarrow> string" where
  "Quote pr s =
     (if list_all (\<lambda>c. byte_of c < 128) s then [CHR 0x22] @ concat (map quote_byte s) @ [CHR 0x22] else quote_text pr s)"

fun join :: "string \<Rightarrow> string list \<Rightarrow> string" where
  "join sep [] = []"
| "join sep [s] = s"
| "join sep (s # ss) = s @ sep @ join sep ss"

fun value_text :: "printers \<Rightarrow> earg \<Rightarrow> string" where
  "value_text pr (EStr s) = s"
| "value_text pr (EInt i) = big_String i"
| "value_text pr (EU64 n) = FormatUint n"
| "value_text pr (ENat n) = dec_nat n"
| "value_text pr (EAddr a) = addr_text pr a"
| "value_text pr (EHash h) = hash_text pr h"
| "value_text pr (EStrs ss) = ''['' @ join '' '' ss @ '']''"

text \<open>
  \<open>fmt.Sprintf\<close> with the verbs of the library: \<open>%w\<close> takes the next wrapped error, \<open>%q\<close> quotes the next
  operand, any other verb prints it.
\<close>

definition missing :: "char \<Rightarrow> string" where
  "missing v = ''%!'' @ [v] @ ''(MISSING)''"

fun Sprintf :: "printers \<Rightarrow> string \<Rightarrow> earg list \<Rightarrow> string list \<Rightarrow> string" where
  "Sprintf pr [] as ws = []"
| "Sprintf pr [c] as ws = (if c = CHR ''%'' then ''%!(NOVERB)'' else [c])"
| "Sprintf pr (c # v # f) as ws =
     (if c \<noteq> CHR ''%'' then c # Sprintf pr (v # f) as ws
      else if v = CHR ''%'' then CHR ''%'' # Sprintf pr f as ws
      else if v = CHR ''w'' then
        (case ws of [] \<Rightarrow> missing v @ Sprintf pr f as ws | w # ws' \<Rightarrow> w @ Sprintf pr f as ws')
      else
        (case as of
           [] \<Rightarrow> missing v @ Sprintf pr f as ws
         | a # as' \<Rightarrow> (if v = CHR ''q'' then Quote pr (value_text pr a) else value_text pr a) @ Sprintf pr f as' ws))"

lemma Sprintf_plain: "CHR ''%'' \<notin> set f \<Longrightarrow> Sprintf pr (f @ g) as ws = f @ Sprintf pr g as ws"
proof (induction f)
  case (Cons c f)
  then show ?case by (cases "f @ g") auto
qed simp

section \<open>The texts of the library's errors\<close>

definition txmanager_texts :: "(string \<times> string) list" where
  "txmanager_texts =
     [(''txmanager.ErrAddressAlreadyDeployed'', ''address already has a deployed contract''),
      (''txmanager.ErrDeployTimeout'', ''deployment timed out waiting to be mined''),
      (''txmanager.ErrTransactionReverted'', ''transaction reverted on-chain'')]"

definition versions_texts :: "(string \<times> string) list" where
  "versions_texts =
     [(''versions.ErrUnknownVersion'', ''unknown Safe version''),
      (''versions.ErrVersionNotOnChain'', ''version not deployed on this chain'')]"

definition safe_texts :: "(string \<times> string) list" where
  "safe_texts =
     [(''safe.ErrInvalidThreshold'', ''invalid threshold''),
      (''safe.ErrEmptyOwners'', ''owners list cannot be empty''),
      (''safe.ErrDuplicateOwner'', ''duplicate owner address''),
      (''safe.ErrZeroAddressOwner'', ''zero address cannot be an owner'')]"

definition sentinel_text :: "printers \<Rightarrow> string \<Rightarrow> string" where
  "sentinel_text pr s =
     (case map_of (txmanager_texts @ versions_texts @ safe_texts) s of Some t \<Rightarrow> t | None \<Rightarrow> other_text pr s)"

definition mismatch_Error :: "printers \<Rightarrow> address \<Rightarrow> address \<Rightarrow> hash \<Rightarrow> u64 \<Rightarrow> string" where
  "mismatch_Error pr p a h b =
     Sprintf pr
       (''Address mismatch. Predicted %s but deployed to %s (tx: %s, block: %d).'' @
        ''This is a bug in safekit, please open an issue at github.com/spazzle-io/safekit'')
       [EAddr p, EAddr a, EHash h, EU64 b] []"

fun Error :: "printers \<Rightarrow> gerr \<Rightarrow> string" where
  "Error pr (Sentinel s) = sentinel_text pr s"
| "Error pr (Errorf f as ws) = Sprintf pr f as (map (Error pr) ws)"
| "Error pr (DeploymentMismatch p a h b) = mismatch_Error pr p a h b"

text \<open>A wrapping keeps the text of what it wraps, after its own.\<close>

lemma Error_wrapf: "CHR ''%'' \<notin> set pre \<Longrightarrow> Error pr (wrapf (pre @ ''%w'') e) = pre @ Error pr e"
  by (simp add: Sprintf_plain)

lemma mismatch_text:
  "mismatch_Error pr p a h b =
     ''Address mismatch. Predicted '' @ addr_text pr p @ '' but deployed to '' @ addr_text pr a @ '' (tx: '' @ hash_text pr h @
     '', block: '' @ FormatUint b @ '').This is a bug in safekit, please open an issue at github.com/spazzle-io/safekit''"
  by (simp add: mismatch_Error_def)

section \<open>What a mismatch report tells\<close>

text \<open>\<open>Address.Hex\<close> is go-ethereum's, and \<open>Hash.Hex\<close> prints \<open>0x\<close> and the digits of the 32 bytes.\<close>

definition hex_printers :: "('abi, 'z) geth_scheme \<Rightarrow> printers \<Rightarrow> bool" where
  "hex_printers g pr \<longleftrightarrow> addr_text pr = Hex g \<and> hash_text pr = (\<lambda>h. ''0x'' @ hex_of_bytes (HashBytes g h))"

lemma length_Hex: "geth_laws g \<Longrightarrow> length (Hex g a) = 42"
proof -
  assume g: "geth_laws g"
  have "length (Hex g a) = length (ToLower (Hex g a))" by (simp add: ToLower_def)
  then show ?thesis by (simp add: geth_lawsD(1,10) [OF g])
qed

lemma Hex_inj: "geth_laws g \<Longrightarrow> Hex g a = Hex g b \<longleftrightarrow> a = b"
proof
  assume g: "geth_laws g" and "Hex g a = Hex g b"
  then have "ToLower (Hex g a) = ToLower (Hex g b)" by simp
  then have "hex_of_bytes (AddressBytes g a) = hex_of_bytes (AddressBytes g b)" by (simp add: geth_lawsD(10) [OF g])
  with geth_AddressBytes_inj [OF g] show "a = b" by (auto dest: hex_of_bytes_inj injD)
qed simp

lemma HashBytes_inj: "geth_laws g \<Longrightarrow> HashBytes g a = HashBytes g b \<longleftrightarrow> a = b"
  by (metis geth_lawsD(7))

lemma hash_Hex_inj: "geth_laws g \<Longrightarrow> hex_of_bytes (HashBytes g a) = hex_of_bytes (HashBytes g b) \<longleftrightarrow> a = b"
  using hex_of_bytes_inj HashBytes_inj by metis

lemma FormatUint_inj: "FormatUint a = FormatUint b \<longleftrightarrow> a = b"
  by (metis ParseUint_FormatUint result.inject(1))

text \<open>
  The report of a deployment at an unexpected address tells apart what it is about: two reports
  read the same only if the predicted address, the actual address, the transaction and the block
  are all the same.
\<close>

theorem mismatch_report:
  assumes "geth_laws g" and "hex_printers g pr"
  shows "Error pr (DeploymentMismatch p a h b) = Error pr (DeploymentMismatch p' a' h' b') \<longleftrightarrow>
    p = p' \<and> a = a' \<and> h = h' \<and> b = b'"
  using assms
  by (simp add: mismatch_text hex_printers_def append_eq_append_conv length_Hex geth_lawsD(6) Hex_inj hash_Hex_inj FormatUint_inj)

definition demo_printers :: printers where
  "demo_printers =
     \<lparr>addr_text = Hex demo_geth, hash_text = \<lambda>h. ''0x'' @ hex_of_bytes (HashBytes demo_geth h), quote_text = \<lambda>s. s,
      other_text = \<lambda>s. s\<rparr>"

theorem mismatch_report_witness:
  "Error demo_printers (DeploymentMismatch 1 2 3 4) \<noteq> Error demo_printers (DeploymentMismatch 1 2 3 5)"
proof -
  have "hex_printers demo_geth demo_printers" unfolding hex_printers_def demo_printers_def by simp
  note report = mismatch_report [OF demo_geth_laws this, of 1 2 3 4 1 2 3 5]
  have "(4 :: u64) \<noteq> 5" by simp
  with report show ?thesis by blast
qed

section \<open>An unknown version\<close>

definition plain_byte :: "char \<Rightarrow> bool" where
  "plain_byte c \<longleftrightarrow> 32 \<le> byte_of c \<and> byte_of c < 127 \<and> c \<noteq> CHR 0x22 \<and> c \<noteq> CHR 0x5C"

lemma quote_byte_plain: "plain_byte c \<Longrightarrow> quote_byte c = [c]"
  by (simp add: plain_byte_def quote_byte_def)

lemma Quote_plain: "list_all plain_byte s \<Longrightarrow> Quote pr s = ''\"'' @ s @ ''\"''"
proof -
  assume s: "list_all plain_byte s"
  then have "concat (map quote_byte s) = s" by (induction s) (simp_all add: quote_byte_plain)
  moreover from s have "list_all (\<lambda>c. byte_of c < 128) s" by (rule list.pred_mono_strong) (simp add: plain_byte_def)
  ultimately show ?thesis unfolding Quote_def by (simp only: if_True)
qed

lemma ErrUnknownVersion_text: "Error pr ErrUnknownVersion = ''unknown Safe version''"
  by (simp add: ErrUnknownVersion_def sentinel_text_def txmanager_texts_def versions_texts_def)

text \<open>
  \<open>New\<close> with a version that is not registered fails with \<open>ErrUnknownVersion\<close> and changes nothing;
  its message names the version in quotes and lists the registered ones, after the text of
  \<open>ErrUnknownVersion\<close> twice.
\<close>

theorem unknown_version_message:
  assumes "opt_validate opts = Ok ()" and "map_of (versions w) (opt_Version opts) = None" and "list_all plain_byte (opt_Version opts)"
  shows "\<exists>e. SafeClient.New g fresh opts w = Some (Err e, w) \<and> errors_is e ErrUnknownVersion \<and>
    Error pr e = ''unknown Safe version: unknown Safe version: \"'' @ opt_Version opts @ ''\": Supported versions are: ['' @
      join '' '' (map fst (versions w)) @ '']''"
  using assms
  by (simp add: New_def Let_def get_version_def chk_def gfail_def Get_def supported_def Quote_plain ErrUnknownVersion_text
      del: Error.simps(1))

theorem unknown_version_message_witness:
  "\<exists>e. SafeClient.New demo_tx (\<lambda>_. None) (demo_opts None (demo_receipt 1 0) ''9.9'') demo_safe = Some (Err e, demo_safe) \<and>
    errors_is e ErrUnknownVersion \<and>
    Error demo_printers e = ''unknown Safe version: unknown Safe version: \"9.9\": Supported versions are: [1.4.1]''"
proof -
  let ?o = "demo_opts None (demo_receipt 1 0) ''9.9''"
  have "opt_validate ?o = Ok ()" "map_of (versions demo_safe) (opt_Version ?o) = None" "list_all plain_byte (opt_Version ?o)"
    by (simp_all add: opt_validate_def demo_opts_def demo_safe_def demo_safe_of_def plain_byte_def byte_of_def)
  from unknown_version_message [OF this, of demo_tx "\<lambda>_. None" demo_printers] show ?thesis
    by (simp add: demo_opts_def demo_safe_def demo_safe_of_def)
qed

end
