(* ===== verification/Spec2Isabelle.thy ===== *)
theory Spec2Isabelle
  imports LocalConc Embedded Collision Validate TxNonce TxWait SignerConc MockClient ClientRun LocalSenders RedisSenders ClientApi ErrorText
begin

text \<open>
  SafeKit is a Go library that predicts the address of a Safe multisig wallet and deploys it on an
  EVM chain. This development models the library's own code, file by file, and proves what makes
  each part correct.

  \<^bold>\<open>The parts and how they interact.\<close> A client (\<open>pkg/safe\<close>) is made by \<open>New\<close> for one chain and one
  Safe version. It looks the version up in a process-wide registry (\<open>internal/versions\<close>), whose
  deployments load the contract addresses of a chain from embedded JSON files and cache them; which
  chain's addresses are used depends on the chain registry (\<open>pkg/chain\<close>), where a local chain can be
  registered as a fork of another. \<open>PredictAddress\<close> computes a CREATE2 address from these data
  (\<open>internal/predict\<close>). \<open>Deploy\<close> is \<open>Submit\<close> followed by \<open>Wait\<close> in the transaction manager
  (\<open>internal/txmanager\<close>): \<open>Submit\<close> acquires a nonce, prepares, signs and sends a transaction and
  resolves the nonce's slot by the outcome, \<open>Wait\<close> polls for the receipt and compares the address in
  the factory's event with the prediction. Nonces come from a manager: the local one serialises
  goroutines with a channel (\<open>pkg/nonce/local\<close>), the Redis one serialises processes with a lock that
  expires (\<open>pkg/nonce/redis\<close>). Signers hold the private key (\<open>pkg/signer\<close>); \<open>testing/mock\<close> is a
  client for tests that records deployments in memory.

  \<^bold>\<open>Programs.\<close> A Go function is a function from a world to \<open>None\<close> (it does not return) or to a result
  and the world it leaves; a result is \<open>Ok\<close>, \<open>Err\<close> with an error value, or \<open>Panic\<close>. \<open>chk m h k\<close> runs
  \<open>m\<close> and goes on with \<open>k\<close> on success and with \<open>h\<close> on an error, as \<open>if err != nil\<close> does; a panic goes
  through. Errors keep their wrapping, so that \<open>errors.Is\<close> is a function on them. \<open>uint64\<close>, \<open>uint8\<close>,
  addresses and hashes are words of their width; \<open>big.Int\<close> and durations are integers, with a nil
  pointer as \<open>None\<close>.

  \<^bold>\<open>The theories.\<close>
  \<^item> \<open>Prelude\<close>: the types above, their combinators and elimination rules.
  \<^item> \<open>NonceSpec\<close> (\<open>pkg/nonce/nonce.go\<close>): the abstract counter of the \<open>Slot\<close> contract, and the
    locales \<open>nonce_manager\<close> and \<open>strict_nonce_manager\<close> with the lemmas of a sequential client.
  \<^item> \<open>LocalNonce\<close>, \<open>LocalConc\<close> (\<open>pkg/nonce/local\<close>): the handlers, interpreting the locale; then the
    goroutines one atomic step at a time (\<open>lstep\<close>), with the invariant that exactly one of the
    channel's token, a goroutine and an open slot owns the manager, and the refinement of every
    interleaving to the abstract counter.
  \<^item> \<open>RedisNonce\<close> (\<open>pkg/nonce/redis\<close>): keys, lock, \<open>nextNonce\<close>, the Lua script and slots over a Redis
    client given by its commands, interpreting the same locale for one worker.
  \<^item> \<open>RedisConc\<close>, \<open>RedisRun\<close>: the goroutines of any number of processes on one Redis, one command at a
    time (\<open>rstep\<close>, \<open>cstep\<close>), with flags for failing commands and for an expiring lock. Without
    expiry: mutual exclusion, refinement to one shared counter with a dirty flag per manager,
    consecutive broadcast nonces; with it, a run that hands a broadcast nonce out again. The
    handlers are shown to be runs of the relation.
  \<^item> \<open>GoStd\<close>, \<open>Geth\<close>, \<open>Json\<close>, \<open>Eth\<close>: what the sources call. The standard library is modelled
    (decimal and hexadecimal conversions, \<open>TrimSpace\<close>, \<open>EqualFold\<close>, the reader of \<open>encoding/json\<close>);
    go-ethereum is a record of parameters, with the documented laws of its pure functions as the
    hypothesis \<open>geth_laws\<close>; the node, the signer, the nonce manager and the contexts are records of
    programs, and every call of the node, of the signer and of a nonce source is given the caller's
    context.
  \<^item> \<open>Chain\<close> (\<open>pkg/chain\<close>): the built-in chains, \<open>Register\<close>, \<open>Lookup\<close>, \<open>Fork\<close>, \<open>Deregister\<close>; the
    locale \<open>registry\<close>, interpreted here and on the registry of versions.
  \<^item> \<open>Versions\<close>, \<open>Embedded\<close> (\<open>internal/versions\<close>, \<open>pkg/version\<close>): decoding a deployment file, \<open>Load\<close>,
    the caches with their two critical sections (\<open>load_step\<close>), the registry of versions, and the
    three \<open>init\<close> functions with the creation code they embed.
  \<^item> \<open>Predict\<close>, \<open>Collision\<close> (\<open>internal/predict\<close>): the prediction equals the EIP-1014 address of the
    proxy that Safe's factory creates, and different inputs have different addresses up to
    collisions of the hash.
  \<^item> \<open>Validate\<close> (\<open>pkg/safe/validate.go\<close>): which configurations are accepted, and the error of the
    others.
  \<^item> \<open>Gas\<close> (\<open>internal/txmanager/gas.go\<close>): \<open>float64\<close> as a type with Go's product and comparison,
    rounding to nearest with ties to even; the bounds of the gas limit.
  \<^item> \<open>TxManager\<close>, \<open>TxWorld\<close>, \<open>TxNonce\<close>, \<open>TxWait\<close> (\<open>internal/txmanager\<close>): the operations; what they
    leave of the caches; \<open>Submit\<close> as a use of the slot protocol and its nonces on the local manager;
    when \<open>Wait\<close> and \<open>Deploy\<close> end and what they return.
  \<^item> \<open>Senders\<close>, \<open>LocalSenders\<close>, \<open>RedisSenders\<close>: any number of callers of \<open>Submit\<close> at once. A caller
    that holds a slot has yet to send its transaction or has sent it, and the node took it or not
    (\<open>phase\<close>); which way it may give the slot back depends on that (\<open>settles\<close>, \<open>sstep\<close>). The locale \<open>slot_machine\<close> says what a step relation of a
    manager and the abstract counter it refines have to offer; in it, what the node receives
    follows the counter. It is interpreted on \<open>lstep\<close> and on \<open>rstep\<close>, and \<open>Submit\<close> itself is a
    run of either composition.
  \<^item> \<open>Signer\<close>, \<open>SignerConc\<close> (\<open>pkg/signer\<close>): the three constructors, signing and closing, behind the
    locale \<open>tx_signer\<close>; then goroutines that sign and close one \<open>EnvSigner\<close> at once, which takes no
    lock, one read or write at a time (\<open>sign_step\<close>): what \<open>Close\<close> guarantees, that signing alone is
    undisturbed, and the races between \<open>Close\<close> and the other calls.
  \<^item> \<open>SafeClient\<close> (\<open>pkg/safe\<close>): the options, \<open>New\<close>, the methods of the client, \<open>RandomSalt\<close>.
  \<^item> \<open>ClientRun\<close>: a client with the nonce manager \<open>New\<close> makes by default; every sequence of calls of its
    methods goes on from the manager's counter (\<open>goes_on\<close>). The property at the end of this theory
    rests on it.
  \<^item> \<open>ErrorText\<close>: the text of an error, with the verbs of \<open>fmt\<close> the sources use; what the report of a
    mismatch determines.
  \<^item> \<open>ClientApi\<close>: the interface \<open>safe.Client\<close> as a record of methods; the locale \<open>safe_client\<close> with what
    an application may rely on, interpreted on the client of \<open>New\<close> and on the mock. Both tell one
    address for a configuration, the same one; only the client checks the configuration.
  \<^item> \<open>MockClient\<close> (\<open>testing/mock\<close>): the recorded deployments and the queue of forced errors.

  \<^bold>\<open>Loops, fuel and bounds.\<close> \<open>acquireLock\<close> and \<open>waitForReceipt\<close> may poll for ever and are partial
  functions whose value is then \<open>None\<close>; that \<open>Wait\<close> and \<open>Deploy\<close> return under a deadline is proved
  from what a context and a \<open>time.Ticker\<close> promise (\<open>deadline\<close>): ticks are due an interval apart, a
  slow receiver misses some, and a \<open>select\<close> may still take a waiting tick after the deadline. With a
  context that never ends they may not return (\<open>endless\<close>). The JSON reader takes twice the length of its input plus
  one as fuel, and more makes no difference (\<open>parse_fuel_enough\<close>); its nesting limit is Go's. Nonces
  wrap at \<open>2 ^ 64\<close>; Redis' \<open>DECR\<close> is signed, so that what is said of \<open>Reuse\<close> there needs the nonce to
  be below \<open>2 ^ 63 - 1\<close> (\<open>decr_supported\<close>).

  \<^bold>\<open>Not modelled.\<close> \<open>safe.Dial\<close> only calls \<open>ethclient.Dial\<close>. \<open>fmt\<close> is modelled
  for the verbs and the operands of the sources; it marks operands left over or of a wrong type,
  which the sources have none of. The errors of other packages have the text they are given. The
  embedded JSON files are arguments of \<open>init_versions\<close>. Chains and deployments are values: a caller that changes a
  \<open>*chain.Chain\<close> or \<open>*big.Int\<close> it has passed in is outside the model, and so are data races that
  the mutexes exclude; the accesses of a signer's key, which no mutex guards, interleave one by
  one, without the reorderings that Go's memory model allows in a race. The result of converting an out-of-range \<open>float64\<close> to \<open>uint64\<close> is an argument,
  since Go leaves it to the implementation. The commands of the Redis
  client take no context: a context that ends shows as a command that fails. Real time passes only through contexts, timers and, for
  the Redis lock, the step that lets it expire.
\<close>



end
